(* ===== verification/Prelude.thy ===== *)
theory Prelude
  imports Main "HOL-Library.Char_ord" "HOL-Library.List_Lexorder" "HOL-Library.Product_Lexorder"
begin

text \<open>
  Shared vocabulary of the development: the named theorem collections, machine integers
  (Go's \<open>int32\<close> and \<open>int64\<close> conversions), relational tables as lists of rows with the
  SQL statements the store uses (SELECT, UPDATE, DELETE, COUNT) as list functions, and the
  generic lemmas on them that every component needs.
\<close>

named_theorems store_defs "definitions of the store's transactions"
named_theorems table_simps "what a statement on a table does to its keys and rows"
named_theorems api_defs "definitions of the handlers and of what they call"

section \<open>Machine integers\<close>

text \<open>Conversion of an integer to a two's complement width, as Go's \<open>int32(x)\<close> and
  \<open>int64(x)\<close> do it.\<close>

definition to_int32 :: "int \<Rightarrow> int" where
  "to_int32 x = (x + 2 ^ 31) mod 2 ^ 32 - 2 ^ 31"

definition to_int64 :: "int \<Rightarrow> int" where
  "to_int64 x = (x + 2 ^ 63) mod 2 ^ 64 - 2 ^ 63"

definition in_int32 :: "int \<Rightarrow> bool" where
  "in_int32 x \<longleftrightarrow> - (2 ^ 31) \<le> x \<and> x < 2 ^ 31"

definition in_int64 :: "int \<Rightarrow> bool" where
  "in_int64 x \<longleftrightarrow> - (2 ^ 63) \<le> x \<and> x < 2 ^ 63"

lemma to_int32_id [simp]: "in_int32 x \<Longrightarrow> to_int32 x = x"
  by (auto simp: to_int32_def in_int32_def)

lemma to_int64_id [simp]: "in_int64 x \<Longrightarrow> to_int64 x = x"
  by (auto simp: to_int64_def in_int64_def)

lemma in_int32_to_int32 [simp]: "in_int32 (to_int32 x)"
proof -
  have "0 \<le> (x + 2 ^ 31) mod 2 ^ 32 \<and> (x + 2 ^ 31) mod 2 ^ 32 < (2::int) ^ 32"
    by simp
  then show ?thesis by (simp add: to_int32_def in_int32_def)
qed

lemma in_int64_to_int64 [simp]: "in_int64 (to_int64 x)"
proof -
  have "0 \<le> (x + 2 ^ 63) mod 2 ^ 64 \<and> (x + 2 ^ 63) mod 2 ^ 64 < (2::int) ^ 64"
    by simp
  then show ?thesis by (simp add: to_int64_def in_int64_def)
qed

text \<open>A number in decimal digits, as \<^verbatim>\<open>strconv\<close> and \<^verbatim>\<open>fmt\<close> write it.\<close>

fun decimal :: "nat \<Rightarrow> string" where
  "decimal n = (if n < 10 then [char_of (48 + n)] else decimal (n div 10) @ [char_of (48 + n mod 10)])"

declare decimal.simps [simp del]

text \<open>The lower case of an ASCII letter.\<close>

definition lower :: "char \<Rightarrow> char" where
  "lower c = (if CHR ''A'' \<le> c \<and> c \<le> CHR ''Z'' then char_of (of_char c + 32 :: nat) else c)"

section \<open>Tables\<close>

text \<open>
  A table is the list of its rows in storage order. \<open>sql_update p f\<close> is
  \<^verbatim>\<open>UPDATE t SET f WHERE p\<close>, \<open>sql_delete p\<close> is \<^verbatim>\<open>DELETE FROM t WHERE p\<close>,
  \<open>sql_count p\<close> is \<^verbatim>\<open>SELECT COUNT(*) FROM t WHERE p\<close>; a \<^verbatim>\<open>SELECT\<close> with an
  \<^verbatim>\<open>ORDER BY\<close> is \<open>sort_key\<close> of a \<open>filter\<close>, and a lookup by primary key is \<open>find\<close>.
\<close>

definition sql_update :: "('r \<Rightarrow> bool) \<Rightarrow> ('r \<Rightarrow> 'r) \<Rightarrow> 'r list \<Rightarrow> 'r list" where
  "sql_update p f rows = map (\<lambda>r. if p r then f r else r) rows"

definition sql_delete :: "('r \<Rightarrow> bool) \<Rightarrow> 'r list \<Rightarrow> 'r list" where
  "sql_delete p rows = filter (\<lambda>r. \<not> p r) rows"

definition sql_count :: "('r \<Rightarrow> bool) \<Rightarrow> 'r list \<Rightarrow> int" where
  "sql_count p rows = int (length (filter p rows))"

lemma set_sql_update [table_simps]:
  "set (sql_update p f rows) = {r. r \<in> set rows \<and> \<not> p r} \<union> f ` {r. r \<in> set rows \<and> p r}"
  by (auto simp: sql_update_def)

lemma set_sql_delete [table_simps]: "set (sql_delete p rows) = {r. r \<in> set rows \<and> \<not> p r}"
  by (auto simp: sql_delete_def)

lemma sql_count_pos [table_simps]: "(0 < sql_count p rows) = (\<exists>r \<in> set rows. p r)"
  by (auto simp: sql_count_def filter_empty_conv)

lemma sql_count_zero [table_simps]: "(sql_count p rows = 0) = (\<forall>r \<in> set rows. \<not> p r)"
  by (auto simp: sql_count_def filter_empty_conv)

lemma sql_count_nonneg [simp]: "0 \<le> sql_count p rows"
  by (simp add: sql_count_def)

lemma sql_count_append [simp]: "sql_count p (xs @ ys) = sql_count p xs + sql_count p ys"
  by (simp add: sql_count_def)

lemma sql_count_Cons [simp]: "sql_count p (x # xs) = (if p x then 1 else 0) + sql_count p xs"
  by (simp add: sql_count_def)

lemma sql_count_Nil [simp]: "sql_count p [] = 0"
  by (simp add: sql_count_def)

lemma sql_count_update_other:
  "(\<And>r. r \<in> set rows \<Longrightarrow> p r \<Longrightarrow> q (f r) = q r) \<Longrightarrow> sql_count q (sql_update p f rows) = sql_count q rows"
  by (induction rows) (auto simp: sql_update_def)

lemma sql_count_delete_le: "sql_count q (sql_delete p rows) \<le> sql_count q rows"
  by (induction rows) (auto simp: sql_delete_def)

lemma map_key_sql_update [table_simps]:
  "(\<And>r. r \<in> set rows \<Longrightarrow> p r \<Longrightarrow> key (f r) = key r) \<Longrightarrow> map key (sql_update p f rows) = map key rows"
  by (induction rows) (auto simp: sql_update_def)

lemma distinct_key_sql_delete [table_simps]:
  "distinct (map key rows) \<Longrightarrow> distinct (map key (sql_delete p rows))"
  by (simp add: sql_delete_def distinct_map_filter)

lemma distinct_key_unique:
  "distinct (map key rows) \<Longrightarrow> r \<in> set rows \<Longrightarrow> s \<in> set rows \<Longrightarrow> key r = key s \<Longrightarrow> r = s"
  by (induction rows) (auto simp: image_iff)

text \<open>Lookup by a key: \<open>find\<close> after each statement.\<close>

definition find_key :: "('r \<Rightarrow> 'k) \<Rightarrow> 'k \<Rightarrow> 'r list \<Rightarrow> 'r option" where
  "find_key key k rows = find (\<lambda>r. key r = k) rows"

lemma find_key_Nil [simp]: "find_key key k [] = None"
  by (simp add: find_key_def)

lemma find_key_Cons [simp]:
  "find_key key k (x # xs) = (if key x = k then Some x else find_key key k xs)"
  by (simp add: find_key_def)

lemma find_key_None [table_simps]: "(find_key key k rows = None) = (k \<notin> key ` set rows)"
  by (auto simp: find_key_def find_None_iff)

lemma sql_count_key: "(sql_count (\<lambda>r. key r = k) rows = 0) = (find_key key k rows = None)"
  by (induction rows) (auto simp: add_nonneg_eq_0_iff)

lemma find_key_SomeD: "find_key key k rows = Some r \<Longrightarrow> r \<in> set rows \<and> key r = k"
  by (induction rows) (auto split: if_splits)

lemma find_key_Some [table_simps]:
  "distinct (map key rows) \<Longrightarrow> (find_key key k rows = Some r) = (r \<in> set rows \<and> key r = k)"
  by (induction rows) (auto simp: image_iff)

lemma find_key_append [table_simps]:
  "find_key key k (xs @ ys) = (case find_key key k xs of None \<Rightarrow> find_key key k ys | Some r \<Rightarrow> Some r)"
  by (induction xs) auto

lemma find_key_sql_update [table_simps]:
  "(\<And>r. key (f r) = key r) \<Longrightarrow>
   find_key key k (sql_update p f rows) =
     map_option (\<lambda>r. if p r then f r else r) (find_key key k rows)"
  by (induction rows) (auto simp: sql_update_def)

lemma find_key_sql_update_key [table_simps]:
  "(\<And>r. key r = j \<Longrightarrow> p r \<Longrightarrow> key (f r) = j) \<Longrightarrow> (\<And>r. p r \<Longrightarrow> key r = j) \<Longrightarrow>
   find_key key k (sql_update p f rows) =
     map_option (\<lambda>r. if p r then f r else r) (find_key key k rows)"
  by (induction rows) (auto simp: sql_update_def)

lemma find_key_sql_delete [table_simps]:
  "distinct (map key rows) \<Longrightarrow>
   find_key key k (sql_delete p rows) =
     (case find_key key k rows of None \<Rightarrow> None | Some r \<Rightarrow> if p r then None else Some r)"
proof (induction rows)
  case (Cons a rows)
  moreover have "find_key key (key a) rows = None"
    using Cons.prems by (auto simp: find_key_None)
  ultimately show ?case by (auto simp: sql_delete_def split: option.splits)
qed (simp add: sql_delete_def)

lemma find_key_sql_delete_key [table_simps]:
  "find_key key k (sql_delete (\<lambda>r. key r = j) rows) = (if k = j then None else find_key key k rows)"
  by (induction rows) (auto simp: sql_delete_def)

lemma sql_update_none: "(\<And>r. r \<in> set rows \<Longrightarrow> \<not> p r) \<Longrightarrow> sql_update p f rows = rows"
  by (induction rows) (auto simp: sql_update_def)

lemma all_referenced: "(\<forall>p \<in> P. \<exists>h \<in> H. f h = g p) = (g ` P \<subseteq> f ` H)"
proof
  assume all: "\<forall>p \<in> P. \<exists>h \<in> H. f h = g p"
  show "g ` P \<subseteq> f ` H"
  proof
    fix x assume "x \<in> g ` P"
    then obtain p where "p \<in> P" "x = g p" by blast
    with all obtain h where "h \<in> H" "f h = x" by blast
    then show "x \<in> f ` H" by blast
  qed
next
  assume sub: "g ` P \<subseteq> f ` H"
  show "\<forall>p \<in> P. \<exists>h \<in> H. f h = g p"
  proof
    fix p assume "p \<in> P"
    with sub have "g p \<in> f ` H" by blast
    then obtain h where "h \<in> H" "g p = f h" by blast
    then show "\<exists>h \<in> H. f h = g p" by (intro bexI [of _ h]) simp_all
  qed
qed

section \<open>Results\<close>

text \<open>A \<open>sql.NullString\<close> written for a non-empty string and read back.\<close>

lemma null_string [simp]: "(case (if s \<noteq> [] then Some s else None) of None \<Rightarrow> [] | Some x \<Rightarrow> x) = s"
  by simp

text \<open>A Go function that returns \<open>(T, error)\<close> returns a value of the sum type: \<open>Inl\<close>
  is the error, \<open>Inr\<close> the value. \<open>is_ok\<close> is the \<open>err == nil\<close> test.\<close>

fun is_ok :: "'e + 'a \<Rightarrow> bool" where
  "is_ok (Inl _) = False"
| "is_ok (Inr _) = True"

lemma is_okE [elim]: "is_ok r \<Longrightarrow> (\<And>a. r = Inr a \<Longrightarrow> P) \<Longrightarrow> P"
  by (cases r) auto

lemma not_is_okE [elim]: "\<not> is_ok r \<Longrightarrow> (\<And>e. r = Inl e \<Longrightarrow> P) \<Longrightarrow> P"
  by (cases r) auto

end
