(* ===== verification/Types.thy ===== *)
theory Types
  imports Prelude
begin

text \<open>
  The messages and enums of \<^verbatim>\<open>api/proto/poolmgr/v1alpha1\<close> as the Go code sees them. A
  message that may be nil is an \<open>option\<close>; a nil-safe getter that falls back to the zero
  value is a definition of its own. A \<open>Timestamp\<close> is the instant it denotes, in
  nanoseconds since the Unix epoch, and a \<open>Duration\<close> its length in nanoseconds. Enums
  that a client can set carry a constructor for the values the schema does not name
  (proto3 enums are open). Of flintlock's \<open>MicroVMSpec\<close>, which is not part of this
  repository, only the fields the code reads or writes are named; the rest is one opaque
  field.
\<close>

type_synonym Timestamp = int
type_synonym Duration = int

section \<open>Pools\<close>

datatype ReplenishmentStrategyType =
    REPLENISHMENT_STRATEGY_TYPE_UNSPECIFIED
  | IMMEDIATE_ON_LEASE
  | MIN_SIZE_THRESHOLD
  | REPLACE_ON_DELETE
  | ReplenishmentStrategyType_OTHER int

record ReplenishmentStrategy =
  rs_Type :: ReplenishmentStrategyType
  rs_MinSize :: "int option"

datatype HookFailurePolicy =
    HOOK_FAILURE_POLICY_UNSPECIFIED
  | DELETE_AND_REPLACE
  | QUARANTINE
  | HookFailurePolicy_OTHER int

record NetworkInterface =
  ni_GuestMac :: string
  ni_Address :: "string option"

record MicroVMSpec =
  mv_Id :: string
  mv_Namespace :: string
  mv_AllowGuestAgent :: bool
  mv_Interfaces :: "NetworkInterface list"
  mv_Rest :: string

definition empty_MicroVMSpec :: MicroVMSpec where
  "empty_MicroVMSpec = \<lparr>mv_Id = [], mv_Namespace = [], mv_AllowGuestAgent = False,
     mv_Interfaces = [], mv_Rest = []\<rparr>"

record PoolSpec =
  ps_Name :: string
  ps_Namespace :: string
  ps_MicrovmTemplate :: "MicroVMSpec option"
  ps_Size :: int
  ps_FlintlockHosts :: "string list"
  ps_ReplenishmentStrategy :: "ReplenishmentStrategy option"
  ps_CreateCommands :: "string list"
  ps_PreLeaseCommands :: "string list"
  ps_HookFailurePolicy :: HookFailurePolicy
  ps_HeartbeatInterval :: "Duration option"
  ps_HeartbeatExpiryThreshold :: "Duration option"

text \<open>The nil-safe getters of the optional sub-messages.\<close>

definition rs_GetType :: "ReplenishmentStrategy option \<Rightarrow> ReplenishmentStrategyType" where
  "rs_GetType s = (case s of None \<Rightarrow> REPLENISHMENT_STRATEGY_TYPE_UNSPECIFIED | Some r \<Rightarrow> rs_Type r)"

definition rs_GetMinSize :: "ReplenishmentStrategy option \<Rightarrow> int" where
  "rs_GetMinSize s = (case s of None \<Rightarrow> 0 | Some r \<Rightarrow> (case rs_MinSize r of None \<Rightarrow> 0 | Some n \<Rightarrow> n))"

definition mv_GetInterfaces :: "MicroVMSpec option \<Rightarrow> NetworkInterface list" where
  "mv_GetInterfaces t = (case t of None \<Rightarrow> [] | Some m \<Rightarrow> mv_Interfaces m)"

definition AsDuration :: "Duration option \<Rightarrow> int" where
  "AsDuration d = (case d of None \<Rightarrow> 0 | Some n \<Rightarrow> n)"

record PoolRef =
  pref_Name :: string
  pref_Namespace :: string

record PoolStatus =
  pst_AvailableCount :: int
  pst_LeasedCount :: int
  pst_ProvisioningCount :: int
  pst_QuarantinedCount :: int

record Pool =
  pool_Spec :: PoolSpec
  pool_Status :: PoolStatus

section \<open>VMs and leases\<close>

datatype VMPhase =
    PROVISIONING
  | CREATE_HOOK_RUNNING
  | AVAILABLE
  | LEASED
  | PRE_LEASE_HOOK_RUNNING
  | DELETING
  | QUARANTINED
  | FAILED

record VMRecord =
  vm_Uid :: string
  vm_PoolName :: string
  vm_FlintlockHost :: string
  vm_Phase :: VMPhase
  vm_LeaseId :: "string option"
  vm_CreatedAt :: "Timestamp option"
  vm_UpdatedAt :: "Timestamp option"
  vm_PoolNamespace :: string

definition GetLeaseId :: "VMRecord \<Rightarrow> string" where
  "GetLeaseId v = (case vm_LeaseId v of None \<Rightarrow> [] | Some s \<Rightarrow> s)"

record LeaseRecord =
  l_LeaseId :: string
  l_VmUid :: string
  l_PoolName :: string
  l_ClaimedAt :: "Timestamp option"
  l_LastHeartbeatAt :: "Timestamp option"
  l_ExpiresAt :: "Timestamp option"
  l_PoolNamespace :: string
  l_RequestId :: string

text \<open>Of flintlock's \<open>NetworkInterfaceStatus\<close> the fields the code prints.\<close>

record NetworkInterfaceStatus =
  nis_HostDeviceName :: string
  nis_Index :: int
  nis_MacAddress :: string

section \<open>Events\<close>

datatype EventType =
    EVENT_TYPE_UNSPECIFIED
  | VM_PROVISIONED
  | VM_AVAILABLE
  | VM_CLAIMED
  | VM_RELEASED
  | VM_EXPIRING_SOON
  | VM_DELETED_DUE_TO_EXPIRY
  | VM_DELETED_ON_RELEASE
  | VM_HOOK_FAILED
  | POOL_REPLENISHING
  | POOL_SIZE_BELOW_TARGET
  | VM_DELETED_ON_POOL_DELETE
  | VM_DELETED_ON_HOST_DRAIN

record Event =
  e_Id :: int
  e_PoolName :: string
  e_VmUid :: string
  e_Type :: EventType
  e_CreatedAt :: "Timestamp option"
  e_PayloadJson :: string
  e_PoolNamespace :: string

section \<open>Hosts\<close>

record HostTLS =
  tls_Insecure :: bool
  tls_CaFile :: string
  tls_CertFile :: string
  tls_KeyFile :: string

definition empty_HostTLS :: HostTLS where
  "empty_HostTLS = \<lparr>tls_Insecure = False, tls_CaFile = [], tls_CertFile = [], tls_KeyFile = []\<rparr>"

record Host =
  h_Name :: string
  h_Address :: string
  h_Cordoned :: bool
  h_CordonedReason :: string
  h_CordonedAt :: "Timestamp option"
  h_UpdatedAt :: "Timestamp option"
  h_Tls :: "HostTLS option"
  h_Draining :: bool
  h_DrainingAt :: "Timestamp option"

text \<open>\<open>GetTls()\<close> followed by a nil-safe getter: a nil message reads as the empty one.\<close>

definition h_GetTls :: "Host \<Rightarrow> HostTLS" where
  "h_GetTls h = (case h_Tls h of None \<Rightarrow> empty_HostTLS | Some t \<Rightarrow> t)"

record HostStatus =
  hs_Host :: Host
  hs_VmCount :: int
  hs_FlintlockVersion :: string

end
