(* ===== verification/Strategy.thy ===== *)
theory Strategy
  imports Types
begin

text \<open>
  Model of \<^verbatim>\<open>src/internal/reconciler/strategy.go\<close>: the three replenishment strategies and
  the interface they implement. The locale \<open>strategy\<close> is that interface with the laws the
  control loop relies on; it is interpreted for each of the three implementations.
\<close>

section \<open>Definitions\<close>

datatype StrategyErr = ErrUnknownStrategy | ErrMinSizeRequired

record VMCounts =
  Available :: int
  Claiming :: int
  Leased :: int
  Provisioning :: int
  Quarantined :: int

datatype Strategy = immediateOnLease | minSizeThreshold | replaceOnDelete

definition NewStrategy :: "ReplenishmentStrategy option \<Rightarrow> StrategyErr + Strategy" where
  "NewStrategy spec =
     (case spec of None \<Rightarrow> Inl ErrUnknownStrategy
      | Some s \<Rightarrow>
        (case rs_Type s of
           IMMEDIATE_ON_LEASE \<Rightarrow> Inr immediateOnLease
         | MIN_SIZE_THRESHOLD \<Rightarrow>
             if rs_MinSize s = None \<or> rs_GetMinSize spec \<le> 0 then Inl ErrMinSizeRequired
             else Inr minSizeThreshold
         | REPLACE_ON_DELETE \<Rightarrow> Inr replaceOnDelete
         | _ \<Rightarrow> Inl ErrUnknownStrategy))"

definition immediateOnLease_shortfall :: "PoolSpec \<Rightarrow> VMCounts \<Rightarrow> int" where
  "immediateOnLease_shortfall pool counts =
     max 0 (ps_Size pool - (Available counts + Claiming counts + Provisioning counts))"

definition minSizeThreshold_DesiredNewVMs :: "PoolSpec \<Rightarrow> VMCounts \<Rightarrow> int" where
  "minSizeThreshold_DesiredNewVMs pool counts =
     (let minSize = rs_GetMinSize (ps_ReplenishmentStrategy pool) in
      if to_int32 (Available counts) \<ge> minSize then 0
      else
        let inFlight = Available counts + Claiming counts + Leased counts + Provisioning counts;
            need = ps_Size pool - inFlight
        in if need < 0 then 0 else need)"

definition replaceOnDelete_shortfall :: "PoolSpec \<Rightarrow> VMCounts \<Rightarrow> int" where
  "replaceOnDelete_shortfall pool counts =
     max 0 (ps_Size pool - (Available counts + Claiming counts + Leased counts + Provisioning counts))"

fun DesiredNewVMs :: "Strategy \<Rightarrow> PoolSpec \<Rightarrow> VMCounts \<Rightarrow> int" where
  "DesiredNewVMs immediateOnLease pool counts = immediateOnLease_shortfall pool counts"
| "DesiredNewVMs minSizeThreshold pool counts = minSizeThreshold_DesiredNewVMs pool counts"
| "DesiredNewVMs replaceOnDelete pool counts = replaceOnDelete_shortfall pool counts"

fun OnVMClaimed :: "Strategy \<Rightarrow> PoolSpec \<Rightarrow> VMCounts \<Rightarrow> int" where
  "OnVMClaimed immediateOnLease pool counts = immediateOnLease_shortfall pool counts"
| "OnVMClaimed minSizeThreshold pool counts = 0"
| "OnVMClaimed replaceOnDelete pool counts = 0"

fun OnVMDeleted :: "Strategy \<Rightarrow> PoolSpec \<Rightarrow> VMCounts \<Rightarrow> int" where
  "OnVMDeleted immediateOnLease pool counts = 0"
| "OnVMDeleted minSizeThreshold pool counts = 0"
| "OnVMDeleted replaceOnDelete pool counts = replaceOnDelete_shortfall pool counts"

text \<open>The VMs a strategy counts toward the pool's target size.\<close>

fun counted :: "Strategy \<Rightarrow> VMCounts \<Rightarrow> int" where
  "counted immediateOnLease c = Available c + Claiming c + Provisioning c"
| "counted minSizeThreshold c = Available c + Claiming c + Leased c + Provisioning c"
| "counted replaceOnDelete c = Available c + Claiming c + Leased c + Provisioning c"

text \<open>The counts after \<open>n\<close> more VMs have started provisioning.\<close>

definition start_provisioning :: "int \<Rightarrow> VMCounts \<Rightarrow> VMCounts" where
  "start_provisioning n c = c\<lparr>Provisioning := Provisioning c + n\<rparr>"

text \<open>A run of triggers, each starting what its hook asks for: a tick or start-up
  (\<open>DesiredNewVMs\<close>), a claimed VM, a deleted VM.\<close>

datatype Trigger = Tick_Trigger | Claimed_Trigger | Deleted_Trigger

fun run_triggers :: "(PoolSpec \<Rightarrow> VMCounts \<Rightarrow> int) \<Rightarrow> (PoolSpec \<Rightarrow> VMCounts \<Rightarrow> int) \<Rightarrow> (PoolSpec \<Rightarrow> VMCounts \<Rightarrow> int) \<Rightarrow>
    PoolSpec \<Rightarrow> Trigger list \<Rightarrow> VMCounts \<Rightarrow> VMCounts" where
  "run_triggers des cl del p [] c = c"
| "run_triggers des cl del p (t # ts) c =
     run_triggers des cl del p ts (start_provisioning
       (case t of Tick_Trigger \<Rightarrow> des p c | Claimed_Trigger \<Rightarrow> cl p c | Deleted_Trigger \<Rightarrow> del p c) c)"

section \<open>The strategy interface\<close>

locale strategy =
  fixes desired :: "PoolSpec \<Rightarrow> VMCounts \<Rightarrow> int"
    and claimed :: "PoolSpec \<Rightarrow> VMCounts \<Rightarrow> int"
    and deleted :: "PoolSpec \<Rightarrow> VMCounts \<Rightarrow> int"
    and live :: "VMCounts \<Rightarrow> int"
  assumes desired_nonneg: "0 \<le> desired p c"
    and never_over: "0 < desired p c \<Longrightarrow> live c + desired p c = ps_Size p"
    and full_is_zero: "ps_Size p \<le> live c \<Longrightarrow> desired p c = 0"
    and live_start: "live (start_provisioning n c) = live c + n"
    and claimed_level: "claimed p c = 0 \<or> claimed p c = desired p c"
    and deleted_level: "deleted p c = 0 \<or> deleted p c = desired p c"
begin

lemma claimed_nonneg: "0 \<le> claimed p c"
  using desired_nonneg [of p c] claimed_level [of p c] by auto

lemma deleted_nonneg: "0 \<le> deleted p c"
  using desired_nonneg [of p c] deleted_level [of p c] by auto

lemma settles: "0 < desired p c \<Longrightarrow> desired p (start_provisioning (desired p c) c) = 0"
proof -
  assume "0 < desired p c"
  then have "live (start_provisioning (desired p c) c) = ps_Size p"
    using never_over [of p c] live_start [of "desired p c" c] by simp
  then show ?thesis using full_is_zero [of p "start_provisioning (desired p c) c"] by simp
qed

lemma one_trigger:
  assumes "n = 0 \<or> n = desired p c"
  shows "live (start_provisioning n c) \<le> max (ps_Size p) (live c)"
proof (cases "0 < desired p c")
  case True
  then show ?thesis using assms never_over [of p c] live_start [of n c] by auto
next
  case False
  then have "desired p c = 0" using desired_nonneg [of p c] by simp
  then show ?thesis using assms live_start [of n c] by simp
qed

lemma run_triggers_bound: "live (run_triggers desired claimed deleted p ts c) \<le> max (ps_Size p) (live c)"
proof (induction ts arbitrary: c)
  case (Cons t ts)
  let ?n = "case t of Tick_Trigger \<Rightarrow> desired p c | Claimed_Trigger \<Rightarrow> claimed p c | Deleted_Trigger \<Rightarrow> deleted p c"
  have "?n = 0 \<or> ?n = desired p c"
    using claimed_level [of p c] deleted_level [of p c] by (cases t) auto
  then have "live (start_provisioning ?n c) \<le> max (ps_Size p) (live c)" by (rule one_trigger)
  with Cons.IH [of "start_provisioning ?n c"] show ?case by (simp add: max_def split: if_splits)
qed simp

end

lemma live_start_provisioning [simp]: "counted s (start_provisioning n c) = counted s c + n"
  by (cases s) (auto simp: start_provisioning_def)

lemmas shortfall_defs = immediateOnLease_shortfall_def replaceOnDelete_shortfall_def
  minSizeThreshold_DesiredNewVMs_def Let_def

interpretation iol: strategy "DesiredNewVMs immediateOnLease" "OnVMClaimed immediateOnLease"
  "OnVMDeleted immediateOnLease" "counted immediateOnLease"
  by unfold_locales (auto simp: shortfall_defs start_provisioning_def)

interpretation mst: strategy "DesiredNewVMs minSizeThreshold" "OnVMClaimed minSizeThreshold"
  "OnVMDeleted minSizeThreshold" "counted minSizeThreshold"
  by unfold_locales (auto simp: shortfall_defs start_provisioning_def split: if_splits)

interpretation rod: strategy "DesiredNewVMs replaceOnDelete" "OnVMClaimed replaceOnDelete"
  "OnVMDeleted replaceOnDelete" "counted replaceOnDelete"
  by unfold_locales (auto simp: shortfall_defs start_provisioning_def)

lemma strategy_all: "strategy (DesiredNewVMs s) (OnVMClaimed s) (OnVMDeleted s) (counted s)"
  by (cases s) (auto intro: iol.strategy_axioms mst.strategy_axioms rod.strategy_axioms)

section \<open>Properties\<close>

text \<open>C20: no strategy overshoots. Whatever sequence of ticks, claims and deletions triggers
  replenishment, each provisioning what its hook asks for, the VMs a strategy counts toward the
  target never exceed the pool's size (or their number at the start, if that was larger).\<close>

theorem strategies_never_overshoot:
  "counted s (run_triggers (DesiredNewVMs s) (OnVMClaimed s) (OnVMDeleted s) p ts c) \<le> max (ps_Size p) (counted s c)"
  using strategy.run_triggers_bound [OF strategy_all] .

text \<open>A strategy that asks for VMs asks for exactly the shortfall, and for nothing more once
  they are provisioning: one pass brings the counted VMs to the pool's size and the next asks
  for none.\<close>

theorem strategies_settle:
  assumes "0 < DesiredNewVMs s p c"
  shows "counted s (start_provisioning (DesiredNewVMs s p c) c) = ps_Size p \<and>
         DesiredNewVMs s p (start_provisioning (DesiredNewVMs s p c) c) = 0"
  using strategy.settles [OF strategy_all assms] strategy.never_over [OF strategy_all assms] by simp

theorem strategies_settle_witness:
  "let p = \<lparr>ps_Name = ''p'', ps_Namespace = [], ps_MicrovmTemplate = None, ps_Size = 5, ps_FlintlockHosts = [],
             ps_ReplenishmentStrategy = Some \<lparr>rs_Type = MIN_SIZE_THRESHOLD, rs_MinSize = Some 2\<rparr>,
             ps_CreateCommands = [], ps_PreLeaseCommands = [], ps_HookFailurePolicy = QUARANTINE,
             ps_HeartbeatInterval = None, ps_HeartbeatExpiryThreshold = None\<rparr>;
       c = \<lparr>Available = 1, Claiming = 0, Leased = 2, Provisioning = 0, Quarantined = 4\<rparr>
   in DesiredNewVMs minSizeThreshold p c = 2 \<and> DesiredNewVMs minSizeThreshold p (start_provisioning 2 c) = 0"
proof -
  let ?p = "\<lparr>ps_Name = ''p'', ps_Namespace = [], ps_MicrovmTemplate = None, ps_Size = 5, ps_FlintlockHosts = [],
             ps_ReplenishmentStrategy = Some \<lparr>rs_Type = MIN_SIZE_THRESHOLD, rs_MinSize = Some 2\<rparr>,
             ps_CreateCommands = [], ps_PreLeaseCommands = [], ps_HookFailurePolicy = QUARANTINE,
             ps_HeartbeatInterval = None, ps_HeartbeatExpiryThreshold = None\<rparr>"
  let ?c = "\<lparr>Available = 1, Claiming = 0, Leased = 2, Provisioning = 0, Quarantined = 4\<rparr>"
  have "DesiredNewVMs minSizeThreshold ?p ?c = 2"
    by (simp add: minSizeThreshold_DesiredNewVMs_def rs_GetMinSize_def to_int32_def)
  with strategies_settle [of minSizeThreshold ?p ?c] show ?thesis by (simp add: Let_def)
qed

end
