(* ===== verification/Convert.thy ===== *)
theory Convert
  imports Types
begin

text \<open>
  Model of \<^verbatim>\<open>src/internal/store/convert.go\<close>: the flat rows of the tables and the
  conversions between rows and messages. A JSON text column is kept as the JSON value it
  denotes; an enum column is kept as the enum value whose number it holds. The protojson
  library is not part of the repository: its four uses are the fields of \<open>protojson\<close>,
  a parameter of the conversions that need it (\<open>None\<close> is an error), and what the store
  relies on is \<open>protojson_ok\<close>.
\<close>

section \<open>Errors of the store\<close>

text \<open>The sentinel errors of \<^verbatim>\<open>store.go\<close>; \<open>ErrRequired\<close> is the error of a missing
  required field, \<open>ErrMarshal\<close> a conversion error, \<open>ErrConstraint\<close> a UNIQUE or PRIMARY
  KEY violation with no sentinel of its own, and \<open>ErrDB\<close> any failure of the driver or of
  the context.\<close>

datatype StoreErr =
    ErrNotFound
  | ErrNoAvailableVM
  | ErrLeaseNotExpired
  | ErrDuplicateRequestID
  | ErrHostCordoned
  | ErrHostNotRegistered
  | ErrHostExists
  | HostInUseError "string list" int
  | ErrPoolHasLeasedVMs
  | ErrVMDeleting
  | ErrRequired string
  | ErrMarshal string
  | ErrConstraint string
  | ErrDB

section \<open>Times\<close>

text \<open>\<open>time.Time.UnixNano\<close>: the instant as an \<open>int64\<close>.\<close>

definition UnixNano :: "Timestamp \<Rightarrow> int" where
  "UnixNano t = to_int64 t"

definition requireTimestamp :: "string \<Rightarrow> Timestamp option \<Rightarrow> StoreErr + Timestamp" where
  "requireTimestamp field ts = (case ts of None \<Rightarrow> Inl (ErrRequired field) | Some t \<Rightarrow> Inr t)"

definition requireDuration :: "string \<Rightarrow> Duration option \<Rightarrow> StoreErr + Duration" where
  "requireDuration field d = (case d of None \<Rightarrow> Inl (ErrRequired field) | Some n \<Rightarrow> Inr n)"

section \<open>JSON columns\<close>

datatype json = JNull | JString string | JArray "json list"

text \<open>\<open>json.Marshal\<close> of a \<open>[]string\<close> (a nil slice is \<^verbatim>\<open>null\<close>) and \<open>json.Unmarshal\<close>
  into one (a \<^verbatim>\<open>null\<close> document is the nil slice, a \<^verbatim>\<open>null\<close> element the empty
  string, anything else an error).\<close>

definition json_marshal_strings :: "string list \<Rightarrow> json" where
  "json_marshal_strings xs = (if xs = [] then JNull else JArray (map JString xs))"

fun json_element :: "json \<Rightarrow> string option" where
  "json_element (JString s) = Some s"
| "json_element JNull = Some []"
| "json_element (JArray _) = None"

fun json_elements :: "json list \<Rightarrow> string list option" where
  "json_elements [] = Some []"
| "json_elements (j # js) =
     (case json_element j of None \<Rightarrow> None
      | Some s \<Rightarrow> (case json_elements js of None \<Rightarrow> None | Some ss \<Rightarrow> Some (s # ss)))"

fun json_unmarshal_strings :: "json \<Rightarrow> string list option" where
  "json_unmarshal_strings JNull = Some []"
| "json_unmarshal_strings (JString _) = None"
| "json_unmarshal_strings (JArray js) = json_elements js"

text \<open>SQLite's \<open>json_each(column).value\<close>: one row per array element, one row for a
  scalar; a JSON null is SQL NULL and so equals nothing.\<close>

fun json_value :: "json \<Rightarrow> string option" where
  "json_value (JString s) = Some s"
| "json_value _ = None"

fun json_each :: "json \<Rightarrow> string option list" where
  "json_each (JArray js) = map json_value js"
| "json_each j = [json_value j]"

lemma json_elements_map_JString [simp]: "json_elements (map JString xs) = Some xs"
  by (induction xs) auto

lemma json_strings_roundtrip [simp]: "json_unmarshal_strings (json_marshal_strings xs) = Some xs"
  by (simp add: json_marshal_strings_def)

lemma json_each_marshal_strings [simp]:
  "(Some h \<in> set (json_each (json_marshal_strings hs))) = (h \<in> set hs)"
  by (auto simp: json_marshal_strings_def)

record protojson =
  pj_MarshalTemplate :: "MicroVMSpec option \<Rightarrow> string option"
  pj_UnmarshalTemplate :: "string \<Rightarrow> MicroVMSpec option"
  pj_MarshalStrategy :: "ReplenishmentStrategy option \<Rightarrow> string option"
  pj_UnmarshalStrategy :: "string \<Rightarrow> ReplenishmentStrategy option"

text \<open>What protojson documents: unmarshalling the text of a message gives the message back.\<close>

definition protojson_ok :: "protojson \<Rightarrow> bool" where
  "protojson_ok C \<longleftrightarrow>
     (\<forall>m s. pj_MarshalTemplate C (Some m) = Some s \<longrightarrow> pj_UnmarshalTemplate C s = Some m) \<and>
     (\<forall>m s. pj_MarshalStrategy C (Some m) = Some s \<longrightarrow> pj_UnmarshalStrategy C s = Some m)"

section \<open>Pool rows\<close>

record poolRow =
  pr_name :: string
  pr_namespace :: string
  pr_size :: int
  pr_flintlockHosts :: json
  pr_microvmTemplate :: string
  pr_replenishmentStrategy :: string
  pr_createCommands :: json
  pr_preLeaseCommands :: json
  pr_hookFailurePolicy :: HookFailurePolicy
  pr_heartbeatIntervalNs :: int
  pr_heartbeatExpiryThresholdNs :: int

definition poolToRow :: "protojson \<Rightarrow> PoolSpec \<Rightarrow> StoreErr + poolRow" where
  "poolToRow C p =
     (case requireDuration ''heartbeat_interval'' (ps_HeartbeatInterval p) of Inl e \<Rightarrow> Inl e
      | Inr heartbeatInterval \<Rightarrow>
     (case requireDuration ''heartbeat_expiry_threshold'' (ps_HeartbeatExpiryThreshold p) of Inl e \<Rightarrow> Inl e
      | Inr heartbeatExpiryThreshold \<Rightarrow>
     (case pj_MarshalTemplate C (ps_MicrovmTemplate p) of None \<Rightarrow> Inl (ErrMarshal ''microvm_template'')
      | Some template \<Rightarrow>
     (case pj_MarshalStrategy C (ps_ReplenishmentStrategy p) of None \<Rightarrow> Inl (ErrMarshal ''replenishment_strategy'')
      | Some strategy \<Rightarrow>
        Inr \<lparr>pr_name = ps_Name p,
             pr_namespace = ps_Namespace p,
             pr_size = ps_Size p,
             pr_flintlockHosts = json_marshal_strings (ps_FlintlockHosts p),
             pr_microvmTemplate = template,
             pr_replenishmentStrategy = strategy,
             pr_createCommands = json_marshal_strings (ps_CreateCommands p),
             pr_preLeaseCommands = json_marshal_strings (ps_PreLeaseCommands p),
             pr_hookFailurePolicy = ps_HookFailurePolicy p,
             pr_heartbeatIntervalNs = heartbeatInterval,
             pr_heartbeatExpiryThresholdNs = heartbeatExpiryThreshold\<rparr>))))"

definition rowToPool :: "protojson \<Rightarrow> poolRow \<Rightarrow> StoreErr + PoolSpec" where
  "rowToPool C row =
     (case json_unmarshal_strings (pr_flintlockHosts row) of None \<Rightarrow> Inl (ErrMarshal ''flintlock_hosts'')
      | Some hosts \<Rightarrow>
     (case pj_UnmarshalTemplate C (pr_microvmTemplate row) of None \<Rightarrow> Inl (ErrMarshal ''microvm_template'')
      | Some template \<Rightarrow>
     (case pj_UnmarshalStrategy C (pr_replenishmentStrategy row) of None \<Rightarrow> Inl (ErrMarshal ''replenishment_strategy'')
      | Some strategy \<Rightarrow>
     (case json_unmarshal_strings (pr_createCommands row) of None \<Rightarrow> Inl (ErrMarshal ''create_commands'')
      | Some createCommands \<Rightarrow>
     (case json_unmarshal_strings (pr_preLeaseCommands row) of None \<Rightarrow> Inl (ErrMarshal ''pre_lease_commands'')
      | Some preLeaseCommands \<Rightarrow>
        Inr \<lparr>ps_Name = pr_name row,
             ps_Namespace = pr_namespace row,
             ps_MicrovmTemplate = Some template,
             ps_Size = pr_size row,
             ps_FlintlockHosts = hosts,
             ps_ReplenishmentStrategy = Some strategy,
             ps_CreateCommands = createCommands,
             ps_PreLeaseCommands = preLeaseCommands,
             ps_HookFailurePolicy = pr_hookFailurePolicy row,
             ps_HeartbeatInterval = Some (pr_heartbeatIntervalNs row),
             ps_HeartbeatExpiryThreshold = Some (pr_heartbeatExpiryThresholdNs row)\<rparr>)))))"

section \<open>VM rows\<close>

record vmRow =
  vr_uid :: string
  vr_poolName :: string
  vr_poolNamespace :: string
  vr_flintlockHost :: string
  vr_phase :: VMPhase
  vr_leaseID :: "string option"
  vr_createdAt :: int
  vr_updatedAt :: int

definition vmToRow :: "VMRecord \<Rightarrow> StoreErr + vmRow" where
  "vmToRow v =
     (case requireTimestamp ''created_at'' (vm_CreatedAt v) of Inl e \<Rightarrow> Inl e
      | Inr createdAt \<Rightarrow>
     (case requireTimestamp ''updated_at'' (vm_UpdatedAt v) of Inl e \<Rightarrow> Inl e
      | Inr updatedAt \<Rightarrow>
        Inr \<lparr>vr_uid = vm_Uid v,
             vr_poolName = vm_PoolName v,
             vr_poolNamespace = vm_PoolNamespace v,
             vr_flintlockHost = vm_FlintlockHost v,
             vr_phase = vm_Phase v,
             vr_leaseID = vm_LeaseId v,
             vr_createdAt = UnixNano createdAt,
             vr_updatedAt = UnixNano updatedAt\<rparr>))"

definition rowToVM :: "vmRow \<Rightarrow> VMRecord" where
  "rowToVM row =
     \<lparr>vm_Uid = vr_uid row,
      vm_PoolName = vr_poolName row,
      vm_FlintlockHost = vr_flintlockHost row,
      vm_Phase = vr_phase row,
      vm_LeaseId = vr_leaseID row,
      vm_CreatedAt = Some (vr_createdAt row),
      vm_UpdatedAt = Some (vr_updatedAt row),
      vm_PoolNamespace = vr_poolNamespace row\<rparr>"

section \<open>Lease rows\<close>

record leaseRow =
  lr_leaseID :: string
  lr_vmUID :: string
  lr_poolName :: string
  lr_poolNamespace :: string
  lr_claimedAt :: int
  lr_lastHeartbeatAt :: int
  lr_expiresAt :: int
  lr_requestID :: "string option"

definition leaseToRow :: "LeaseRecord \<Rightarrow> StoreErr + leaseRow" where
  "leaseToRow l =
     (case requireTimestamp ''claimed_at'' (l_ClaimedAt l) of Inl e \<Rightarrow> Inl e
      | Inr claimedAt \<Rightarrow>
     (case requireTimestamp ''last_heartbeat_at'' (l_LastHeartbeatAt l) of Inl e \<Rightarrow> Inl e
      | Inr lastHeartbeatAt \<Rightarrow>
     (case requireTimestamp ''expires_at'' (l_ExpiresAt l) of Inl e \<Rightarrow> Inl e
      | Inr expiresAt \<Rightarrow>
        Inr \<lparr>lr_leaseID = l_LeaseId l,
             lr_vmUID = l_VmUid l,
             lr_poolName = l_PoolName l,
             lr_poolNamespace = l_PoolNamespace l,
             lr_claimedAt = UnixNano claimedAt,
             lr_lastHeartbeatAt = UnixNano lastHeartbeatAt,
             lr_expiresAt = UnixNano expiresAt,
             lr_requestID = (if l_RequestId l \<noteq> [] then Some (l_RequestId l) else None)\<rparr>)))"

definition rowToLease :: "leaseRow \<Rightarrow> LeaseRecord" where
  "rowToLease row =
     \<lparr>l_LeaseId = lr_leaseID row,
      l_VmUid = lr_vmUID row,
      l_PoolName = lr_poolName row,
      l_ClaimedAt = Some (lr_claimedAt row),
      l_LastHeartbeatAt = Some (lr_lastHeartbeatAt row),
      l_ExpiresAt = Some (lr_expiresAt row),
      l_PoolNamespace = lr_poolNamespace row,
      l_RequestId = (case lr_requestID row of None \<Rightarrow> [] | Some s \<Rightarrow> s)\<rparr>"

section \<open>Host rows\<close>

record hostRow =
  hr_name :: string
  hr_address :: string
  hr_cordoned :: bool
  hr_cordonedReason :: "string option"
  hr_cordonedAt :: "int option"
  hr_updatedAt :: int
  hr_tlsInsecure :: bool
  hr_caFile :: string
  hr_certFile :: string
  hr_keyFile :: string
  hr_draining :: bool
  hr_drainingAt :: "int option"

definition hostToRow :: "Host \<Rightarrow> StoreErr + hostRow" where
  "hostToRow h =
     (case requireTimestamp ''updated_at'' (h_UpdatedAt h) of Inl e \<Rightarrow> Inl e
      | Inr updatedAt \<Rightarrow>
        Inr \<lparr>hr_name = h_Name h,
             hr_address = h_Address h,
             hr_cordoned = h_Cordoned h,
             hr_cordonedReason = (if h_CordonedReason h \<noteq> [] then Some (h_CordonedReason h) else None),
             hr_cordonedAt = map_option UnixNano (h_CordonedAt h),
             hr_updatedAt = UnixNano updatedAt,
             hr_tlsInsecure = tls_Insecure (h_GetTls h),
             hr_caFile = tls_CaFile (h_GetTls h),
             hr_certFile = tls_CertFile (h_GetTls h),
             hr_keyFile = tls_KeyFile (h_GetTls h),
             hr_draining = h_Draining h,
             hr_drainingAt = map_option UnixNano (h_DrainingAt h)\<rparr>)"

definition rowToHost :: "hostRow \<Rightarrow> Host" where
  "rowToHost row =
     \<lparr>h_Name = hr_name row,
      h_Address = hr_address row,
      h_Cordoned = hr_cordoned row,
      h_CordonedReason = (case hr_cordonedReason row of None \<Rightarrow> [] | Some s \<Rightarrow> s),
      h_CordonedAt = hr_cordonedAt row,
      h_UpdatedAt = Some (hr_updatedAt row),
      h_Tls = Some \<lparr>tls_Insecure = hr_tlsInsecure row, tls_CaFile = hr_caFile row,
                     tls_CertFile = hr_certFile row, tls_KeyFile = hr_keyFile row\<rparr>,
      h_Draining = hr_draining row,
      h_DrainingAt = hr_drainingAt row\<rparr>"

section \<open>Shared facts\<close>

text \<open>Conversions read field by field; the proofs about the store use these and not the
  definitions.\<close>

lemma rowToVM_simps [simp]:
  "vm_Uid (rowToVM r) = vr_uid r" "vm_PoolName (rowToVM r) = vr_poolName r"
  "vm_PoolNamespace (rowToVM r) = vr_poolNamespace r" "vm_FlintlockHost (rowToVM r) = vr_flintlockHost r"
  "vm_Phase (rowToVM r) = vr_phase r" "vm_LeaseId (rowToVM r) = vr_leaseID r"
  "vm_CreatedAt (rowToVM r) = Some (vr_createdAt r)" "vm_UpdatedAt (rowToVM r) = Some (vr_updatedAt r)"
  by (simp_all add: rowToVM_def)

lemma rowToLease_simps [simp]:
  "l_LeaseId (rowToLease r) = lr_leaseID r" "l_VmUid (rowToLease r) = lr_vmUID r"
  "l_PoolName (rowToLease r) = lr_poolName r" "l_PoolNamespace (rowToLease r) = lr_poolNamespace r"
  "l_ExpiresAt (rowToLease r) = Some (lr_expiresAt r)" "l_ClaimedAt (rowToLease r) = Some (lr_claimedAt r)"
  "l_LastHeartbeatAt (rowToLease r) = Some (lr_lastHeartbeatAt r)"
  "l_RequestId (rowToLease r) = (case lr_requestID r of None \<Rightarrow> [] | Some s \<Rightarrow> s)"
  by (simp_all add: rowToLease_def)

lemma rowToHost_simps [simp]:
  "h_Name (rowToHost r) = hr_name r" "h_Cordoned (rowToHost r) = hr_cordoned r"
  "h_Draining (rowToHost r) = hr_draining r" "h_Address (rowToHost r) = hr_address r"
  by (simp_all add: rowToHost_def)

lemma vmToRow_cases:
  "vmToRow v = Inl e \<Longrightarrow> vm_CreatedAt v = None \<or> vm_UpdatedAt v = None"
  by (auto simp: vmToRow_def requireTimestamp_def split: option.splits)

lemma vmToRow_Inr:
  "vmToRow v = Inr row \<Longrightarrow>
     vr_uid row = vm_Uid v \<and> vr_poolName row = vm_PoolName v \<and> vr_poolNamespace row = vm_PoolNamespace v \<and>
     vr_flintlockHost row = vm_FlintlockHost v \<and> vr_phase row = vm_Phase v \<and> vr_leaseID row = vm_LeaseId v \<and>
     (\<exists>c u. vm_CreatedAt v = Some c \<and> vm_UpdatedAt v = Some u \<and>
            vr_createdAt row = UnixNano c \<and> vr_updatedAt row = UnixNano u)"
  by (auto simp: vmToRow_def requireTimestamp_def split: option.splits)

lemma leaseToRow_Inr:
  "leaseToRow l = Inr row \<Longrightarrow>
     lr_leaseID row = l_LeaseId l \<and> lr_vmUID row = l_VmUid l \<and> lr_poolName row = l_PoolName l \<and>
     lr_poolNamespace row = l_PoolNamespace l \<and>
     lr_requestID row = (if l_RequestId l \<noteq> [] then Some (l_RequestId l) else None)"
  by (auto simp: leaseToRow_def requireTimestamp_def split: option.splits)

lemma hostToRow_Inr: "hostToRow h = Inr row \<Longrightarrow> hr_name row = h_Name h \<and> hr_cordoned row = h_Cordoned h \<and> hr_draining row = h_Draining h"
  by (auto simp: hostToRow_def requireTimestamp_def split: option.splits)

lemma poolToRow_Inr:
  "poolToRow C p = Inr row \<Longrightarrow>
     pr_name row = ps_Name p \<and> pr_namespace row = ps_Namespace p \<and>
     pr_flintlockHosts row = json_marshal_strings (ps_FlintlockHosts p)"
  by (auto simp: poolToRow_def requireDuration_def split: option.splits sum.splits)

lemma rowToPool_Inr:
  "rowToPool C row = Inr p \<Longrightarrow> ps_Name p = pr_name row \<and> ps_Namespace p = pr_namespace row \<and>
     ps_HeartbeatExpiryThreshold p = Some (pr_heartbeatExpiryThresholdNs row)"
  by (auto simp: rowToPool_def split: option.splits)

end
