(* ===== verification/Store.thy ===== *)
theory Store
  imports Convert
begin

text \<open>
  Model of \<^verbatim>\<open>src/internal/store/sqlite.go\<close>: the database and every transaction of the
  \<open>Store\<close> interface. The state is the record \<open>db\<close>, one list of rows per table; a method
  is a function from the database to an error or a result with the new database. A
  transaction that fails is rolled back, so an error carries no database. Where the source
  reads the clock, the time is an argument; where SQLite may return any of several rows
  (\<^verbatim>\<open>LIMIT 1\<close> without \<^verbatim>\<open>ORDER BY\<close>), the choice is an argument.
\<close>

section \<open>The database\<close>

record eventRow =
  er_id :: int
  er_poolName :: string
  er_poolNamespace :: string
  er_vmUID :: string
  er_type :: EventType
  er_createdAt :: int
  er_payloadJson :: string

record placementRow =
  pl_id :: string
  pl_host :: string
  pl_poolName :: string
  pl_poolNamespace :: string
  pl_createdAt :: int

record db =
  pools :: "poolRow list"
  vms :: "vmRow list"
  leases :: "leaseRow list"
  events :: "eventRow list"
  event_seq :: int
  hosts :: "hostRow list"
  placements :: "placementRow list"

type_synonym 'a tx = "StoreErr + ('a \<times> db)"

definition empty_db :: db where
  "empty_db = \<lparr>pools = [], vms = [], leases = [], events = [], event_seq = 0, hosts = [], placements = []\<rparr>"

abbreviation pool_key :: "poolRow \<Rightarrow> string \<times> string" where
  "pool_key r \<equiv> (pr_name r, pr_namespace r)"

text \<open>\<^verbatim>\<open>WHERE pool_name = ? AND pool_namespace = ?\<close> on VMs and on leases.\<close>

definition vm_in_pool :: "string \<Rightarrow> string \<Rightarrow> vmRow \<Rightarrow> bool" where
  "vm_in_pool poolName poolNamespace r \<longleftrightarrow> vr_poolName r = poolName \<and> vr_poolNamespace r = poolNamespace"

definition lease_in_pool :: "string \<Rightarrow> string \<Rightarrow> leaseRow \<Rightarrow> bool" where
  "lease_in_pool poolName poolNamespace r \<longleftrightarrow> lr_poolName r = poolName \<and> lr_poolNamespace r = poolNamespace"

definition checkRowsAffected :: "int \<Rightarrow> db \<Rightarrow> unit tx" where
  "checkRowsAffected n d = (if n = 0 then Inl ErrNotFound else Inr ((), d))"

section \<open>Migrations\<close>

text \<open>\<open>migrate\<close> on a database at schema version \<open>version\<close>: \<open>apply_mig v\<close> says whether
  migration \<open>v\<close> applies cleanly. The version a failed run leaves behind is the last one
  that fully applied. \<open>len\<close> is the number of migrations, three in this release.\<close>

fun run_migrations :: "(nat \<Rightarrow> bool) \<Rightarrow> nat \<Rightarrow> nat \<Rightarrow> bool \<times> nat" where
  "run_migrations apply_mig 0 v = (True, v)"
| "run_migrations apply_mig (Suc k) v =
     (if apply_mig (Suc v) then run_migrations apply_mig k (Suc v) else (False, v))"

definition migrations_len :: nat where
  "migrations_len = 3"

definition migrate :: "(nat \<Rightarrow> bool) \<Rightarrow> nat \<Rightarrow> bool \<times> nat" where
  "migrate apply_mig version =
     (if version > migrations_len then (False, version)
      else run_migrations apply_mig (migrations_len - version) version)"

section \<open>Pools\<close>

definition CreatePool :: "protojson \<Rightarrow> PoolSpec \<Rightarrow> db \<Rightarrow> unit tx" where
  "CreatePool C p d =
     (case poolToRow C p of Inl e \<Rightarrow> Inl e
      | Inr row \<Rightarrow>
        if find_key pool_key (pool_key row) (pools d) \<noteq> None then Inl (ErrConstraint ''pools'')
        else Inr ((), d\<lparr>pools := pools d @ [row]\<rparr>))"

definition GetPool :: "protojson \<Rightarrow> string \<Rightarrow> string \<Rightarrow> db \<Rightarrow> PoolSpec tx" where
  "GetPool C name namespace d =
     (case find_key pool_key (name, namespace) (pools d) of None \<Rightarrow> Inl ErrNotFound
      | Some row \<Rightarrow> (case rowToPool C row of Inl e \<Rightarrow> Inl e | Inr p \<Rightarrow> Inr (p, d)))"

fun rowsToPools :: "protojson \<Rightarrow> poolRow list \<Rightarrow> StoreErr + PoolSpec list" where
  "rowsToPools C [] = Inr []"
| "rowsToPools C (row # rows) =
     (case rowToPool C row of Inl e \<Rightarrow> Inl e
      | Inr p \<Rightarrow> (case rowsToPools C rows of Inl e \<Rightarrow> Inl e | Inr ps \<Rightarrow> Inr (p # ps)))"

definition ListPools :: "protojson \<Rightarrow> db \<Rightarrow> PoolSpec list tx" where
  "ListPools C d =
     (case rowsToPools C (sort_key (\<lambda>r. (pr_namespace r, pr_name r)) (pools d)) of Inl e \<Rightarrow> Inl e
      | Inr ps \<Rightarrow> Inr (ps, d))"

definition UpdatePool :: "protojson \<Rightarrow> PoolSpec \<Rightarrow> db \<Rightarrow> unit tx" where
  "UpdatePool C p d =
     (case poolToRow C p of Inl e \<Rightarrow> Inl e
      | Inr row \<Rightarrow>
        let matches = (\<lambda>r. pr_name r = pr_name row \<and> pr_namespace r = pr_namespace row) in
        checkRowsAffected (sql_count matches (pools d))
          (d\<lparr>pools := sql_update matches
             (\<lambda>r. r\<lparr>pr_size := pr_size row,
                    pr_flintlockHosts := pr_flintlockHosts row,
                    pr_microvmTemplate := pr_microvmTemplate row,
                    pr_replenishmentStrategy := pr_replenishmentStrategy row,
                    pr_createCommands := pr_createCommands row,
                    pr_preLeaseCommands := pr_preLeaseCommands row,
                    pr_hookFailurePolicy := pr_hookFailurePolicy row,
                    pr_heartbeatIntervalNs := pr_heartbeatIntervalNs row,
                    pr_heartbeatExpiryThresholdNs := pr_heartbeatExpiryThresholdNs row\<rparr>)
             (pools d)\<rparr>))"

definition DeletePool :: "string \<Rightarrow> string \<Rightarrow> db \<Rightarrow> unit tx" where
  "DeletePool name namespace d =
     (let matches = (\<lambda>r. pr_name r = name \<and> pr_namespace r = namespace) in
      checkRowsAffected (sql_count matches (pools d)) (d\<lparr>pools := sql_delete matches (pools d)\<rparr>))"

definition DeletePoolAndMarkVMs :: "int \<Rightarrow> string \<Rightarrow> string \<Rightarrow> bool \<Rightarrow> db \<Rightarrow> VMRecord list tx" where
  "DeletePoolAndMarkVMs now name namespace force d =
     (case DeletePool name namespace d of Inl e \<Rightarrow> Inl e
      | Inr (_, d1) \<Rightarrow>
        let leased = sql_count (\<lambda>r. vm_in_pool name namespace r \<and>
                                    vr_phase r \<in> {LEASED, PRE_LEASE_HOOK_RUNNING}) (vms d1) in
        if \<not> force \<and> leased > 0 then Inl ErrPoolHasLeasedVMs
        else
          let d2 = d1\<lparr>vms := sql_update (vm_in_pool name namespace)
                       (\<lambda>r. r\<lparr>vr_phase := DELETING, vr_leaseID := None, vr_updatedAt := now\<rparr>) (vms d1)\<rparr>;
              d3 = d2\<lparr>leases := sql_delete (lease_in_pool name namespace) (leases d2)\<rparr>
          in Inr (map rowToVM (sort_key vr_uid (filter (vm_in_pool name namespace) (vms d3))), d3))"

section \<open>VMs\<close>

definition CreateVM :: "VMRecord \<Rightarrow> db \<Rightarrow> unit tx" where
  "CreateVM v d =
     (case vmToRow v of Inl e \<Rightarrow> Inl e
      | Inr row \<Rightarrow>
        if find_key vr_uid (vr_uid row) (vms d) \<noteq> None then Inl (ErrConstraint ''vms'')
        else Inr ((), d\<lparr>vms := vms d @ [row]\<rparr>))"

definition GetVM :: "string \<Rightarrow> db \<Rightarrow> VMRecord tx" where
  "GetVM uid d =
     (case find_key vr_uid uid (vms d) of None \<Rightarrow> Inl ErrNotFound | Some row \<Rightarrow> Inr (rowToVM row, d))"

definition ListVMsByPool :: "string \<Rightarrow> string \<Rightarrow> VMPhase option \<Rightarrow> db \<Rightarrow> VMRecord list tx" where
  "ListVMsByPool poolName poolNamespace phase d =
     Inr (map rowToVM (sort_key vr_uid
            (filter (\<lambda>r. vm_in_pool poolName poolNamespace r \<and>
                         (case phase of None \<Rightarrow> True | Some p \<Rightarrow> vr_phase r = p)) (vms d))), d)"

definition ListVMsByPhase :: "VMPhase \<Rightarrow> db \<Rightarrow> VMRecord list tx" where
  "ListVMsByPhase phase d = Inr (map rowToVM (sort_key vr_uid (filter (\<lambda>r. vr_phase r = phase) (vms d))), d)"

text \<open>\<open>updateVM\<close>: the guarded UPDATE, which says whether a row matched, and the SELECT that
  tells a missing row from a DELETING one. Inside a transaction (\<open>LeaseVM\<close>) the two run on the
  same database; \<open>UpdateVM\<close> runs them as two statements.\<close>

definition updateVM_exec :: "VMRecord \<Rightarrow> db \<Rightarrow> bool tx" where
  "updateVM_exec v d =
     (case vmToRow v of Inl e \<Rightarrow> Inl e
      | Inr row \<Rightarrow>
        let matches = (\<lambda>r. vr_uid r = vr_uid row \<and> (vr_phase r \<noteq> DELETING \<or> vr_phase row = DELETING)) in
        Inr (sql_count matches (vms d) > 0,
             d\<lparr>vms := sql_update matches
                 (\<lambda>r. r\<lparr>vr_poolName := vr_poolName row, vr_poolNamespace := vr_poolNamespace row,
                        vr_flintlockHost := vr_flintlockHost row, vr_phase := vr_phase row,
                        vr_leaseID := vr_leaseID row, vr_updatedAt := vr_updatedAt row\<rparr>) (vms d)\<rparr>))"

definition updateVM_missed :: "VMRecord \<Rightarrow> db \<Rightarrow> unit tx" where
  "updateVM_missed v d =
     (if find_key vr_uid (vm_Uid v) (vms d) = None then Inl ErrNotFound else Inl ErrVMDeleting)"

definition updateVM :: "VMRecord \<Rightarrow> db \<Rightarrow> unit tx" where
  "updateVM v d =
     (case updateVM_exec v d of Inl e \<Rightarrow> Inl e
      | Inr (matched, d1) \<Rightarrow> if matched then Inr ((), d1) else updateVM_missed v d1)"

definition DeleteVM :: "string \<Rightarrow> db \<Rightarrow> unit tx" where
  "DeleteVM uid d =
     checkRowsAffected (sql_count (\<lambda>r. vr_uid r = uid) (vms d))
       (d\<lparr>vms := sql_delete (\<lambda>r. vr_uid r = uid) (vms d)\<rparr>)"

definition DeleteVMCheckingPool :: "string \<Rightarrow> db \<Rightarrow> bool tx" where
  "DeleteVMCheckingPool uid d =
     (case find_key vr_uid uid (vms d) of None \<Rightarrow> Inl ErrNotFound
      | Some row \<Rightarrow>
        let d1 = d\<lparr>vms := sql_delete (\<lambda>r. vr_uid r = uid) (vms d)\<rparr> in
        Inr (find_key pool_key (vr_poolName row, vr_poolNamespace row) (pools d1) \<noteq> None, d1))"

text \<open>The row \<^verbatim>\<open>LIMIT 1\<close> returns is any of the candidates: \<open>pick\<close> chooses it.\<close>

definition limit1 :: "nat \<Rightarrow> 'r list \<Rightarrow> 'r option" where
  "limit1 pick rows = (if rows = [] then None else Some (rows ! (pick mod length rows)))"

definition ClaimAvailableVM :: "nat \<Rightarrow> int \<Rightarrow> string \<Rightarrow> string \<Rightarrow> db \<Rightarrow> VMRecord tx" where
  "ClaimAvailableVM pick now poolName poolNamespace d =
     (case limit1 pick (filter (\<lambda>r. vm_in_pool poolName poolNamespace r \<and> vr_phase r = AVAILABLE) (vms d)) of
        None \<Rightarrow> Inl ErrNoAvailableVM
      | Some cand \<Rightarrow>
        let uid = vr_uid cand;
            matches = (\<lambda>r. vr_uid r = uid \<and> vr_phase r = AVAILABLE);
            d1 = d\<lparr>vms := sql_update matches (\<lambda>r. r\<lparr>vr_phase := LEASED, vr_updatedAt := now\<rparr>) (vms d)\<rparr> in
        if sql_count matches (vms d) = 0 then Inl ErrNoAvailableVM
        else (case find_key vr_uid uid (vms d1) of None \<Rightarrow> Inl ErrDB
              | Some row \<Rightarrow> Inr (rowToVM row, d1)))"

section \<open>Leases\<close>

definition insertLease :: "LeaseRecord \<Rightarrow> db \<Rightarrow> unit tx" where
  "insertLease l d =
     (case leaseToRow l of Inl e \<Rightarrow> Inl e
      | Inr row \<Rightarrow>
        if find_key lr_leaseID (lr_leaseID row) (leases d) \<noteq> None then Inl (ErrConstraint ''leases.lease_id'')
        else if lr_requestID row \<noteq> None \<and> (\<exists>r \<in> set (leases d). lr_requestID r = lr_requestID row)
        then Inl ErrDuplicateRequestID
        else Inr ((), d\<lparr>leases := leases d @ [row]\<rparr>))"

definition CreateLease :: "LeaseRecord \<Rightarrow> db \<Rightarrow> unit tx" where
  "CreateLease l d = insertLease l d"

definition LeaseVM :: "VMRecord \<Rightarrow> LeaseRecord \<Rightarrow> db \<Rightarrow> unit tx" where
  "LeaseVM v l d =
     (case updateVM v d of Inl e \<Rightarrow> Inl e
      | Inr (_, d1) \<Rightarrow> insertLease l d1)"

definition GetLease :: "string \<Rightarrow> db \<Rightarrow> LeaseRecord tx" where
  "GetLease leaseID d =
     (case find_key lr_leaseID leaseID (leases d) of None \<Rightarrow> Inl ErrNotFound
      | Some row \<Rightarrow> Inr (rowToLease row, d))"

definition GetLeaseByRequestID :: "string \<Rightarrow> db \<Rightarrow> LeaseRecord tx" where
  "GetLeaseByRequestID requestID d =
     (case find (\<lambda>r. lr_requestID r = Some requestID) (leases d) of None \<Rightarrow> Inl ErrNotFound
      | Some row \<Rightarrow> Inr (rowToLease row, d))"

definition UpdateLeaseHeartbeat :: "string \<Rightarrow> Timestamp \<Rightarrow> Timestamp \<Rightarrow> db \<Rightarrow> unit tx" where
  "UpdateLeaseHeartbeat leaseID at expiresAt d =
     checkRowsAffected (sql_count (\<lambda>r. lr_leaseID r = leaseID) (leases d))
       (d\<lparr>leases := sql_update (\<lambda>r. lr_leaseID r = leaseID)
            (\<lambda>r. r\<lparr>lr_lastHeartbeatAt := UnixNano at, lr_expiresAt := UnixNano expiresAt\<rparr>) (leases d)\<rparr>)"

definition DeleteLease :: "string \<Rightarrow> db \<Rightarrow> unit tx" where
  "DeleteLease leaseID d =
     checkRowsAffected (sql_count (\<lambda>r. lr_leaseID r = leaseID) (leases d))
       (d\<lparr>leases := sql_delete (\<lambda>r. lr_leaseID r = leaseID) (leases d)\<rparr>)"

definition ListExpiredLeases :: "Timestamp \<Rightarrow> db \<Rightarrow> LeaseRecord list tx" where
  "ListExpiredLeases now d =
     Inr (map rowToLease (sort_key lr_expiresAt (filter (\<lambda>r. lr_expiresAt r \<le> UnixNano now) (leases d))), d)"

definition ListLeases :: "PoolRef option \<Rightarrow> db \<Rightarrow> LeaseRecord list tx" where
  "ListLeases poolRef d =
     Inr (map rowToLease (sort_key lr_leaseID
            (filter (\<lambda>r. case poolRef of None \<Rightarrow> True
                         | Some ref \<Rightarrow> lease_in_pool (pref_Name ref) (pref_Namespace ref) r) (leases d))), d)"

definition DeleteLeaseIfExpired :: "string \<Rightarrow> Timestamp \<Rightarrow> db \<Rightarrow> LeaseRecord tx" where
  "DeleteLeaseIfExpired leaseID now d =
     (case find_key lr_leaseID leaseID (leases d) of None \<Rightarrow> Inl ErrNotFound
      | Some row \<Rightarrow>
        if lr_expiresAt row > UnixNano now then Inl ErrLeaseNotExpired
        else
          let matches = (\<lambda>r. lr_leaseID r = leaseID \<and> lr_expiresAt r \<le> UnixNano now) in
          if sql_count matches (leases d) = 0 then Inl ErrLeaseNotExpired
          else Inr (rowToLease row, d\<lparr>leases := sql_delete matches (leases d)\<rparr>))"

section \<open>Events\<close>

text \<open>The \<^verbatim>\<open>AUTOINCREMENT\<close> key: one more than the largest id ever used. The result is
  the id that \<open>AppendEvent\<close> stores back into the event.\<close>

definition AppendEvent :: "Event \<Rightarrow> db \<Rightarrow> int tx" where
  "AppendEvent e d =
     (case requireTimestamp ''created_at'' (e_CreatedAt e) of Inl err \<Rightarrow> Inl err
      | Inr createdAt \<Rightarrow>
        let i = event_seq d + 1 in
        Inr (i, d\<lparr>events := events d @ [\<lparr>er_id = i, er_poolName = e_PoolName e,
                     er_poolNamespace = e_PoolNamespace e, er_vmUID = e_VmUid e, er_type = e_Type e,
                     er_createdAt = UnixNano createdAt, er_payloadJson = e_PayloadJson e\<rparr>],
                 event_seq := i\<rparr>))"

definition scanEvent :: "eventRow \<Rightarrow> Event" where
  "scanEvent r = \<lparr>e_Id = er_id r, e_PoolName = er_poolName r, e_VmUid = er_vmUID r, e_Type = er_type r,
     e_CreatedAt = Some (er_createdAt r), e_PayloadJson = er_payloadJson r, e_PoolNamespace = er_poolNamespace r\<rparr>"

definition scanEvents :: "eventRow list \<Rightarrow> Event list" where
  "scanEvents rows = map scanEvent rows"

definition ListEventsSince :: "string \<Rightarrow> string \<Rightarrow> int \<Rightarrow> nat \<Rightarrow> db \<Rightarrow> Event list tx" where
  "ListEventsSince poolName poolNamespace sinceID limit d =
     Inr (scanEvents (take limit (sort_key er_id
            (filter (\<lambda>r. er_poolName r = poolName \<and> er_poolNamespace r = poolNamespace \<and> er_id r > sinceID)
               (events d)))), d)"

definition ListAllEventsSince :: "int \<Rightarrow> nat \<Rightarrow> db \<Rightarrow> Event list tx" where
  "ListAllEventsSince sinceID limit d =
     Inr (scanEvents (take limit (sort_key er_id (filter (\<lambda>r. er_id r > sinceID) (events d)))), d)"

section \<open>Hosts\<close>

definition CreateHost :: "Host \<Rightarrow> db \<Rightarrow> unit tx" where
  "CreateHost host d =
     (case hostToRow host of Inl e \<Rightarrow> Inl e
      | Inr row \<Rightarrow>
        if find_key hr_name (hr_name row) (hosts d) \<noteq> None then Inl ErrHostExists
        else Inr ((), d\<lparr>hosts := hosts d @ [row]\<rparr>))"

definition GetHost :: "string \<Rightarrow> db \<Rightarrow> Host tx" where
  "GetHost name d =
     (case find_key hr_name name (hosts d) of None \<Rightarrow> Inl ErrNotFound | Some row \<Rightarrow> Inr (rowToHost row, d))"

text \<open>\<open>UpdateHost\<close> and \<open>SetHostCordoned\<close> run one UPDATE and then read the host back with
  \<open>GetHost\<close>, a statement of its own: the definitions here are the UPDATEs.\<close>

definition UpdateHost_exec :: "int \<Rightarrow> Host \<Rightarrow> db \<Rightarrow> unit tx" where
  "UpdateHost_exec now host d =
     (let tls = h_GetTls host;
          matches = (\<lambda>r. hr_name r = h_Name host) in
      checkRowsAffected (sql_count matches (hosts d))
        (d\<lparr>hosts := sql_update matches
             (\<lambda>r. r\<lparr>hr_address := h_Address host, hr_tlsInsecure := tls_Insecure tls,
                    hr_caFile := tls_CaFile tls, hr_certFile := tls_CertFile tls,
                    hr_keyFile := tls_KeyFile tls, hr_updatedAt := now\<rparr>) (hosts d)\<rparr>))"

text \<open>\<open>Scan\<close> into an \<open>int32\<close> fails on a value out of its range.\<close>

definition scan_int32 :: "int \<Rightarrow> StoreErr + int" where
  "scan_int32 n = (if in_int32 n then Inr n else Inl ErrDB)"

text \<open>VMs recorded on a host plus the placements reserved on it.\<close>

definition hostLoad :: "string \<Rightarrow> db \<Rightarrow> int" where
  "hostLoad name d =
     sql_count (\<lambda>r. vr_flintlockHost r = name) (vms d) + sql_count (\<lambda>r. pl_host r = name) (placements d)"

definition CountVMsByHost :: "string \<Rightarrow> db \<Rightarrow> int tx" where
  "CountVMsByHost name d =
     (case scan_int32 (hostLoad name d) of Inl e \<Rightarrow> Inl e | Inr count \<Rightarrow> Inr (count, d))"

text \<open>The pools that name a host, as \<open>namespace/name\<close> in \<^verbatim>\<open>ORDER BY namespace, name\<close>
  order (\<^verbatim>\<open>DISTINCT\<close>: a pool that lists the host twice is one row).\<close>

definition poolsNamingHost :: "string \<Rightarrow> db \<Rightarrow> (string \<times> string) list" where
  "poolsNamingHost name d =
     map (\<lambda>r. (pr_namespace r, pr_name r))
       (sort_key (\<lambda>r. (pr_namespace r, pr_name r))
          (filter (\<lambda>r. Some name \<in> set (json_each (pr_flintlockHosts r))) (pools d)))"

definition DeleteHost :: "string \<Rightarrow> db \<Rightarrow> unit tx" where
  "DeleteHost name d =
     (if find_key hr_name name (hosts d) = None then Inl ErrNotFound
      else
        let named = map (\<lambda>(ns, pool). ns @ ''/'' @ pool) (poolsNamingHost name d) in
        (case scan_int32 (hostLoad name d) of Inl e \<Rightarrow> Inl e
         | Inr count \<Rightarrow>
           if named \<noteq> [] \<or> count > 0 then Inl (HostInUseError named count)
           else Inr ((), d\<lparr>hosts := sql_delete (\<lambda>r. hr_name r = name) (hosts d)\<rparr>)))"

definition ListHosts :: "db \<Rightarrow> Host list tx" where
  "ListHosts d = Inr (map rowToHost (sort_key hr_name (hosts d)), d)"

definition SetHostCordoned_exec :: "int \<Rightarrow> string \<Rightarrow> bool \<Rightarrow> string \<Rightarrow> db \<Rightarrow> unit tx" where
  "SetHostCordoned_exec now name cordoned reason d =
     (let cordonedReason = (if cordoned \<and> reason \<noteq> [] then Some reason else None);
          cordonedAt = (if cordoned then Some now else None);
          matches = (\<lambda>r. hr_name r = name) in
      checkRowsAffected (sql_count matches (hosts d))
        (d\<lparr>hosts := sql_update matches
             (\<lambda>r. r\<lparr>hr_cordoned := cordoned, hr_cordonedReason := cordonedReason,
                    hr_cordonedAt := cordonedAt, hr_updatedAt := now,
                    hr_draining := (if cordoned then hr_draining r else False),
                    hr_drainingAt := (if cordoned then hr_drainingAt r else None)\<rparr>) (hosts d)\<rparr>))"

text \<open>\<open>markUnleasedVMsDeleting\<close>: \<open>where\<close> is the SQL condition its two callers pass. The
  rows come back as marked, sorted by uid.\<close>

definition unleased :: "vmRow \<Rightarrow> bool" where
  "unleased r \<longleftrightarrow> vr_phase r \<notin> {LEASED, PRE_LEASE_HOOK_RUNNING, DELETING}"

definition markUnleasedVMsDeleting :: "int \<Rightarrow> (vmRow \<Rightarrow> bool) \<Rightarrow> db \<Rightarrow> VMRecord list \<times> db" where
  "markUnleasedVMsDeleting now where_cond d =
     (let matches = (\<lambda>r. where_cond r \<and> unleased r);
          mark = (\<lambda>r. r\<lparr>vr_phase := DELETING, vr_leaseID := None, vr_updatedAt := now\<rparr>) in
      (sort_key vm_Uid (map (rowToVM \<circ> mark) (filter matches (vms d))),
       d\<lparr>vms := sql_update matches mark (vms d)\<rparr>))"

definition DrainHost :: "int \<Rightarrow> int \<Rightarrow> string \<Rightarrow> string \<Rightarrow> db \<Rightarrow> (Host \<times> VMRecord list) tx" where
  "DrainHost now now' name reason d =
     (let cordonedReason = (if reason \<noteq> [] then Some reason else None);
          matches = (\<lambda>r. hr_name r = name) in
      case checkRowsAffected (sql_count matches (hosts d))
             (d\<lparr>hosts := sql_update matches
                (\<lambda>r. r\<lparr>hr_cordonedReason := (case cordonedReason of None \<Rightarrow> hr_cordonedReason r | Some x \<Rightarrow> Some x),
                       hr_cordonedAt := (if hr_cordoned r then hr_cordonedAt r else Some now),
                       hr_cordoned := True,
                       hr_drainingAt := (if hr_draining r then hr_drainingAt r else Some now),
                       hr_draining := True,
                       hr_updatedAt := now\<rparr>) (hosts d)\<rparr>) of
        Inl e \<Rightarrow> Inl e
      | Inr (_, d1) \<Rightarrow>
        let (marked, d2) = markUnleasedVMsDeleting now' (\<lambda>r. vr_flintlockHost r = name) d1 in
        (case find_key hr_name name (hosts d2) of None \<Rightarrow> Inl ErrDB
         | Some row \<Rightarrow> Inr ((rowToHost row, marked), d2)))"

definition MarkDrainingHostsVMsDeleting :: "int \<Rightarrow> db \<Rightarrow> VMRecord list tx" where
  "MarkDrainingHostsVMsDeleting now d =
     Inr (markUnleasedVMsDeleting now
            (\<lambda>r. \<exists>h \<in> set (hosts d). hr_draining h \<and> hr_name h = vr_flintlockHost r) d)"

section \<open>Placements\<close>

definition ReservePlacement :: "int \<Rightarrow> string \<Rightarrow> string \<Rightarrow> string \<Rightarrow> string \<Rightarrow> db \<Rightarrow> unit tx" where
  "ReservePlacement now i host poolName poolNamespace d =
     (case find_key hr_name host (hosts d) of None \<Rightarrow> Inl ErrHostNotRegistered
      | Some h \<Rightarrow>
        if hr_cordoned h then Inl ErrHostCordoned
        else if find_key pl_id i (placements d) \<noteq> None then Inl (ErrConstraint ''placements'')
        else Inr ((), d\<lparr>placements := placements d @
               [\<lparr>pl_id = i, pl_host = host, pl_poolName = poolName, pl_poolNamespace = poolNamespace,
                 pl_createdAt = now\<rparr>]\<rparr>))"

definition ReleasePlacement :: "string \<Rightarrow> db \<Rightarrow> unit tx" where
  "ReleasePlacement i d = Inr ((), d\<lparr>placements := sql_delete (\<lambda>r. pl_id r = i) (placements d)\<rparr>)"

definition ClearPlacements :: "db \<Rightarrow> unit tx" where
  "ClearPlacements d = Inr ((), d\<lparr>placements := []\<rparr>)"

lemmas store_op_defs =
  CreatePool_def GetPool_def ListPools_def UpdatePool_def DeletePool_def DeletePoolAndMarkVMs_def
  CreateVM_def GetVM_def ListVMsByPool_def ListVMsByPhase_def updateVM_exec_def updateVM_missed_def updateVM_def DeleteVM_def
  DeleteVMCheckingPool_def ClaimAvailableVM_def insertLease_def CreateLease_def LeaseVM_def
  GetLease_def GetLeaseByRequestID_def UpdateLeaseHeartbeat_def DeleteLease_def
  ListExpiredLeases_def ListLeases_def DeleteLeaseIfExpired_def AppendEvent_def
  ListEventsSince_def ListAllEventsSince_def CreateHost_def GetHost_def UpdateHost_exec_def
  scan_int32_def hostLoad_def CountVMsByHost_def DeleteHost_def ListHosts_def SetHostCordoned_exec_def DrainHost_def
  MarkDrainingHostsVMsDeleting_def markUnleasedVMsDeleting_def ReservePlacement_def
  ReleasePlacement_def ClearPlacements_def checkRowsAffected_def
declare store_op_defs [store_defs]

end
