(* ===== verification/Host_Pick.thy ===== *)
theory Host_Pick
  imports Store
begin

text \<open>
  Model of \<^verbatim>\<open>src/internal/reconciler/hostpick.go\<close>: which of a pool's hosts a new VM goes to.
  The functions here are pure over what the code has read from the store: the VMs of the
  pool, the registered hosts.
\<close>

section \<open>Definitions\<close>

text \<open>\<open>counts[host]\<close>: VMs recorded on a host that are neither DELETING nor FAILED.\<close>

fun host_counts :: "VMRecord list \<Rightarrow> string \<Rightarrow> int" where
  "host_counts [] h = 0"
| "host_counts (vm # rest) h =
     (if vm_Phase vm = DELETING \<or> vm_Phase vm = FAILED then host_counts rest h
      else (if vm_FlintlockHost vm = h then 1 else 0) + host_counts rest h)"

fun best_host :: "(string \<Rightarrow> int) \<Rightarrow> string \<Rightarrow> int \<Rightarrow> string list \<Rightarrow> string" where
  "best_host counts best bestCount [] = best"
| "best_host counts best bestCount (h # hs) =
     (if counts h < bestCount then best_host counts h (counts h) hs
      else best_host counts best bestCount hs)"

text \<open>\<open>pickHost_of\<close>: \<open>None\<close> is \<open>ErrNoEligibleHost\<close>.\<close>

definition pickHost_of :: "VMRecord list \<Rightarrow> PoolSpec \<Rightarrow> (string \<Rightarrow> bool) \<Rightarrow> string option" where
  "pickHost_of pool_vms pool ineligible =
     (case filter (\<lambda>h. \<not> ineligible h) (ps_FlintlockHosts pool) of
        [] \<Rightarrow> None
      | h # hs \<Rightarrow> Some (best_host (host_counts pool_vms) h (host_counts pool_vms h) hs))"

text \<open>The map \<open>cordoned[name]\<close> that \<open>ineligible_of\<close> builds from the registry: later
  entries overwrite earlier ones.\<close>

fun cordoned_map :: "Host list \<Rightarrow> string \<Rightarrow> bool option" where
  "cordoned_map [] name = None"
| "cordoned_map (h # hs) name =
     (case cordoned_map hs name of Some c \<Rightarrow> Some c
      | None \<Rightarrow> if h_Name h = name then Some (h_Cordoned h) else None)"

definition ineligible_of :: "Host list \<Rightarrow> PoolSpec \<Rightarrow> string \<Rightarrow> bool" where
  "ineligible_of registered pool name \<longleftrightarrow>
     name \<in> set (ps_FlintlockHosts pool) \<and> cordoned_map registered name \<noteq> Some False"

section \<open>Facts\<close>

lemma host_counts_eq:
  "host_counts vs h = sql_count (\<lambda>v. vm_Phase v \<noteq> DELETING \<and> vm_Phase v \<noteq> FAILED \<and> vm_FlintlockHost v = h) vs"
  by (induction vs) auto

lemma best_host_in: "best_host counts b n hs \<in> insert b (set hs)"
  by (induction hs arbitrary: b n) auto

lemma best_host_le: "counts (best_host counts b (counts b) hs) \<le> counts b"
proof (induction hs arbitrary: b)
  case (Cons x xs)
  show ?case
  proof (cases "counts x < counts b")
    case True
    then show ?thesis using Cons.IH [of x] by simp
  next
    case False
    then show ?thesis using Cons.IH [of b] by simp
  qed
qed simp

lemma best_host_min: "h \<in> set hs \<Longrightarrow> counts (best_host counts b (counts b) hs) \<le> counts h"
proof (induction hs arbitrary: b)
  case (Cons x xs)
  show ?case
  proof (cases "counts x < counts b")
    case True
    then show ?thesis using Cons.IH [of x] Cons.prems best_host_le [of counts x xs] by auto
  next
    case False
    then show ?thesis using Cons.IH [of b] Cons.prems best_host_le [of counts b xs] by auto
  qed
qed simp

text \<open>The host kept is the first one with its count: every host before it has more VMs.\<close>

lemma best_host_first:
  "\<exists>pre post. b # hs = pre @ best_host counts b (counts b) hs # post \<and>
     (\<forall>h \<in> set pre. counts (best_host counts b (counts b) hs) < counts h)"
proof (induction hs arbitrary: b)
  case Nil
  show ?case by (intro exI [of _ "[]"]) simp
next
  case (Cons x xs)
  show ?case
  proof (cases "counts x < counts b")
    case True
    obtain r where r: "r = best_host counts x (counts x) xs" by simp
    then obtain pre post where "x # xs = pre @ r # post" "\<forall>h \<in> set pre. counts r < counts h"
      using Cons.IH [of x] by blast
    moreover have "counts r < counts b" using r best_host_le [of counts x xs] True by simp
    ultimately have "b # x # xs = (b # pre) @ r # post" "\<forall>h \<in> set (b # pre). counts r < counts h" by auto
    moreover have "best_host counts b (counts b) (x # xs) = r" using True r by simp
    ultimately show ?thesis by metis
  next
    case False
    obtain r where r: "r = best_host counts b (counts b) xs" by simp
    then obtain pre post where split: "b # xs = pre @ r # post" and less: "\<forall>h \<in> set pre. counts r < counts h"
      using Cons.IH [of b] by blast
    have res: "best_host counts b (counts b) (x # xs) = r" using False r by simp
    show ?thesis
    proof (cases pre)
      case Nil
      then have "b # x # xs = [] @ r # (x # xs)" using split by simp
      with res show ?thesis by (metis empty_iff list.set(1))
    next
      case (Cons y ys)
      then have "b # x # xs = (b # x # ys) @ r # post" using split by simp
      moreover have "\<forall>h \<in> set (b # x # ys). counts r < counts h"
        using less split Cons False by auto
      ultimately show ?thesis using res by metis
    qed
  qed
qed

lemma cordoned_map_SomeD: "cordoned_map hs n = Some c \<Longrightarrow> \<exists>h \<in> set hs. h_Name h = n \<and> h_Cordoned h = c"
  by (induction hs) (auto split: option.splits if_splits)

lemma cordoned_map_None: "(cordoned_map hs n = None) = (n \<notin> h_Name ` set hs)"
  by (induction hs) (auto split: option.splits)

lemma cordoned_map_distinct:
  "distinct (map h_Name hs) \<Longrightarrow> h \<in> set hs \<Longrightarrow> cordoned_map hs (h_Name h) = Some (h_Cordoned h)"
proof (induction hs)
  case (Cons a hs)
  show ?case
  proof (cases "h = a")
    case True
    then have "cordoned_map hs (h_Name h) = None" using Cons.prems by (simp add: cordoned_map_None)
    with True show ?thesis by simp
  next
    case False
    then show ?thesis using Cons by simp
  qed
qed simp

lemma filter_split:
  "filter P xs = p @ b # q \<Longrightarrow> \<exists>us post. xs = us @ b # post \<and> filter P us = p \<and> filter P post = q \<and> P b"
proof (induction xs arbitrary: p)
  case (Cons x xs)
  show ?case
  proof (cases "P x \<and> p = []")
    case True
    then show ?thesis using Cons.prems by (intro exI [of _ "[]"] exI [of _ xs]) auto
  next
    case False
    then have "filter P xs = (if P x then tl p else p) @ b # q" using Cons.prems by (cases p) auto
    then obtain us post where "xs = us @ b # post" "filter P us = (if P x then tl p else p)" "filter P post = q" "P b"
      using Cons.IH by blast
    then show ?thesis using False Cons.prems by (intro exI [of _ "x # us"] exI [of _ post]) (cases p; auto)
  qed
qed simp

section \<open>Properties\<close>

text \<open>C21: \<open>pickHost_of\<close> returns no host exactly when every host of the pool is ineligible;
  otherwise it returns an eligible host of the pool with the fewest live VMs of the pool on it,
  and of several such hosts the first one in the pool's list.\<close>

theorem PickHost_least_loaded_first:
  "(pickHost_of vs pool inel = None \<longleftrightarrow> (\<forall>h \<in> set (ps_FlintlockHosts pool). inel h)) \<and>
   (pickHost_of vs pool inel = Some best \<longrightarrow>
      \<not> inel best \<and>
      (\<exists>pre post. ps_FlintlockHosts pool = pre @ best # post \<and>
         (\<forall>h \<in> set pre. \<not> inel h \<longrightarrow> host_counts vs best < host_counts vs h) \<and>
         (\<forall>h \<in> set post. \<not> inel h \<longrightarrow> host_counts vs best \<le> host_counts vs h)))"
proof (intro conjI impI)
  show "(pickHost_of vs pool inel = None) = (\<forall>h \<in> set (ps_FlintlockHosts pool). inel h)"
    by (cases "filter (\<lambda>h. \<not> inel h) (ps_FlintlockHosts pool)")
      (auto simp: pickHost_of_def filter_empty_conv filter_eq_Cons_iff)
next
  let ?el = "filter (\<lambda>h. \<not> inel h) (ps_FlintlockHosts pool)" and ?n = "host_counts vs"
  assume "pickHost_of vs pool inel = Some best"
  then obtain h hs where el: "?el = h # hs" and best: "best = best_host ?n h (?n h) hs"
    by (auto simp: pickHost_of_def split: list.splits)
  obtain p q where pq: "?el = p @ best # q" "\<forall>h \<in> set p. ?n best < ?n h"
    using best_host_first [of h hs ?n] el best by auto
  show "\<not> inel best" using arg_cong [OF pq(1), of set] by auto
  from filter_split [OF pq(1)] obtain pre post where
    split: "ps_FlintlockHosts pool = pre @ best # post" "filter (\<lambda>h. \<not> inel h) pre = p" by blast
  have "\<forall>h \<in> set ?el. ?n best \<le> ?n h"
    using best_host_min [of _ hs ?n h] best_host_le [of ?n h hs] el best by auto
  then have "\<forall>h \<in> set post. \<not> inel h \<longrightarrow> ?n best \<le> ?n h" using split(1) by auto
  moreover have "\<forall>h \<in> set pre. \<not> inel h \<longrightarrow> ?n best < ?n h" using split(2) pq(2) by auto
  ultimately show "\<exists>pre post. ps_FlintlockHosts pool = pre @ best # post \<and>
         (\<forall>h \<in> set pre. \<not> inel h \<longrightarrow> ?n best < ?n h) \<and> (\<forall>h \<in> set post. \<not> inel h \<longrightarrow> ?n best \<le> ?n h)"
    using split(1) by blast
qed

theorem PickHost_least_loaded_first_witness:
  "let pool = \<lparr>ps_Name = ''p'', ps_Namespace = [], ps_MicrovmTemplate = None, ps_Size = 5,
             ps_FlintlockHosts = [''a'', ''b'', ''c''], ps_ReplenishmentStrategy = None, ps_CreateCommands = [],
             ps_PreLeaseCommands = [], ps_HookFailurePolicy = QUARANTINE, ps_HeartbeatInterval = None,
             ps_HeartbeatExpiryThreshold = None\<rparr>
   in pickHost_of [] pool (\<lambda>h. h = ''a'') = Some ''b'' \<and>
      (\<exists>pre post. ps_FlintlockHosts pool = pre @ ''b'' # post \<and> (\<forall>h \<in> set pre. \<not> h = ''a'' \<longrightarrow> (0::int) < 0))"
proof -
  let ?pool = "\<lparr>ps_Name = ''p'', ps_Namespace = [], ps_MicrovmTemplate = None, ps_Size = 5,
             ps_FlintlockHosts = [''a'', ''b'', ''c''], ps_ReplenishmentStrategy = None, ps_CreateCommands = [],
             ps_PreLeaseCommands = [], ps_HookFailurePolicy = QUARANTINE, ps_HeartbeatInterval = None,
             ps_HeartbeatExpiryThreshold = None\<rparr>"
  have "pickHost_of [] ?pool (\<lambda>h. h = ''a'') = Some ''b''" by (simp add: pickHost_of_def)
  with PickHost_least_loaded_first [of "[]" ?pool "\<lambda>h. h = ''a''" "''b''"] show ?thesis
    unfolding Let_def host_counts.simps by blast
qed

end
