(* ===== verification/Store_Inv.thy ===== *)
theory Store_Inv
  imports Store
begin

text \<open>
  The invariants of the store over every interleaving of its transactions. The store has one
  connection, so transactions are atomic steps: \<open>store_step\<close> has one rule per method of the
  \<open>Store\<close> interface that writes. \<open>wf_db\<close> is what the schema and the transactions keep of the
  tables; \<open>deleting_kept\<close> is the rule that DELETING is terminal.
\<close>

section \<open>Definitions\<close>

definition request_ids :: "leaseRow list \<Rightarrow> string list" where
  "request_ids rows = [i. Some i \<leftarrow> map lr_requestID rows]"

definition wf_db :: "db \<Rightarrow> bool" where
  "wf_db d \<longleftrightarrow>
     distinct (map pool_key (pools d)) \<and>
     distinct (map vr_uid (vms d)) \<and>
     distinct (map lr_leaseID (leases d)) \<and>
     distinct (request_ids (leases d)) \<and>
     sorted_wrt (<) (map er_id (events d)) \<and>
     (\<forall>e \<in> set (events d). er_id e \<le> event_seq d) \<and>
     distinct (map hr_name (hosts d)) \<and>
     distinct (map pl_id (placements d))"

inductive store_step :: "protojson \<Rightarrow> db \<Rightarrow> db \<Rightarrow> bool" for C where
  step_CreatePool: "CreatePool C p d = Inr (u, d') \<Longrightarrow> store_step C d d'"
| step_UpdatePool: "UpdatePool C p d = Inr (u, d') \<Longrightarrow> store_step C d d'"
| step_DeletePool: "DeletePool name ns d = Inr (u, d') \<Longrightarrow> store_step C d d'"
| step_DeletePoolAndMarkVMs:
    "DeletePoolAndMarkVMs now name ns force d = Inr (marked, d') \<Longrightarrow> store_step C d d'"
| step_CreateVM: "CreateVM v d = Inr (u, d') \<Longrightarrow> store_step C d d'"
| step_UpdateVM: "updateVM_exec v d = Inr (n, d') \<Longrightarrow> store_step C d d'"
| step_DeleteVM: "DeleteVM uid d = Inr (u, d') \<Longrightarrow> store_step C d d'"
| step_DeleteVMCheckingPool: "DeleteVMCheckingPool uid d = Inr (b, d') \<Longrightarrow> store_step C d d'"
| step_ClaimAvailableVM: "ClaimAvailableVM pick now name ns d = Inr (v, d') \<Longrightarrow> store_step C d d'"
| step_CreateLease: "CreateLease l d = Inr (u, d') \<Longrightarrow> store_step C d d'"
| step_LeaseVM: "LeaseVM v l d = Inr (u, d') \<Longrightarrow> store_step C d d'"
| step_UpdateLeaseHeartbeat: "UpdateLeaseHeartbeat i at ex d = Inr (u, d') \<Longrightarrow> store_step C d d'"
| step_DeleteLease: "DeleteLease i d = Inr (u, d') \<Longrightarrow> store_step C d d'"
| step_DeleteLeaseIfExpired: "DeleteLeaseIfExpired i now d = Inr (l, d') \<Longrightarrow> store_step C d d'"
| step_AppendEvent: "AppendEvent e d = Inr (i, d') \<Longrightarrow> store_step C d d'"
| step_CreateHost: "CreateHost h d = Inr (u, d') \<Longrightarrow> store_step C d d'"
| step_UpdateHost: "UpdateHost_exec now h d = Inr (u, d') \<Longrightarrow> store_step C d d'"
| step_DeleteHost: "DeleteHost name d = Inr (u, d') \<Longrightarrow> store_step C d d'"
| step_SetHostCordoned: "SetHostCordoned_exec now name b reason d = Inr (u, d') \<Longrightarrow> store_step C d d'"
| step_DrainHost: "DrainHost now now' name reason d = Inr (r, d') \<Longrightarrow> store_step C d d'"
| step_MarkDraining: "MarkDrainingHostsVMsDeleting now d = Inr (marked, d') \<Longrightarrow> store_step C d d'"
| step_ReservePlacement: "ReservePlacement now i host name ns d = Inr (u, d') \<Longrightarrow> store_step C d d'"
| step_ReleasePlacement: "ReleasePlacement i d = Inr (u, d') \<Longrightarrow> store_step C d d'"
| step_ClearPlacements: "ClearPlacements d = Inr (u, d') \<Longrightarrow> store_step C d d'"

abbreviation store_steps :: "protojson \<Rightarrow> db \<Rightarrow> db \<Rightarrow> bool" where
  "store_steps C \<equiv> (store_step C)\<^sup>*\<^sup>*"

text \<open>The phase of a VM, \<open>None\<close> when it has no row.\<close>

definition phase_of :: "db \<Rightarrow> string \<Rightarrow> VMPhase option" where
  "phase_of d uid = map_option vr_phase (find_key vr_uid uid (vms d))"

definition deleting_kept :: "db \<Rightarrow> db \<Rightarrow> bool" where
  "deleting_kept d d' \<longleftrightarrow>
     (\<forall>uid. phase_of d uid = Some DELETING \<longrightarrow> phase_of d' uid \<in> {None, Some DELETING})"

section \<open>Request ids\<close>

lemma request_ids_append [simp]: "request_ids (xs @ ys) = request_ids xs @ request_ids ys"
  by (simp add: request_ids_def)

lemma request_ids_Cons [simp]:
  "request_ids (r # rs) = (case lr_requestID r of None \<Rightarrow> [] | Some i \<Rightarrow> [i]) @ request_ids rs"
  by (simp add: request_ids_def split: option.splits)

lemma request_ids_Nil [simp]: "request_ids [] = []"
  by (simp add: request_ids_def)

lemma set_request_ids: "(i \<in> set (request_ids rs)) = (\<exists>r \<in> set rs. lr_requestID r = Some i)"
  by (induction rs) (auto split: option.splits)

lemma distinct_request_ids_delete: "distinct (request_ids rs) \<Longrightarrow> distinct (request_ids (sql_delete p rs))"
  by (induction rs) (auto simp: sql_delete_def set_request_ids split: option.splits)

lemma request_ids_update:
  "(\<And>r. lr_requestID (f r) = lr_requestID r) \<Longrightarrow> request_ids (sql_update p f rs) = request_ids rs"
  by (induction rs) (auto simp: sql_update_def)

lemmas request_ids_simps = set_request_ids distinct_request_ids_delete request_ids_update

section \<open>Every transaction keeps \<open>wf_db\<close>\<close>

lemma wf_empty_db: "wf_db empty_db"
  by (simp add: wf_db_def empty_db_def)

lemma wf_CreatePool: "CreatePool C p d = Inr (u, d') \<Longrightarrow> wf_db d \<Longrightarrow> wf_db d'"
  by (auto simp: CreatePool_def wf_db_def table_simps split: sum.splits if_splits)

lemma wf_UpdatePool: "UpdatePool C p d = Inr (u, d') \<Longrightarrow> wf_db d \<Longrightarrow> wf_db d'"
  by (auto simp: UpdatePool_def wf_db_def table_simps checkRowsAffected_def Let_def
      split: sum.splits if_splits)

lemma wf_DeletePool: "DeletePool name ns d = Inr (u, d') \<Longrightarrow> wf_db d \<Longrightarrow> wf_db d'"
  by (auto simp: DeletePool_def wf_db_def table_simps checkRowsAffected_def Let_def split: if_splits)

lemma wf_DeletePoolAndMarkVMs:
  assumes "DeletePoolAndMarkVMs now name ns force d = Inr (marked, d')" and "wf_db d"
  shows "wf_db d'"
proof -
  obtain d1 where "DeletePool name ns d = Inr ((), d1)"
    using assms(1) by (auto simp: DeletePoolAndMarkVMs_def split: sum.splits)
  then have "wf_db d1" using assms(2) wf_DeletePool by blast
  then show ?thesis
    using assms(1) \<open>DeletePool name ns d = _\<close>
    by (auto simp: DeletePoolAndMarkVMs_def wf_db_def table_simps request_ids_simps Let_def split: if_splits)
qed

lemma wf_CreateVM: "CreateVM v d = Inr (u, d') \<Longrightarrow> wf_db d \<Longrightarrow> wf_db d'"
  by (auto simp: CreateVM_def wf_db_def table_simps split: sum.splits if_splits)

lemma wf_updateVM_exec: "updateVM_exec v d = Inr (n, d') \<Longrightarrow> wf_db d \<Longrightarrow> wf_db d'"
  by (auto simp: updateVM_exec_def wf_db_def map_key_sql_update Let_def split: sum.splits)

lemma updateVM_InrD: "updateVM v d = Inr (u, d') \<Longrightarrow> updateVM_exec v d = Inr (True, d')"
  by (auto simp: updateVM_def updateVM_missed_def split: sum.splits prod.splits if_splits)

lemma wf_DeleteVM: "DeleteVM uid d = Inr (u, d') \<Longrightarrow> wf_db d \<Longrightarrow> wf_db d'"
  by (auto simp: DeleteVM_def wf_db_def table_simps checkRowsAffected_def split: if_splits)

lemma wf_DeleteVMCheckingPool: "DeleteVMCheckingPool uid d = Inr (b, d') \<Longrightarrow> wf_db d \<Longrightarrow> wf_db d'"
  by (auto simp: DeleteVMCheckingPool_def wf_db_def table_simps Let_def split: option.splits)

lemma wf_ClaimAvailableVM: "ClaimAvailableVM pick now name ns d = Inr (v, d') \<Longrightarrow> wf_db d \<Longrightarrow> wf_db d'"
  by (auto simp: ClaimAvailableVM_def wf_db_def Let_def map_key_sql_update split: option.splits if_splits)

lemma wf_insertLease: "insertLease l d = Inr (u, d') \<Longrightarrow> wf_db d \<Longrightarrow> wf_db d'"
  by (auto simp: insertLease_def wf_db_def table_simps request_ids_simps split: sum.splits if_splits option.splits)

lemma wf_LeaseVM: "LeaseVM v l d = Inr (u, d') \<Longrightarrow> wf_db d \<Longrightarrow> wf_db d'"
  by (auto simp: LeaseVM_def split: sum.splits dest!: updateVM_InrD dest: wf_updateVM_exec wf_insertLease)

lemma wf_UpdateLeaseHeartbeat: "UpdateLeaseHeartbeat i at ex d = Inr (u, d') \<Longrightarrow> wf_db d \<Longrightarrow> wf_db d'"
  by (auto simp: UpdateLeaseHeartbeat_def wf_db_def map_key_sql_update request_ids_simps checkRowsAffected_def
      split: if_splits)

lemma wf_DeleteLease: "DeleteLease i d = Inr (u, d') \<Longrightarrow> wf_db d \<Longrightarrow> wf_db d'"
  by (auto simp: DeleteLease_def wf_db_def table_simps request_ids_simps checkRowsAffected_def split: if_splits)

lemma wf_DeleteLeaseIfExpired: "DeleteLeaseIfExpired i now d = Inr (l, d') \<Longrightarrow> wf_db d \<Longrightarrow> wf_db d'"
  by (auto simp: DeleteLeaseIfExpired_def wf_db_def table_simps request_ids_simps Let_def
      split: if_splits option.splits)

lemma wf_AppendEvent: "AppendEvent e d = Inr (i, d') \<Longrightarrow> wf_db d \<Longrightarrow> wf_db d'"
  by (fastforce simp: AppendEvent_def wf_db_def Let_def sorted_wrt_append split: sum.splits)

lemma wf_CreateHost: "CreateHost h d = Inr (u, d') \<Longrightarrow> wf_db d \<Longrightarrow> wf_db d'"
  by (auto simp: CreateHost_def wf_db_def table_simps split: sum.splits if_splits)

lemma wf_UpdateHost: "UpdateHost_exec now h d = Inr (u, d') \<Longrightarrow> wf_db d \<Longrightarrow> wf_db d'"
  by (auto simp: UpdateHost_exec_def wf_db_def map_key_sql_update checkRowsAffected_def Let_def
      split: if_splits)

lemma wf_DeleteHost: "DeleteHost name d = Inr (u, d') \<Longrightarrow> wf_db d \<Longrightarrow> wf_db d'"
  by (auto simp: DeleteHost_def wf_db_def table_simps Let_def split: if_splits sum.splits)

lemma wf_SetHostCordoned: "SetHostCordoned_exec now name b reason d = Inr (u, d') \<Longrightarrow> wf_db d \<Longrightarrow> wf_db d'"
  by (auto simp: SetHostCordoned_exec_def wf_db_def map_key_sql_update checkRowsAffected_def Let_def
      split: if_splits)

lemma wf_markUnleased: "markUnleasedVMsDeleting now wh d = (marked, d') \<Longrightarrow> wf_db d \<Longrightarrow> wf_db d'"
  by (auto simp: markUnleasedVMsDeleting_def wf_db_def map_key_sql_update Let_def)

lemma wf_DrainHost: "DrainHost now now' name reason d = Inr (r, d') \<Longrightarrow> wf_db d \<Longrightarrow> wf_db d'"
  by (auto simp: DrainHost_def wf_db_def map_key_sql_update checkRowsAffected_def markUnleasedVMsDeleting_def Let_def
      split: sum.splits if_splits option.splits prod.splits)

lemma wf_MarkDraining: "MarkDrainingHostsVMsDeleting now d = Inr (marked, d') \<Longrightarrow> wf_db d \<Longrightarrow> wf_db d'"
  by (auto simp: MarkDrainingHostsVMsDeleting_def dest: wf_markUnleased)

lemma wf_ReservePlacement: "ReservePlacement now i host name ns d = Inr (u, d') \<Longrightarrow> wf_db d \<Longrightarrow> wf_db d'"
  by (auto simp: ReservePlacement_def wf_db_def table_simps split: option.splits if_splits)

lemma wf_ReleasePlacement: "ReleasePlacement i d = Inr (u, d') \<Longrightarrow> wf_db d \<Longrightarrow> wf_db d'"
  by (auto simp: ReleasePlacement_def wf_db_def table_simps)

lemma wf_ClearPlacements: "ClearPlacements d = Inr (u, d') \<Longrightarrow> wf_db d \<Longrightarrow> wf_db d'"
  by (auto simp: ClearPlacements_def wf_db_def)

lemmas wf_ops =
  wf_CreatePool wf_UpdatePool wf_DeletePool wf_DeletePoolAndMarkVMs wf_CreateVM wf_updateVM_exec wf_DeleteVM
  wf_DeleteVMCheckingPool wf_ClaimAvailableVM wf_insertLease wf_LeaseVM wf_UpdateLeaseHeartbeat
  wf_DeleteLease wf_DeleteLeaseIfExpired wf_AppendEvent wf_CreateHost wf_UpdateHost wf_DeleteHost
  wf_SetHostCordoned wf_DrainHost wf_MarkDraining wf_ReservePlacement wf_ReleasePlacement wf_ClearPlacements

lemma store_step_wf: "store_step C d d' \<Longrightarrow> wf_db d \<Longrightarrow> wf_db d'"
  by (induction rule: store_step.induct) (auto simp: CreateLease_def intro: wf_ops)

lemma store_steps_wf: "store_steps C d d' \<Longrightarrow> wf_db d \<Longrightarrow> wf_db d'"
  by (induction rule: rtranclp_induct) (auto intro: store_step_wf)

section \<open>DELETING is terminal\<close>

lemma phase_of_None: "(phase_of d uid = None) = (uid \<notin> vr_uid ` set (vms d))"
  by (auto simp: phase_of_def find_key_None)

lemma phase_of_Some: "wf_db d \<Longrightarrow> (phase_of d uid = Some p) = (\<exists>r \<in> set (vms d). vr_uid r = uid \<and> vr_phase r = p)"
  by (auto simp: phase_of_def wf_db_def find_key_Some)

lemma deleting_kept_refl [simp]: "deleting_kept d d"
  by (simp add: deleting_kept_def)

lemma deleting_kept_vms_eq: "vms d' = vms d \<Longrightarrow> deleting_kept d d'"
  by (simp add: deleting_kept_def phase_of_def)

text \<open>The four shapes of a write to the VM table: a row is added, an update never moves a
  DELETING row to another phase, rows are removed.\<close>

lemma deleting_kept_update:
  assumes "vms d' = sql_update p f (vms d)" and "\<And>r. vr_uid (f r) = vr_uid r"
    and "\<And>r. p r \<Longrightarrow> vr_phase r = DELETING \<Longrightarrow> vr_phase (f r) = DELETING"
  shows "deleting_kept d d'"
proof -
  have "map_option vr_phase (find_key vr_uid uid (vms d)) = Some DELETING \<Longrightarrow>
        map_option vr_phase (find_key vr_uid uid (vms d')) = Some DELETING" for uid
    using assms by (cases "find_key vr_uid uid (vms d)") (auto simp: find_key_sql_update)
  then show ?thesis by (simp add: deleting_kept_def phase_of_def)
qed

lemma deleting_kept_delete:
  assumes "vms d' = sql_delete p (vms d)" and "wf_db d"
  shows "deleting_kept d d'"
  using assms by (auto simp: deleting_kept_def phase_of_def wf_db_def find_key_sql_delete split: option.splits)

lemma deleting_kept_append:
  assumes "vms d' = vms d @ rows"
  shows "deleting_kept d d'"
  using assms by (auto simp: deleting_kept_def phase_of_def find_key_append)

lemma vms_insertLease: "insertLease l d = Inr (u, d') \<Longrightarrow> vms d' = vms d"
  by (auto simp: insertLease_def split: sum.splits if_splits)

lemma kept_updateVM_exec: "updateVM_exec v d = Inr (n, d') \<Longrightarrow> deleting_kept d d'"
  by (auto simp: updateVM_exec_def Let_def split: sum.splits if_splits intro!: deleting_kept_update)

lemma kept_LeaseVM: "LeaseVM v l d = Inr (u, d') \<Longrightarrow> deleting_kept d d'"
  by (auto simp: LeaseVM_def deleting_kept_def phase_of_def split: sum.splits
      dest!: updateVM_InrD dest!: kept_updateVM_exec [unfolded deleting_kept_def phase_of_def] vms_insertLease)

lemma kept_markUnleased: "markUnleasedVMsDeleting now wh d = (marked, d') \<Longrightarrow> deleting_kept d d'"
  by (auto simp: markUnleasedVMsDeleting_def Let_def intro!: deleting_kept_update)

lemma kept_DrainHost: "DrainHost now now' name reason d = Inr (r, d') \<Longrightarrow> deleting_kept d d'"
  by (auto simp: DrainHost_def checkRowsAffected_def markUnleasedVMsDeleting_def Let_def
      split: sum.splits if_splits option.splits prod.splits intro!: deleting_kept_update)

lemma kept_DeletePoolAndMarkVMs:
  "DeletePoolAndMarkVMs now name ns force d = Inr (marked, d') \<Longrightarrow> deleting_kept d d'"
  by (auto simp: DeletePoolAndMarkVMs_def DeletePool_def checkRowsAffected_def Let_def
      split: sum.splits if_splits intro!: deleting_kept_update)

lemma kept_ClaimAvailableVM:
  "ClaimAvailableVM pick now name ns d = Inr (v, d') \<Longrightarrow> deleting_kept d d'"
  by (auto simp: ClaimAvailableVM_def Let_def split: option.splits if_splits intro!: deleting_kept_update)

lemma kept_CreateVM: "CreateVM v d = Inr (u, d') \<Longrightarrow> deleting_kept d d'"
  by (auto simp: CreateVM_def split: sum.splits if_splits intro: deleting_kept_append)

lemma kept_DeleteVM: "DeleteVM uid d = Inr (u, d') \<Longrightarrow> wf_db d \<Longrightarrow> deleting_kept d d'"
  by (auto simp: DeleteVM_def checkRowsAffected_def split: if_splits intro: deleting_kept_delete)

lemma kept_DeleteVMCheckingPool: "DeleteVMCheckingPool uid d = Inr (b, d') \<Longrightarrow> wf_db d \<Longrightarrow> deleting_kept d d'"
  by (auto simp: DeleteVMCheckingPool_def Let_def split: option.splits intro: deleting_kept_delete)

lemma kept_MarkDraining: "MarkDrainingHostsVMsDeleting now d = Inr (marked, d') \<Longrightarrow> deleting_kept d d'"
  by (auto simp: MarkDrainingHostsVMsDeleting_def dest: kept_markUnleased)

text \<open>The transactions that do not touch the VM table.\<close>

lemma vms_CreatePool: "CreatePool C p d = Inr (u, d') \<Longrightarrow> vms d' = vms d"
  by (auto simp: CreatePool_def split: sum.splits if_splits)

lemma vms_UpdatePool: "UpdatePool C p d = Inr (u, d') \<Longrightarrow> vms d' = vms d"
  by (auto simp: UpdatePool_def checkRowsAffected_def Let_def split: sum.splits if_splits)

lemma vms_DeletePool: "DeletePool name ns d = Inr (u, d') \<Longrightarrow> vms d' = vms d"
  by (auto simp: DeletePool_def checkRowsAffected_def Let_def split: if_splits)

lemma vms_UpdateLeaseHeartbeat: "UpdateLeaseHeartbeat i at ex d = Inr (u, d') \<Longrightarrow> vms d' = vms d"
  by (auto simp: UpdateLeaseHeartbeat_def checkRowsAffected_def split: if_splits)

lemma vms_DeleteLease: "DeleteLease i d = Inr (u, d') \<Longrightarrow> vms d' = vms d"
  by (auto simp: DeleteLease_def checkRowsAffected_def split: if_splits)

lemma vms_DeleteLeaseIfExpired: "DeleteLeaseIfExpired i now d = Inr (l, d') \<Longrightarrow> vms d' = vms d"
  by (auto simp: DeleteLeaseIfExpired_def Let_def split: if_splits option.splits)

lemma vms_AppendEvent: "AppendEvent e d = Inr (i, d') \<Longrightarrow> vms d' = vms d"
  by (auto simp: AppendEvent_def Let_def split: sum.splits)

lemma vms_CreateHost: "CreateHost h d = Inr (u, d') \<Longrightarrow> vms d' = vms d"
  by (auto simp: CreateHost_def split: sum.splits if_splits)

lemma vms_UpdateHost: "UpdateHost_exec now h d = Inr (u, d') \<Longrightarrow> vms d' = vms d"
  by (auto simp: UpdateHost_exec_def checkRowsAffected_def Let_def split: if_splits)

lemma vms_DeleteHost: "DeleteHost name d = Inr (u, d') \<Longrightarrow> vms d' = vms d"
  by (auto simp: DeleteHost_def Let_def split: if_splits sum.splits)

lemma vms_SetHostCordoned: "SetHostCordoned_exec now name b reason d = Inr (u, d') \<Longrightarrow> vms d' = vms d"
  by (auto simp: SetHostCordoned_exec_def checkRowsAffected_def Let_def split: if_splits)

lemma vms_ReservePlacement: "ReservePlacement now i host name ns d = Inr (u, d') \<Longrightarrow> vms d' = vms d"
  by (auto simp: ReservePlacement_def split: option.splits if_splits)

lemma vms_ReleasePlacement: "ReleasePlacement i d = Inr (u, d') \<Longrightarrow> vms d' = vms d"
  by (auto simp: ReleasePlacement_def)

lemma vms_ClearPlacements: "ClearPlacements d = Inr (u, d') \<Longrightarrow> vms d' = vms d"
  by (auto simp: ClearPlacements_def)

lemmas vms_frames =
  vms_CreatePool vms_UpdatePool vms_DeletePool vms_insertLease vms_UpdateLeaseHeartbeat vms_DeleteLease
  vms_DeleteLeaseIfExpired vms_AppendEvent vms_CreateHost vms_UpdateHost vms_DeleteHost
  vms_SetHostCordoned vms_ReservePlacement vms_ReleasePlacement vms_ClearPlacements

lemmas kept_ops =
  kept_updateVM_exec kept_LeaseVM kept_DrainHost kept_DeletePoolAndMarkVMs kept_ClaimAvailableVM
  kept_CreateVM kept_DeleteVM kept_DeleteVMCheckingPool kept_MarkDraining

lemma store_step_deleting_kept: "store_step C d d' \<Longrightarrow> wf_db d \<Longrightarrow> deleting_kept d d'"
  by (induction rule: store_step.induct)
    (auto simp: CreateLease_def intro: kept_ops deleting_kept_vms_eq vms_frames)

section \<open>The life cycle interface\<close>

text \<open>
  What a caller of the store relies on while others write to it: whatever transactions run,
  the tables stay well formed, and a VM seen DELETING is DELETING for as long as its row
  exists. The lemmas for whole runs are proved once, from these two laws.
\<close>

locale vm_lifecycle =
  fixes step :: "'d \<Rightarrow> 'd \<Rightarrow> bool"
    and inv :: "'d \<Rightarrow> bool"
    and ph :: "'d \<Rightarrow> string \<Rightarrow> VMPhase option"
  assumes inv_step: "step d d' \<Longrightarrow> inv d \<Longrightarrow> inv d'"
    and terminal_step: "step d d' \<Longrightarrow> inv d \<Longrightarrow> ph d u = Some DELETING \<Longrightarrow> ph d' u \<in> {None, Some DELETING}"
begin

lemma inv_run: "step\<^sup>*\<^sup>* d d' \<Longrightarrow> inv d \<Longrightarrow> inv d'"
  by (induction rule: rtranclp_induct) (auto intro: inv_step)

lemma terminal_run:
  assumes "(\<lambda>a b. step a b \<and> ph b u \<noteq> None)\<^sup>*\<^sup>* d d'" and "inv d" and "ph d u = Some DELETING"
  shows "ph d' u = Some DELETING \<and> inv d'"
  using assms(1)
proof (induction rule: rtranclp_induct)
  case base
  then show ?case using assms(2,3) by simp
next
  case (step y z)
  then show ?case using terminal_step [of y z u] inv_step [of y z] by auto
qed

text \<open>A VM that leaves DELETING has lost its row on the way.\<close>

lemma leaves_only_by_removal:
  assumes "step\<^sup>*\<^sup>* d d'" and "inv d" and "ph d u = Some DELETING" and "ph d' u = Some p" and "p \<noteq> DELETING"
  shows "\<exists>e. step\<^sup>*\<^sup>* d e \<and> step\<^sup>*\<^sup>* e d' \<and> ph e u = None"
proof -
  have "ph d' u = Some DELETING \<or> (\<exists>e. step\<^sup>*\<^sup>* d e \<and> step\<^sup>*\<^sup>* e d' \<and> ph e u = None)"
    using assms(1)
  proof (induction rule: rtranclp_induct)
    case base
    then show ?case using assms(3) by simp
  next
    case (step y z)
    have "inv y" using step.hyps(1) assms(2) inv_run by blast
    have run_z: "step\<^sup>*\<^sup>* d z" using step.hyps by simp
    from step.IH show ?case
    proof
      assume "ph y u = Some DELETING"
      with terminal_step [OF step.hyps(2) \<open>inv y\<close>, of u] run_z show ?thesis by blast
    next
      assume "\<exists>e. step\<^sup>*\<^sup>* d e \<and> step\<^sup>*\<^sup>* e y \<and> ph e u = None"
      then show ?thesis using step.hyps(2) by (meson rtranclp.rtrancl_into_rtrancl)
    qed
  qed
  then show ?thesis using assms(4,5) by auto
qed

end

interpretation sq: vm_lifecycle "store_step C" wf_db phase_of for C
proof unfold_locales
  show "store_step C d d' \<Longrightarrow> wf_db d \<Longrightarrow> wf_db d'" for d d'
    by (rule store_step_wf)
  show "store_step C d d' \<Longrightarrow> wf_db d \<Longrightarrow> phase_of d u = Some DELETING \<Longrightarrow> phase_of d' u \<in> {None, Some DELETING}"
    for d d' u
    using store_step_deleting_kept [of C d d'] unfolding deleting_kept_def by blast
qed

end
