(* ===== verification/Store_Props.thy ===== *)
theory Store_Props
  imports Store_Inv
begin

text \<open>
  What the store promises its callers: the properties of its transactions, one by one and over
  every interleaving of them, with concrete databases on which they are exercised.
\<close>

section \<open>Definitions\<close>

text \<open>Successive claims on one pool: the uids handed out, in order.\<close>

fun claims :: "(nat \<times> int) list \<Rightarrow> string \<Rightarrow> string \<Rightarrow> db \<Rightarrow> string list \<times> db" where
  "claims [] name ns d = ([], d)"
| "claims ((pick, now) # rest) name ns d =
     (case ClaimAvailableVM pick now name ns d of
        Inl e \<Rightarrow> claims rest name ns d
      | Inr (v, d1) \<Rightarrow> let (us, d2) = claims rest name ns d1 in (vm_Uid v # us, d2))"

definition available_uids :: "string \<Rightarrow> string \<Rightarrow> db \<Rightarrow> string list" where
  "available_uids name ns d = map vr_uid (filter (\<lambda>r. vm_in_pool name ns r \<and> vr_phase r = AVAILABLE) (vms d))"

text \<open>Every placement is on a registered host.\<close>

definition placements_hosted :: "db \<Rightarrow> bool" where
  "placements_hosted d \<longleftrightarrow> (\<forall>p \<in> set (placements d). \<exists>h \<in> set (hosts d). hr_name h = pl_host p)"

text \<open>A small database: one pool's worth of VMs in three phases, one host, one lease.\<close>

definition sample_vm :: "string \<Rightarrow> VMPhase \<Rightarrow> vmRow" where
  "sample_vm uid p = \<lparr>vr_uid = uid, vr_poolName = ''p'', vr_poolNamespace = ''ns'', vr_flintlockHost = ''h'',
     vr_phase = p, vr_leaseID = None, vr_createdAt = 1, vr_updatedAt = 1\<rparr>"

definition sample_host :: hostRow where
  "sample_host = \<lparr>hr_name = ''h'', hr_address = ''a:1'', hr_cordoned = False, hr_cordonedReason = None,
     hr_cordonedAt = None, hr_updatedAt = 1, hr_tlsInsecure = True, hr_caFile = [], hr_certFile = [],
     hr_keyFile = [], hr_draining = False, hr_drainingAt = None\<rparr>"

definition sample_lease :: leaseRow where
  "sample_lease = \<lparr>lr_leaseID = ''l'', lr_vmUID = ''v3'', lr_poolName = ''p'', lr_poolNamespace = ''ns'',
     lr_claimedAt = 1, lr_lastHeartbeatAt = 1, lr_expiresAt = 5, lr_requestID = Some ''r''\<rparr>"

definition sample_db :: db where
  "sample_db = empty_db\<lparr>vms := [sample_vm ''v1'' AVAILABLE, sample_vm ''v2'' AVAILABLE, sample_vm ''v3'' LEASED],
     hosts := [sample_host], leases := [sample_lease]\<rparr>"

section \<open>Claims\<close>

lemma limit1_in: "limit1 k xs = Some x \<Longrightarrow> x \<in> set xs"
  by (auto simp: limit1_def split: if_splits)

lemma limit1_None: "(limit1 k xs = None) = (xs = [])"
  by (simp add: limit1_def)

lemma available_uids_set:
  "(u \<in> set (available_uids n ns d)) = (\<exists>r \<in> set (vms d). vr_uid r = u \<and> vm_in_pool n ns r \<and> vr_phase r = AVAILABLE)"
  by (auto simp: available_uids_def)

lemma sql_update_uid_phase:
  assumes "distinct (map vr_uid rows)" and "row \<in> set rows" and "vr_phase row = p"
  shows "sql_update (\<lambda>r. vr_uid r = vr_uid row \<and> vr_phase r = p) f rows = sql_update (\<lambda>r. vr_uid r = vr_uid row) f rows"
  unfolding sql_update_def by (rule map_cong) (use assms distinct_key_unique in fastforce)+

abbreviation leased_row :: "int \<Rightarrow> vmRow \<Rightarrow> vmRow" where
  "leased_row now r \<equiv> r\<lparr>vr_phase := LEASED, vr_updatedAt := now\<rparr>"

lemma claim_cases:
  assumes "wf_db d"
  shows "ClaimAvailableVM k now n ns d = Inl ErrNoAvailableVM \<and> available_uids n ns d = [] \<or>
    (\<exists>row \<in> set (vms d). vm_in_pool n ns row \<and> vr_phase row = AVAILABLE \<and>
       ClaimAvailableVM k now n ns d = Inr (rowToVM (leased_row now row),
         d\<lparr>vms := sql_update (\<lambda>r. vr_uid r = vr_uid row) (leased_row now) (vms d)\<rparr>))"
proof (cases "limit1 k (filter (\<lambda>r. vm_in_pool n ns r \<and> vr_phase r = AVAILABLE) (vms d))")
  case None
  then show ?thesis by (simp add: ClaimAvailableVM_def available_uids_def) (simp add: limit1_None)
next
  case (Some row)
  then have row: "row \<in> set (vms d)" "vm_in_pool n ns row" "vr_phase row = AVAILABLE" by (auto dest: limit1_in)
  have dis: "distinct (map vr_uid (vms d))" using assms by (simp add: wf_db_def)
  have "sql_count (\<lambda>r. vr_uid r = vr_uid row \<and> vr_phase r = AVAILABLE) (vms d) \<noteq> 0"
    using row by (auto simp: sql_count_zero)
  moreover have "find_key vr_uid (vr_uid row) (vms d) = Some row" using dis row by (simp add: find_key_Some)
  ultimately have "ClaimAvailableVM k now n ns d = Inr (rowToVM (leased_row now row),
      d\<lparr>vms := sql_update (\<lambda>r. vr_uid r = vr_uid row \<and> vr_phase r = AVAILABLE) (leased_row now) (vms d)\<rparr>)"
    using Some row by (simp add: ClaimAvailableVM_def Let_def find_key_sql_update)
  then show ?thesis using row sql_update_uid_phase [OF dis row(1,3)] by auto
qed

lemma filter_claimed:
  "map vr_uid (filter (\<lambda>r. vm_in_pool n ns r \<and> vr_phase r = AVAILABLE)
     (sql_update (\<lambda>r. vr_uid r = u) (leased_row now) rows)) =
   filter (\<lambda>v. v \<noteq> u) (map vr_uid (filter (\<lambda>r. vm_in_pool n ns r \<and> vr_phase r = AVAILABLE) rows))"
  by (induction rows) (auto simp: sql_update_def vm_in_pool_def)

lemma available_after_claim:
  "available_uids n ns (d\<lparr>vms := sql_update (\<lambda>r. vr_uid r = u) (leased_row now) (vms d)\<rparr>) =
   filter (\<lambda>v. v \<noteq> u) (available_uids n ns d)"
  by (simp add: available_uids_def filter_claimed)

lemma distinct_available: "wf_db d \<Longrightarrow> distinct (available_uids n ns d)"
  by (simp add: available_uids_def wf_db_def distinct_map_filter)

lemma length_filter_distinct: "distinct xs \<Longrightarrow> u \<in> set xs \<Longrightarrow> length xs = Suc (length (filter (\<lambda>v. v \<noteq> u) xs))"
proof (induction xs)
  case (Cons x xs)
  have "u = x \<Longrightarrow> filter (\<lambda>v. v \<noteq> u) xs = xs" using Cons.prems by (intro filter_True) auto
  then show ?case using Cons by (cases "u = x") auto
qed simp

lemma claims_run:
  "wf_db d \<Longrightarrow> claims ks n ns d = (us, d') \<Longrightarrow>
     distinct us \<and> set us \<subseteq> set (available_uids n ns d) \<and>
     length us = min (length ks) (length (available_uids n ns d)) \<and>
     available_uids n ns d' = filter (\<lambda>u. u \<notin> set us) (available_uids n ns d)"
proof (induction ks arbitrary: d us)
  case (Cons x ks)
  obtain k now where x: "x = (k, now)" by (cases x)
  from claim_cases [OF Cons.prems(1), of k now n ns] show ?case
  proof (elim disjE bexE conjE)
    assume "ClaimAvailableVM k now n ns d = Inl ErrNoAvailableVM" "available_uids n ns d = []"
    then show ?thesis using Cons.IH [of d us] Cons.prems x by simp
  next
    fix row :: vmRow
    let ?d1 = "d\<lparr>vms := sql_update (\<lambda>r. vr_uid r = vr_uid row) (leased_row now) (vms d)\<rparr>"
    let ?av = "available_uids n ns d"
    assume row: "row \<in> set (vms d)" "vm_in_pool n ns row" "vr_phase row = AVAILABLE"
      and claim: "ClaimAvailableVM k now n ns d = Inr (rowToVM (leased_row now row), ?d1)"
    obtain vs where us: "us = vr_uid row # vs" and vs: "claims ks n ns ?d1 = (vs, d')"
      using Cons.prems(2) x claim by (auto split: prod.splits)
    have "wf_db ?d1" using wf_ClaimAvailableVM [OF claim Cons.prems(1)] .
    note IH = Cons.IH [OF this vs, unfolded available_after_claim]
    have inav: "vr_uid row \<in> set ?av" using row by (auto simp: available_uids_set)
    have "length us = min (length (x # ks)) (length ?av)"
      using IH us length_filter_distinct [OF distinct_available [OF Cons.prems(1), of n ns] inav] by simp
    moreover have "available_uids n ns d' = filter (\<lambda>u. u \<notin> set us) ?av"
      using IH us by (simp add: conj_commute)
    ultimately show ?thesis using IH us inav by auto
  qed
qed simp

section \<open>Updates\<close>

lemma updateVM_no_match:
  assumes "vmToRow v = Inr row"
    and "\<forall>r \<in> set (vms d). \<not> (vr_uid r = vm_Uid v \<and> (vr_phase r \<noteq> DELETING \<or> vm_Phase v = DELETING))"
  shows "updateVM v d = updateVM_missed v d"
proof -
  let ?m = "\<lambda>r. vr_uid r = vr_uid row \<and> (vr_phase r \<noteq> DELETING \<or> vr_phase row = DELETING)"
  have "\<forall>r \<in> set (vms d). \<not> ?m r" using assms(2) vmToRow_Inr [OF assms(1)] by auto
  then have "\<not> 0 < sql_count ?m (vms d)" "sql_update ?m f (vms d) = vms d" for f
    unfolding sql_count_pos by (auto intro: sql_update_none)
  then show ?thesis using assms(1) by (simp add: updateVM_def updateVM_exec_def Let_def)
qed

lemma updateVM_match:
  assumes "vmToRow v = Inr row" and "\<exists>r \<in> set (vms d). vr_uid r = vm_Uid v"
    and "\<forall>r \<in> set (vms d). vr_uid r = vm_Uid v \<longrightarrow> vr_phase r \<noteq> DELETING \<or> vm_Phase v = DELETING"
  shows "updateVM v d = Inr ((), d\<lparr>vms := sql_update (\<lambda>r. vr_uid r = vm_Uid v)
           (\<lambda>r. row\<lparr>vr_createdAt := vr_createdAt r\<rparr>) (vms d)\<rparr>)"
proof -
  let ?m = "\<lambda>r. vr_uid r = vr_uid row \<and> (vr_phase r \<noteq> DELETING \<or> vr_phase row = DELETING)"
  let ?f = "\<lambda>r. r\<lparr>vr_poolName := vr_poolName row, vr_poolNamespace := vr_poolNamespace row,
                 vr_flintlockHost := vr_flintlockHost row, vr_phase := vr_phase row,
                 vr_leaseID := vr_leaseID row, vr_updatedAt := vr_updatedAt row\<rparr>"
  note row = vmToRow_Inr [OF assms(1)]
  have pos: "0 < sql_count ?m (vms d)" unfolding sql_count_pos using assms(2,3) row by auto
  have "sql_update ?m ?f (vms d) =
        sql_update (\<lambda>r. vr_uid r = vm_Uid v) (\<lambda>r. row\<lparr>vr_createdAt := vr_createdAt r\<rparr>) (vms d)"
    unfolding sql_update_def using assms(3) row by (intro map_cong) auto
  with pos show ?thesis using assms(1) by (simp add: updateVM_def updateVM_exec_def Let_def)
qed

section \<open>Properties\<close>

text \<open>C1: the tables stay well formed (unique pool, VM, lease, request, host and placement
  keys; event ids strictly increasing and at most the sequence counter) whatever sequence of
  store transactions runs from a new database.\<close>

theorem store_well_formed: "store_steps C empty_db d \<Longrightarrow> wf_db d"
  by (rule sq.inv_run [OF _ wf_empty_db])

theorem store_well_formed_witness:
  "wf_db (empty_db\<lparr>hosts := [sample_host]\<rparr>)"
proof -
  have "CreateHost (rowToHost sample_host) empty_db = Inr ((), empty_db\<lparr>hosts := [sample_host]\<rparr>)"
    by (simp add: CreateHost_def hostToRow_def rowToHost_def sample_host_def empty_db_def requireTimestamp_def
        h_GetTls_def UnixNano_def in_int64_def)
  then have "store_step C empty_db (empty_db\<lparr>hosts := [sample_host]\<rparr>)" for C by (rule step_CreateHost)
  then have "store_steps undefined empty_db (empty_db\<lparr>hosts := [sample_host]\<rparr>)" by blast
  then show ?thesis by (rule store_well_formed)
qed



text \<open>C12: any number of successive claims on a pool hand out distinct VMs, all of them AVAILABLE
  in that pool, and exactly as many as there are; what stays AVAILABLE is what was not handed
  out.\<close>

theorem claims_exclusive_and_exhaustive:
  assumes "wf_db d" and "claims ks n ns d = (us, d')"
  shows "distinct us \<and> set us \<subseteq> set (available_uids n ns d) \<and>
    length us = min (length ks) (length (available_uids n ns d)) \<and>
    available_uids n ns d' = filter (\<lambda>u. u \<notin> set us) (available_uids n ns d)"
  using claims_run [OF assms] .

theorem claims_exclusive_and_exhaustive_witness:
  "claims [(1, 7), (0, 8), (5, 9)] ''p'' ''ns'' sample_db =
     ([''v2'', ''v1''], snd (claims [(1, 7), (0, 8), (5, 9)] ''p'' ''ns'' sample_db)) \<and>
   distinct [''v2'', ''v1''] \<and>
   available_uids ''p'' ''ns'' (snd (claims [(1, 7), (0, 8), (5, 9)] ''p'' ''ns'' sample_db)) = []"
proof -
  have c: "claims [(1, 7), (0, 8), (5, 9)] ''p'' ''ns'' sample_db =
      ([''v2'', ''v1''], snd (claims [(1, 7), (0, 8), (5, 9)] ''p'' ''ns'' sample_db))"
    by code_simp
  have "wf_db sample_db"
    by (simp add: wf_db_def sample_db_def empty_db_def sample_vm_def sample_host_def sample_lease_def)
  from claims_exclusive_and_exhaustive [OF this c] c show ?thesis
    by (simp add: available_uids_def sample_db_def sample_vm_def vm_in_pool_def)
qed

text \<open>\<open>UpdateVM\<close> on every branch, with no other writer between its statements: it succeeds,
  rewriting the row and nothing else and keeping \<open>created_at\<close>, when the row exists and is not
  DELETING or stays DELETING; otherwise it reports a missing row or a DELETING one, and changes
  nothing.\<close>

theorem updateVM_outcomes:
  assumes "wf_db d" and "vmToRow v = Inr row"
  shows "updateVM v d =
    (case find_key vr_uid (vm_Uid v) (vms d) of
       None \<Rightarrow> Inl ErrNotFound
     | Some old \<Rightarrow>
         if vr_phase old = DELETING \<and> vm_Phase v \<noteq> DELETING then Inl ErrVMDeleting
         else Inr ((), d\<lparr>vms := sql_update (\<lambda>r. vr_uid r = vm_Uid v)
                           (\<lambda>r. row\<lparr>vr_createdAt := vr_createdAt r\<rparr>) (vms d)\<rparr>))"
proof (cases "find_key vr_uid (vm_Uid v) (vms d)")
  case None
  then have "\<forall>r \<in> set (vms d). vr_uid r \<noteq> vm_Uid v"
    by (metis find_key_None image_eqI)
  then show ?thesis using None updateVM_no_match [OF assms(2), of d] by (simp add: updateVM_missed_def)
next
  case (Some old)
  then have old: "old \<in> set (vms d)" "vr_uid old = vm_Uid v" by (auto dest: find_key_SomeD)
  have uniq: "\<forall>r \<in> set (vms d). vr_uid r = vm_Uid v \<longrightarrow> r = old"
    using assms(1) old distinct_key_unique [of vr_uid "vms d" _ old] by (auto simp: wf_db_def)
  show ?thesis
  proof (cases "vr_phase old = DELETING \<and> vm_Phase v \<noteq> DELETING")
    case True
    then show ?thesis using Some uniq updateVM_no_match [OF assms(2), of d] by (auto simp: updateVM_missed_def)
  next
    case False
    then have "\<forall>r \<in> set (vms d). vr_uid r = vm_Uid v \<longrightarrow> vr_phase r \<noteq> DELETING \<or> vm_Phase v = DELETING"
      using uniq by blast
    with False Some old show ?thesis using updateVM_match [OF assms(2), of d] by auto
  qed
qed

theorem updateVM_outcomes_witness:
  "updateVM (rowToVM (sample_vm ''v1'' DELETING)) sample_db =
     Inr ((), sample_db\<lparr>vms := [sample_vm ''v1'' DELETING, sample_vm ''v2'' AVAILABLE, sample_vm ''v3'' LEASED]\<rparr>)"
proof -
  have wf: "wf_db sample_db"
    by (simp add: wf_db_def sample_db_def empty_db_def sample_vm_def sample_host_def sample_lease_def)
  have row: "vmToRow (rowToVM (sample_vm ''v1'' DELETING)) = Inr (sample_vm ''v1'' DELETING)"
    by (simp add: vmToRow_def requireTimestamp_def sample_vm_def UnixNano_def in_int64_def)
  show ?thesis using updateVM_outcomes [OF wf row]
    by (simp add: sample_db_def sample_vm_def sql_update_def)
qed



text \<open>C14: a lease's expiry and its heartbeat exclude each other. Expiry deletes a lease exactly
  when its deadline is not after \<open>now\<close>; after a heartbeat that moved the deadline past \<open>now\<close>
  it refuses and the lease stays, and after expiry won the heartbeat finds nothing.\<close>

theorem expiry_excludes_heartbeat:
  assumes "wf_db d"
  shows "(UpdateLeaseHeartbeat i at ex d = Inr (u, d1) \<longrightarrow> UnixNano now < UnixNano ex \<longrightarrow>
            DeleteLeaseIfExpired i now d1 = Inl ErrLeaseNotExpired) \<and>
         (DeleteLeaseIfExpired i now d = Inr (l, d2) \<longrightarrow>
            (\<exists>e. l_ExpiresAt l = Some e \<and> e \<le> UnixNano now) \<and>
            GetLease i d = Inr (l, d) \<and> GetLease i d2 = Inl ErrNotFound \<and>
            UpdateLeaseHeartbeat i at ex d2 = Inl ErrNotFound)"
proof (intro conjI impI)
  assume hb: "UpdateLeaseHeartbeat i at ex d = Inr (u, d1)" and later: "UnixNano now < UnixNano ex"
  then obtain row where "find_key lr_leaseID i (leases d) = Some row"
    by (auto simp: UpdateLeaseHeartbeat_def checkRowsAffected_def sql_count_key split: if_splits)
  moreover from this have "lr_leaseID row = i" by (auto dest: find_key_SomeD)
  ultimately show "DeleteLeaseIfExpired i now d1 = Inl ErrLeaseNotExpired" using hb later
    by (auto simp: UpdateLeaseHeartbeat_def DeleteLeaseIfExpired_def checkRowsAffected_def find_key_sql_update
        split: if_splits)
next
  assume del: "DeleteLeaseIfExpired i now d = Inr (l, d2)"
  then obtain row where row: "find_key lr_leaseID i (leases d) = Some row" "lr_expiresAt row \<le> UnixNano now"
      "l = rowToLease row"
      and d2: "d2 = d\<lparr>leases := sql_delete (\<lambda>r. lr_leaseID r = i \<and> lr_expiresAt r \<le> UnixNano now) (leases d)\<rparr>"
    by (auto simp: DeleteLeaseIfExpired_def Let_def split: option.splits if_splits)
  have gone: "find_key lr_leaseID i (leases d2) = None"
    using assms row d2 by (simp add: wf_db_def find_key_sql_delete) (auto dest: find_key_SomeD)
  show "\<exists>e. l_ExpiresAt l = Some e \<and> e \<le> UnixNano now" "GetLease i d = Inr (l, d)" using row by (auto simp: GetLease_def)
  show "GetLease i d2 = Inl ErrNotFound" using gone by (simp add: GetLease_def)
  show "UpdateLeaseHeartbeat i at ex d2 = Inl ErrNotFound"
    using gone by (simp add: UpdateLeaseHeartbeat_def checkRowsAffected_def sql_count_key)
qed

theorem expiry_excludes_heartbeat_witness:
  "DeleteLeaseIfExpired ''l'' 6 sample_db = Inr (rowToLease sample_lease, sample_db\<lparr>leases := []\<rparr>) \<and>
   GetLease ''l'' (sample_db\<lparr>leases := []\<rparr>) = Inl ErrNotFound"
proof -
  have wf: "wf_db sample_db"
    by (simp add: wf_db_def sample_db_def empty_db_def sample_vm_def sample_host_def sample_lease_def)
  have "DeleteLeaseIfExpired ''l'' 6 sample_db = Inr (rowToLease sample_lease, sample_db\<lparr>leases := []\<rparr>)"
    by (simp add: DeleteLeaseIfExpired_def sample_db_def sample_lease_def UnixNano_def in_int64_def sql_delete_def)
  with expiry_excludes_heartbeat [OF wf, of "''l''" 7 9 _ _ 6 "rowToLease sample_lease" "sample_db\<lparr>leases := []\<rparr>"]
  show ?thesis by blast
qed

end
