(* ===== verification/Store_Hosts.thy ===== *)
theory Store_Hosts
  imports Store_Props
begin

text \<open>
  Hosts, placements and the bulk transactions: registration and removal of a host exclude
  placements on it, a drain and a pool's deletion mark exactly the VMs they should, and what
  a create wrote a get reads back.
\<close>

section \<open>Placements are on registered hosts\<close>

text \<open>The transactions that touch neither hosts nor placements.\<close>

lemma frame_pools:
  "CreatePool C p d = Inr (u, d') \<Longrightarrow> hosts d' = hosts d \<and> placements d' = placements d"
  "UpdatePool C p d = Inr (u, d') \<Longrightarrow> hosts d' = hosts d \<and> placements d' = placements d"
  "DeletePool name ns d = Inr (u, d') \<Longrightarrow> hosts d' = hosts d \<and> placements d' = placements d"
  by (auto simp: CreatePool_def UpdatePool_def DeletePool_def checkRowsAffected_def Let_def
      split: sum.splits if_splits)

lemma frame_delete_pool:
  "DeletePoolAndMarkVMs now name ns force d = Inr (marked, d') \<Longrightarrow> hosts d' = hosts d \<and> placements d' = placements d"
  by (auto simp: DeletePoolAndMarkVMs_def Let_def split: sum.splits if_splits dest!: frame_pools(3))

lemma frame_vms:
  "CreateVM v d = Inr (u, d') \<Longrightarrow> hosts d' = hosts d \<and> placements d' = placements d"
  "updateVM_exec v d = Inr (n, d') \<Longrightarrow> hosts d' = hosts d \<and> placements d' = placements d"
  "DeleteVM uid d = Inr (u, d') \<Longrightarrow> hosts d' = hosts d \<and> placements d' = placements d"
  "DeleteVMCheckingPool uid d = Inr (b, d') \<Longrightarrow> hosts d' = hosts d \<and> placements d' = placements d"
  by (auto simp: CreateVM_def updateVM_exec_def DeleteVM_def DeleteVMCheckingPool_def checkRowsAffected_def Let_def
      split: sum.splits if_splits option.splits)

lemma frame_claim:
  "ClaimAvailableVM pick now name ns d = Inr (v, d') \<Longrightarrow> hosts d' = hosts d \<and> placements d' = placements d"
  by (auto simp: ClaimAvailableVM_def Let_def split: if_splits option.splits)

lemma frame_leases:
  "insertLease l d = Inr (u, d') \<Longrightarrow> hosts d' = hosts d \<and> placements d' = placements d"
  "UpdateLeaseHeartbeat i at ex d = Inr (u, d') \<Longrightarrow> hosts d' = hosts d \<and> placements d' = placements d"
  "DeleteLease i d = Inr (u, d') \<Longrightarrow> hosts d' = hosts d \<and> placements d' = placements d"
  "DeleteLeaseIfExpired i now d = Inr (l', d') \<Longrightarrow> hosts d' = hosts d \<and> placements d' = placements d"
  by (auto simp: insertLease_def UpdateLeaseHeartbeat_def DeleteLease_def DeleteLeaseIfExpired_def
      checkRowsAffected_def Let_def split: sum.splits if_splits option.splits)

lemma frame_LeaseVM:
  "LeaseVM v l d = Inr (u, d') \<Longrightarrow> hosts d' = hosts d \<and> placements d' = placements d"
  by (auto simp: LeaseVM_def split: sum.splits dest!: updateVM_InrD frame_vms(2) frame_leases(1))

lemma frame_AppendEvent:
  "AppendEvent e d = Inr (i, d') \<Longrightarrow> hosts d' = hosts d \<and> placements d' = placements d"
  by (auto simp: AppendEvent_def Let_def split: sum.splits)

lemma frame_MarkDraining:
  "MarkDrainingHostsVMsDeleting now d = Inr (marked, d') \<Longrightarrow> hosts d' = hosts d \<and> placements d' = placements d"
  by (auto simp: MarkDrainingHostsVMsDeleting_def markUnleasedVMsDeleting_def Let_def)

lemmas host_frames = frame_pools frame_delete_pool frame_vms frame_claim frame_leases frame_LeaseVM
  frame_AppendEvent frame_MarkDraining

lemma hosted_frame: "hosts d' = hosts d \<and> placements d' = placements d \<Longrightarrow> placements_hosted d \<Longrightarrow> placements_hosted d'"
  by (simp add: placements_hosted_def)

text \<open>The transactions that do: the set of host names decides.\<close>

lemma placements_hosted_names:
  "placements_hosted d = (pl_host ` set (placements d) \<subseteq> hr_name ` set (hosts d))"
  unfolding placements_hosted_def by (rule all_referenced)

lemma hosted_same_names:
  "map hr_name (hosts d') = map hr_name (hosts d) \<Longrightarrow> placements d' = placements d \<Longrightarrow>
   placements_hosted d \<Longrightarrow> placements_hosted d'"
  unfolding placements_hosted_names by (metis list.set_map)

lemma names_UpdateHost: "UpdateHost_exec now h d = Inr (u, d') \<Longrightarrow>
    map hr_name (hosts d') = map hr_name (hosts d) \<and> placements d' = placements d"
  by (auto simp: UpdateHost_exec_def checkRowsAffected_def map_key_sql_update Let_def split: if_splits)

lemma names_SetHostCordoned: "SetHostCordoned_exec now name b reason d = Inr (u, d') \<Longrightarrow>
    map hr_name (hosts d') = map hr_name (hosts d) \<and> placements d' = placements d"
  by (auto simp: SetHostCordoned_exec_def checkRowsAffected_def map_key_sql_update Let_def split: if_splits)

lemma names_DrainHost: "DrainHost now now' name reason d = Inr (r, d') \<Longrightarrow>
    map hr_name (hosts d') = map hr_name (hosts d) \<and> placements d' = placements d"
  by (auto simp: DrainHost_def checkRowsAffected_def markUnleasedVMsDeleting_def map_key_sql_update Let_def
      split: if_splits sum.splits option.splits)

lemmas host_names = names_UpdateHost names_SetHostCordoned names_DrainHost

lemma hosted_CreateHost: "CreateHost h d = Inr (u, d') \<Longrightarrow> placements_hosted d \<Longrightarrow> placements_hosted d'"
  by (auto simp: CreateHost_def placements_hosted_names image_subset_iff split: sum.splits if_splits)

lemma hostLoad_zero: "(hostLoad name d \<le> 0) =
    ((\<forall>r \<in> set (vms d). vr_flintlockHost r \<noteq> name) \<and> (\<forall>p \<in> set (placements d). pl_host p \<noteq> name))"
proof -
  have "(hostLoad name d \<le> 0) = (sql_count (\<lambda>r. vr_flintlockHost r = name) (vms d) = 0 \<and>
      sql_count (\<lambda>r. pl_host r = name) (placements d) = 0)"
    using sql_count_nonneg [of "\<lambda>r. vr_flintlockHost r = name" "vms d"]
      sql_count_nonneg [of "\<lambda>r. pl_host r = name" "placements d"] unfolding hostLoad_def by linarith
  then show ?thesis by (simp add: sql_count_zero)
qed

lemma DeleteHost_Inr: "DeleteHost name d = Inr (u, d') \<Longrightarrow>
    find_key hr_name name (hosts d) \<noteq> None \<and> poolsNamingHost name d = [] \<and> hostLoad name d \<le> 0 \<and>
    d' = d\<lparr>hosts := sql_delete (\<lambda>r. hr_name r = name) (hosts d)\<rparr>"
  by (auto simp: DeleteHost_def scan_int32_def Let_def split: if_splits sum.splits)

lemma hosted_DeleteHost: "DeleteHost name d = Inr (u, d') \<Longrightarrow> placements_hosted d \<Longrightarrow> placements_hosted d'"
  by (drule DeleteHost_Inr) (fastforce simp: placements_hosted_def hostLoad_zero set_sql_delete)

lemma hosted_ReservePlacement:
  "ReservePlacement now i host name ns d = Inr (u, d') \<Longrightarrow> placements_hosted d \<Longrightarrow> placements_hosted d'"
  unfolding ReservePlacement_def placements_hosted_def
  by (fastforce split: option.splits if_splits dest!: find_key_SomeD)

lemma hosted_ReleasePlacement: "ReleasePlacement i d = Inr (u, d') \<Longrightarrow> placements_hosted d \<Longrightarrow> placements_hosted d'"
  by (auto simp: ReleasePlacement_def placements_hosted_def set_sql_delete)

lemma hosted_ClearPlacements: "ClearPlacements d = Inr (u, d') \<Longrightarrow> placements_hosted d \<Longrightarrow> placements_hosted d'"
  by (auto simp: ClearPlacements_def placements_hosted_def)

lemma store_step_hosted: "store_step C d d' \<Longrightarrow> placements_hosted d \<Longrightarrow> placements_hosted d'"
  by (induction rule: store_step.induct)
    (auto simp: CreateLease_def dest: host_frames host_names
      intro: hosted_frame hosted_same_names hosted_CreateHost hosted_DeleteHost hosted_ReservePlacement
        hosted_ReleasePlacement hosted_ClearPlacements)

lemma store_steps_hosted: "store_steps C d d' \<Longrightarrow> placements_hosted d \<Longrightarrow> placements_hosted d'"
  by (induction rule: rtranclp_induct) (auto intro: store_step_hosted)

section \<open>Registration, placements and removal\<close>

text \<open>C15: a host is removed only when nothing refers to it, and a reservation keeps it. In every
  reachable database each placement is on a registered host; \<open>DeleteHost\<close> succeeds only if no
  pool names the host, no VM is recorded on it and no placement is reserved on it, and then no
  further placement can be reserved there; a reserved placement makes \<open>DeleteHost\<close> fail.\<close>

theorem host_removal_excludes_placement:
  assumes "store_steps C empty_db d"
  shows "placements_hosted d \<and>
    (DeleteHost name d = Inr (u, d') \<longrightarrow>
       poolsNamingHost name d = [] \<and> (\<forall>r \<in> set (vms d). vr_flintlockHost r \<noteq> name) \<and>
       (\<forall>p \<in> set (placements d'). pl_host p \<noteq> name) \<and>
       ReservePlacement now i name pn pns d' = Inl ErrHostNotRegistered) \<and>
    (ReservePlacement now i name pn pns d = Inr (u, d') \<longrightarrow> \<not> is_ok (DeleteHost name d'))"
proof (intro conjI impI)
  show "placements_hosted d"
    using store_steps_hosted [OF assms] by (simp add: placements_hosted_def empty_db_def)
next
  assume "DeleteHost name d = Inr (u, d')"
  note del = DeleteHost_Inr [OF this]
  show "poolsNamingHost name d = []" using del by blast
  show "\<forall>r \<in> set (vms d). vr_flintlockHost r \<noteq> name" "\<forall>p \<in> set (placements d'). pl_host p \<noteq> name"
    using del by (simp_all add: hostLoad_zero)
  show "ReservePlacement now i name pn pns d' = Inl ErrHostNotRegistered"
    using del by (simp add: ReservePlacement_def find_key_sql_delete_key)
next
  assume "ReservePlacement now i name pn pns d = Inr (u, d')"
  then have "\<exists>p \<in> set (placements d'). pl_host p = name"
    by (auto simp: ReservePlacement_def split: option.splits if_splits)
  then have "\<not> hostLoad name d' \<le> 0" by (auto simp: hostLoad_zero)
  then show "\<not> is_ok (DeleteHost name d')" using DeleteHost_Inr [of name d'] by (auto elim!: is_okE)
qed

theorem host_removal_excludes_placement_witness:
  "\<not> is_ok (DeleteHost ''h'' (empty_db\<lparr>hosts := [sample_host], placements :=
     [\<lparr>pl_id = ''i'', pl_host = ''h'', pl_poolName = ''p'', pl_poolNamespace = ''ns'', pl_createdAt = 3\<rparr>]\<rparr>))"
proof -
  have "CreateHost (rowToHost sample_host) empty_db = Inr ((), empty_db\<lparr>hosts := [sample_host]\<rparr>)"
    by (simp add: CreateHost_def hostToRow_def rowToHost_def sample_host_def empty_db_def requireTimestamp_def
        h_GetTls_def UnixNano_def in_int64_def)
  then have "store_step undefined empty_db (empty_db\<lparr>hosts := [sample_host]\<rparr>)" by (rule step_CreateHost)
  then have reach: "store_steps undefined empty_db (empty_db\<lparr>hosts := [sample_host]\<rparr>)" by blast
  have "ReservePlacement 3 ''i'' ''h'' ''p'' ''ns'' (empty_db\<lparr>hosts := [sample_host]\<rparr>) =
    Inr ((), empty_db\<lparr>hosts := [sample_host], placements :=
     [\<lparr>pl_id = ''i'', pl_host = ''h'', pl_poolName = ''p'', pl_poolNamespace = ''ns'', pl_createdAt = 3\<rparr>]\<rparr>)"
    by (simp add: ReservePlacement_def sample_host_def empty_db_def)
  with host_removal_excludes_placement [OF reach, of "''h''" "()" _ 3 "''i''" "''p''" "''ns''"] show ?thesis by blast
qed

section \<open>Draining a host\<close>

lemma drained_unleased: "\<not> unleased (r\<lparr>vr_phase := DELETING, vr_leaseID := None, vr_updatedAt := t\<rparr>)"
  by (simp add: unleased_def)

lemma hosts_SetHostCordoned:
  "SetHostCordoned_exec now name b reason d = Inr (u, d') \<Longrightarrow>
   find_key hr_name name (hosts d') =
     map_option (\<lambda>r. r\<lparr>hr_cordoned := b, hr_cordonedReason := (if b \<and> reason \<noteq> [] then Some reason else None),
        hr_cordonedAt := (if b then Some now else None), hr_updatedAt := now,
        hr_draining := (b \<and> hr_draining r), hr_drainingAt := (if b then hr_drainingAt r else None)\<rparr>)
      (find_key hr_name name (hosts d))"
  by (cases "find_key hr_name name (hosts d)")
    (auto simp: SetHostCordoned_exec_def checkRowsAffected_def find_key_sql_update Let_def sql_count_key
      split: if_splits dest: find_key_SomeD)

abbreviation drain_row :: "int \<Rightarrow> string \<Rightarrow> hostRow \<Rightarrow> hostRow" where
  "drain_row now reason r \<equiv>
     r\<lparr>hr_cordonedReason := (case if reason \<noteq> [] then Some reason else None of None \<Rightarrow> hr_cordonedReason r | Some x \<Rightarrow> Some x),
       hr_cordonedAt := (if hr_cordoned r then hr_cordonedAt r else Some now), hr_cordoned := True,
       hr_drainingAt := (if hr_draining r then hr_drainingAt r else Some now), hr_draining := True,
       hr_updatedAt := now\<rparr>"

abbreviation deleting_row :: "int \<Rightarrow> vmRow \<Rightarrow> vmRow" where
  "deleting_row now r \<equiv> r\<lparr>vr_phase := DELETING, vr_leaseID := None, vr_updatedAt := now\<rparr>"

lemma DrainHost_eq:
  "DrainHost now now' name reason d =
     (case find_key hr_name name (hosts d) of None \<Rightarrow> Inl ErrNotFound
      | Some old \<Rightarrow> Inr ((rowToHost (drain_row now reason old),
          sort_key vm_Uid (map (rowToVM \<circ> deleting_row now') (filter (\<lambda>r. vr_flintlockHost r = name \<and> unleased r) (vms d)))),
          d\<lparr>hosts := sql_update (\<lambda>r. hr_name r = name) (drain_row now reason) (hosts d),
            vms := sql_update (\<lambda>r. vr_flintlockHost r = name \<and> unleased r) (deleting_row now') (vms d)\<rparr>))"
proof (cases "find_key hr_name name (hosts d)")
  case None
  then show ?thesis by (simp add: DrainHost_def checkRowsAffected_def sql_count_key Let_def)
next
  case (Some old)
  then have "hr_name old = name" by (auto dest: find_key_SomeD)
  with Some show ?thesis
    by (simp add: DrainHost_def checkRowsAffected_def sql_count_key find_key_sql_update
        markUnleasedVMsDeleting_def Let_def)
qed

lemma no_unleased_after_mark:
  "filter (\<lambda>r. p r \<and> unleased r) (sql_update (\<lambda>r. p r \<and> unleased r) (deleting_row t) rows) = []"
  by (induction rows) (auto simp: sql_update_def unleased_def)

lemma sql_update_empty: "filter p rows = [] \<Longrightarrow> sql_update p f rows = rows"
  by (rule sql_update_none) (metis filter_empty_conv)

lemma filter_other_update:
  "(\<And>r. p r \<Longrightarrow> \<not> q r \<and> \<not> q (f r)) \<Longrightarrow> filter q (sql_update p f rows) = filter q rows"
  by (induction rows) (auto simp: sql_update_def)

text \<open>C17: draining a host leaves it cordoned and draining, marks DELETING (and clears the lease id
  of) exactly the VMs on it that are neither leased nor being leased nor already DELETING,
  returns exactly those, sorted by uid, and leaves every other VM, every lease and every other
  host alone. Draining again marks nothing.\<close>

theorem DrainHost_marks_unleased:
  assumes "DrainHost now now' name reason d = Inr ((h, marked), d')"
  shows "h_Cordoned h \<and> h_Draining h \<and> h_Name h = name \<and>
    set marked = {rowToVM (r\<lparr>vr_phase := DELETING, vr_leaseID := None, vr_updatedAt := now'\<rparr>) | r.
                    r \<in> set (vms d) \<and> vr_flintlockHost r = name \<and> unleased r} \<and>
    sorted (map vm_Uid marked) \<and>
    vms d' = map (\<lambda>r. if vr_flintlockHost r = name \<and> unleased r
                      then r\<lparr>vr_phase := DELETING, vr_leaseID := None, vr_updatedAt := now'\<rparr> else r) (vms d) \<and>
    leases d' = leases d \<and> filter (\<lambda>r. hr_name r \<noteq> name) (hosts d') = filter (\<lambda>r. hr_name r \<noteq> name) (hosts d) \<and>
    (\<exists>h2 d2. DrainHost t t' name reason2 d' = Inr ((h2, []), d2) \<and> vms d2 = vms d')"
proof -
  let ?m = "\<lambda>r. vr_flintlockHost r = name \<and> unleased r"
  obtain old where old: "find_key hr_name name (hosts d) = Some old" "hr_name old = name"
    using assms by (auto simp: DrainHost_eq split: option.splits dest: find_key_SomeD)
  have h: "h = rowToHost (drain_row now reason old)"
    and marked: "marked = sort_key vm_Uid (map (rowToVM \<circ> deleting_row now') (filter ?m (vms d)))"
    and d': "d' = d\<lparr>hosts := sql_update (\<lambda>r. hr_name r = name) (drain_row now reason) (hosts d),
                    vms := sql_update ?m (deleting_row now') (vms d)\<rparr>"
    using assms old(1) by (simp_all add: DrainHost_eq)
  have "find_key hr_name name (hosts d') = Some (drain_row now reason old)"
    using old d' by (simp add: find_key_sql_update)
  moreover have "filter ?m (vms d') = []" using d' by (simp add: no_unleased_after_mark)
  ultimately have again: "DrainHost t t' name reason2 d' = Inr ((rowToHost (drain_row t reason2 (drain_row now reason old)), []),
      d'\<lparr>hosts := sql_update (\<lambda>r. hr_name r = name) (drain_row t reason2) (hosts d'), vms := vms d'\<rparr>)"
    by (simp add: DrainHost_eq sql_update_empty)
  have "set marked = {rowToVM (deleting_row now' r) | r. r \<in> set (vms d) \<and> vr_flintlockHost r = name \<and> unleased r}"
    using marked by auto
  moreover have "sorted (map vm_Uid marked)" using marked by simp
  moreover have "vms d' = map (\<lambda>r. if ?m r then deleting_row now' r else r) (vms d)" "leases d' = leases d"
    using d' by (simp_all add: sql_update_def)
  moreover have "filter (\<lambda>r. hr_name r \<noteq> name) (hosts d') = filter (\<lambda>r. hr_name r \<noteq> name) (hosts d)"
    using d' by (simp add: filter_other_update)
  moreover have "h_Cordoned h" "h_Draining h" "h_Name h = name" using h old by simp_all
  moreover have "\<exists>h2 d2. DrainHost t t' name reason2 d' = Inr ((h2, []), d2) \<and> vms d2 = vms d'"
    using again by simp
  ultimately show ?thesis by blast
qed

theorem DrainHost_marks_unleased_witness:
  "\<exists>h marked d'. DrainHost 7 8 ''h'' ''why'' sample_db = Inr ((h, marked), d') \<and> h_Cordoned h \<and>
     vms d' = [(sample_vm ''v1'' DELETING)\<lparr>vr_updatedAt := 8\<rparr>, (sample_vm ''v2'' DELETING)\<lparr>vr_updatedAt := 8\<rparr>,
               sample_vm ''v3'' LEASED]"
proof -
  obtain h marked d' where r: "DrainHost 7 8 ''h'' ''why'' sample_db = Inr ((h, marked), d')"
    by (simp add: DrainHost_eq sample_db_def sample_host_def)
  from DrainHost_marks_unleased [OF r] have "h_Cordoned h"
    "vms d' = map (\<lambda>r. if vr_flintlockHost r = ''h'' \<and> unleased r
                then r\<lparr>vr_phase := DELETING, vr_leaseID := None, vr_updatedAt := 8\<rparr> else r) (vms sample_db)" by blast+
  then show ?thesis using r by (auto simp: sample_db_def sample_vm_def unleased_def)
qed

section \<open>Deleting a pool\<close>

text \<open>\<open>DeletePoolAndMarkVMs\<close> removes exactly the pool's row and its leases, marks every VM
  of the pool DELETING without a lease and returns exactly those VMs; it refuses, and changes
  nothing, when the pool has leased VMs and is not forced, and reports an unknown pool.\<close>

theorem DeletePoolAndMarkVMs_outcomes:
  "DeletePoolAndMarkVMs now name ns force d =
     (if \<forall>r \<in> set (pools d). pool_key r \<noteq> (name, ns) then Inl ErrNotFound
      else if \<not> force \<and> (\<exists>r \<in> set (vms d). vm_in_pool name ns r \<and> vr_phase r \<in> {LEASED, PRE_LEASE_HOOK_RUNNING})
      then Inl ErrPoolHasLeasedVMs
      else
        let marked = map (\<lambda>r. if vm_in_pool name ns r then deleting_row now r else r) (vms d) in
        Inr (map rowToVM (sort_key vr_uid (filter (vm_in_pool name ns) marked)),
             d\<lparr>pools := filter (\<lambda>r. pool_key r \<noteq> (name, ns)) (pools d), vms := marked,
               leases := filter (\<lambda>r. \<not> lease_in_pool name ns r) (leases d)\<rparr>))"
  by (simp add: DeletePoolAndMarkVMs_def DeletePool_def checkRowsAffected_def sql_count_zero sql_count_pos
      sql_delete_def sql_update_def Let_def)

theorem DeletePoolAndMarkVMs_outcomes_witness:
  "DeletePoolAndMarkVMs 9 ''p'' ''ns'' True sample_db = Inl ErrNotFound"
  by (subst DeletePoolAndMarkVMs_outcomes) (simp add: sample_db_def empty_db_def)

end
