(* ===== verification/Store_Roundtrip.thy ===== *)
theory Store_Roundtrip
  imports Store_Hosts
begin

text \<open>
  What a create wrote, a get reads back: the round trips through the rows of
  \<^verbatim>\<open>src/internal/store/convert.go\<close>, for pools (with protojson as a parameter), VMs, leases and
  hosts.
\<close>

section \<open>Definitions\<close>

text \<open>Timestamps that survive the conversion to \<open>int64\<close> nanoseconds.\<close>

fun time_ok :: "Timestamp option \<Rightarrow> bool" where
  "time_ok None = True"
| "time_ok (Some t) = in_int64 t"

text \<open>A concrete codec, for the templates and strategies of the examples: it writes the one
  template and the one strategy it knows.\<close>

definition sample_template :: MicroVMSpec where
  "sample_template = empty_MicroVMSpec\<lparr>mv_Id := ''vm'', mv_AllowGuestAgent := True\<rparr>"

definition sample_strategy :: ReplenishmentStrategy where
  "sample_strategy = \<lparr>rs_Type = MIN_SIZE_THRESHOLD, rs_MinSize = Some 2\<rparr>"

definition sample_pool :: PoolSpec where
  "sample_pool = \<lparr>ps_Name = ''p'', ps_Namespace = ''ns'', ps_MicrovmTemplate = Some sample_template, ps_Size = 3,
     ps_FlintlockHosts = [''h''], ps_ReplenishmentStrategy = Some sample_strategy, ps_CreateCommands = [''true''],
     ps_PreLeaseCommands = [], ps_HookFailurePolicy = DELETE_AND_REPLACE,
     ps_HeartbeatInterval = Some 10, ps_HeartbeatExpiryThreshold = Some 30\<rparr>"

definition sample_codec :: protojson where
  "sample_codec = \<lparr>pj_MarshalTemplate = (\<lambda>m. if m = Some sample_template then Some ''t'' else None),
     pj_UnmarshalTemplate = (\<lambda>s. if s = ''t'' then Some sample_template else None),
     pj_MarshalStrategy = (\<lambda>m. if m = Some sample_strategy then Some ''s'' else None),
     pj_UnmarshalStrategy = (\<lambda>s. if s = ''s'' then Some sample_strategy else None)\<rparr>"

text \<open>What protojson guarantees of the two messages of one pool.\<close>

definition codec_reads_back :: "protojson \<Rightarrow> PoolSpec \<Rightarrow> bool" where
  "codec_reads_back C p \<longleftrightarrow>
     (case pj_MarshalTemplate C (ps_MicrovmTemplate p) of None \<Rightarrow> True
      | Some s \<Rightarrow> pj_UnmarshalTemplate C s = ps_MicrovmTemplate p \<and> ps_MicrovmTemplate p \<noteq> None) \<and>
     (case pj_MarshalStrategy C (ps_ReplenishmentStrategy p) of None \<Rightarrow> True
      | Some s \<Rightarrow> pj_UnmarshalStrategy C s = ps_ReplenishmentStrategy p \<and> ps_ReplenishmentStrategy p \<noteq> None)"

section \<open>Rows\<close>

lemma rowToPool_poolToRow:
  assumes "poolToRow C p = Inr row" and "codec_reads_back C p"
  shows "rowToPool C row = Inr p"
  using assms
  by (auto simp: poolToRow_def rowToPool_def requireDuration_def codec_reads_back_def split: option.splits)

lemma rowToVM_vmToRow:
  "vmToRow v = Inr row \<Longrightarrow> time_ok (vm_CreatedAt v) \<Longrightarrow> time_ok (vm_UpdatedAt v) \<Longrightarrow> rowToVM row = v"
  by (auto simp: vmToRow_def rowToVM_def requireTimestamp_def UnixNano_def split: option.splits)

lemma rowToLease_leaseToRow:
  "leaseToRow l = Inr row \<Longrightarrow> time_ok (l_ClaimedAt l) \<Longrightarrow> time_ok (l_LastHeartbeatAt l) \<Longrightarrow>
   time_ok (l_ExpiresAt l) \<Longrightarrow> rowToLease row = l"
  by (cases l; cases "l_RequestId l = []")
    (auto simp: leaseToRow_def rowToLease_def requireTimestamp_def UnixNano_def split: option.splits if_splits)

lemma map_UnixNano: "time_ok t \<Longrightarrow> map_option UnixNano t = t"
  by (cases t) (auto simp: UnixNano_def)

lemma rowToHost_hostToRow:
  assumes "hostToRow h = Inr row" "time_ok (h_CordonedAt h)" "time_ok (h_UpdatedAt h)" "time_ok (h_DrainingAt h)"
  shows "rowToHost row = h\<lparr>h_Tls := Some (h_GetTls h)\<rparr>"
proof -
  obtain u where u: "h_UpdatedAt h = Some u" "UnixNano u = u"
    using assms(1,3) by (auto simp: hostToRow_def requireTimestamp_def UnixNano_def split: option.splits)
  show ?thesis using assms u by (cases h) (auto simp: hostToRow_def rowToHost_def requireTimestamp_def map_UnixNano)
qed

lemma find_last: "(\<forall>r \<in> set xs. \<not> P r) \<Longrightarrow> P x \<Longrightarrow> find P (xs @ [x]) = Some x"
  by (induction xs) auto

lemma UpdatePool_row:
  assumes "UpdatePool C p d = Inr (u, d')" "poolToRow C p = Inr row"
  shows "find_key pool_key k (pools d') = (if k = (ps_Name p, ps_Namespace p) then Some row else find_key pool_key k (pools d))"
proof -
  let ?m = "\<lambda>r. pr_name r = pr_name row \<and> pr_namespace r = pr_namespace row"
  note key = poolToRow_Inr [OF assms(2)]
  have m: "?m = (\<lambda>r. pool_key r = (ps_Name p, ps_Namespace p))" using key by auto
  have "sql_count ?m (pools d) \<noteq> 0"
    using assms by (auto simp: UpdatePool_def checkRowsAffected_def Let_def split: if_splits)
  then obtain old where old: "find_key pool_key (ps_Name p, ps_Namespace p) (pools d) = Some old"
    unfolding m sql_count_key by blast
  then have "?m old" using key by (auto dest: find_key_SomeD)
  moreover have "\<not> ?m r" if "find_key pool_key k (pools d) = Some r" "k \<noteq> (ps_Name p, ps_Namespace p)" for r
    using find_key_SomeD [OF that(1)] that(2) key by auto
  ultimately show ?thesis using assms old key
    by (cases "find_key pool_key k (pools d)") (auto simp: UpdatePool_def checkRowsAffected_def find_key_sql_update Let_def split: if_splits)
qed

section \<open>Properties\<close>



text \<open>C19: a stored lease is read back by its id and, when it has one, by its request id; a stored
  VM by its uid; a stored host by its name, with a missing TLS message read as the empty one.\<close>

theorem record_roundtrips:
  "(wf_db d \<and> insertLease l d = Inr (u, d1) \<and> time_ok (l_ClaimedAt l) \<and> time_ok (l_LastHeartbeatAt l) \<and> time_ok (l_ExpiresAt l)
      \<longrightarrow> GetLease (l_LeaseId l) d1 = Inr (l, d1) \<and>
          (l_RequestId l \<noteq> [] \<longrightarrow> GetLeaseByRequestID (l_RequestId l) d1 = Inr (l, d1))) \<and>
   (CreateVM v d = Inr (u, d2) \<and> time_ok (vm_CreatedAt v) \<and> time_ok (vm_UpdatedAt v)
      \<longrightarrow> GetVM (vm_Uid v) d2 = Inr (v, d2)) \<and>
   (CreateHost h d = Inr (u, d3) \<and> time_ok (h_CordonedAt h) \<and> time_ok (h_UpdatedAt h) \<and> time_ok (h_DrainingAt h)
      \<longrightarrow> GetHost (h_Name h) d3 = Inr (h\<lparr>h_Tls := Some (h_GetTls h)\<rparr>, d3))"
proof (intro conjI impI; elim conjE)
  assume ins: "insertLease l d = Inr (u, d1)" and t: "time_ok (l_ClaimedAt l)"
    "time_ok (l_LastHeartbeatAt l)" "time_ok (l_ExpiresAt l)"
  from ins obtain row where row: "leaseToRow l = Inr row" "d1 = d\<lparr>leases := leases d @ [row]\<rparr>"
      "find_key lr_leaseID (lr_leaseID row) (leases d) = None"
      "lr_requestID row = None \<or> (\<forall>r \<in> set (leases d). lr_requestID r \<noteq> lr_requestID row)"
    by (auto simp: insertLease_def split: sum.splits if_splits)
  have rd: "rowToLease row = l" using row(1) t by (rule rowToLease_leaseToRow)
  note key = leaseToRow_Inr [OF row(1)]
  show "GetLease (l_LeaseId l) d1 = Inr (l, d1)"
    using row(2,3) rd key by (auto simp: GetLease_def find_key_append)
  assume "l_RequestId l \<noteq> []"
  then have "find (\<lambda>r. lr_requestID r = Some (l_RequestId l)) (leases d @ [row]) = Some row"
    using row(4) key by (intro find_last) auto
  then show "GetLeaseByRequestID (l_RequestId l) d1 = Inr (l, d1)"
    using row(2) rd by (simp add: GetLeaseByRequestID_def)
next
  assume "CreateVM v d = Inr (u, d2)" "time_ok (vm_CreatedAt v)" "time_ok (vm_UpdatedAt v)"
  then show "GetVM (vm_Uid v) d2 = Inr (v, d2)"
    by (auto simp: CreateVM_def GetVM_def find_key_append split: sum.splits if_splits dest: vmToRow_Inr rowToVM_vmToRow)
next
  assume "CreateHost h d = Inr (u, d3)" "time_ok (h_CordonedAt h)" "time_ok (h_UpdatedAt h)" "time_ok (h_DrainingAt h)"
  then obtain row where "hostToRow h = Inr row" "d3 = d\<lparr>hosts := hosts d @ [row]\<rparr>"
      "find_key hr_name (hr_name row) (hosts d) = None" "rowToHost row = h\<lparr>h_Tls := Some (h_GetTls h)\<rparr>"
    using rowToHost_hostToRow by (auto simp: CreateHost_def split: sum.splits if_splits)
  then show "GetHost (h_Name h) d3 = Inr (h\<lparr>h_Tls := Some (h_GetTls h)\<rparr>, d3)"
    using hostToRow_Inr [of h row] by (auto simp: GetHost_def find_key_append)
qed

theorem record_roundtrips_witness:
  "CreateVM (rowToVM (sample_vm ''v4'' AVAILABLE)) sample_db =
     Inr ((), sample_db\<lparr>vms := vms sample_db @ [sample_vm ''v4'' AVAILABLE]\<rparr>) \<and>
   GetVM ''v4'' (sample_db\<lparr>vms := vms sample_db @ [sample_vm ''v4'' AVAILABLE]\<rparr>) =
     Inr (rowToVM (sample_vm ''v4'' AVAILABLE), sample_db\<lparr>vms := vms sample_db @ [sample_vm ''v4'' AVAILABLE]\<rparr>)"
proof -
  let ?v = "rowToVM (sample_vm ''v4'' AVAILABLE)" and ?d = "sample_db\<lparr>vms := vms sample_db @ [sample_vm ''v4'' AVAILABLE]\<rparr>"
  have "CreateVM ?v sample_db = Inr ((), ?d)"
    by (simp add: CreateVM_def vmToRow_def requireTimestamp_def UnixNano_def in_int64_def sample_vm_def sample_db_def)
  moreover have "time_ok (vm_CreatedAt ?v)" "time_ok (vm_UpdatedAt ?v)" by (simp_all add: sample_vm_def in_int64_def)
  ultimately have "GetVM (vm_Uid ?v) ?d = Inr (?v, ?d)"
    using record_roundtrips [where v = ?v and d = sample_db and u = "()" and ?d2.0 = ?d] by blast
  then show ?thesis using \<open>CreateVM ?v sample_db = _\<close> by (simp add: sample_vm_def)
qed

end
