(* ===== verification/Flint.thy ===== *)
theory Flint
  imports Types
begin

text \<open>
  Model of \<^verbatim>\<open>src/internal/flintlockclient\<close>: the connections to the flintlock hosts
  (\<^verbatim>\<open>pool.go\<close>), the version check (\<^verbatim>\<open>version.go\<close>) and command execution
  (\<^verbatim>\<open>exec.go\<close>). A connection is the record of what the code keeps about it; the gRPC
  library, the file system and TLS libraries, \<^verbatim>\<open>golang.org/x/mod/semver\<close> and flintlock
  itself are parameters: the record \<open>dialer\<close> and \<open>semver\<close>, and the responses passed to
  \<open>Exec\<close> and \<open>CheckVersion\<close>.
\<close>

section \<open>Definitions\<close>

subsection \<open>Connections\<close>

text \<open>gRPC status codes the code distinguishes; \<open>Unknown\<close> is any other.\<close>

datatype Code = InvalidArgument | NotFound | AlreadyExists | FailedPrecondition | Aborted
  | ResourceExhausted | Unavailable | Internal | Unimplemented | DeadlineExceeded | Canceled
  | Unauthenticated | Unknown

datatype FlintErr =
    ErrUnknownHost
  | ErrConnExists
  | ErrInvalidHost string
  | ErrCredentials string
  | ErrNewClient
  | ErrCloseConn
  | ErrUnsupportedVersion
  | ErrServerInfo Code

record Conn =
  c_name :: string
  c_address :: string
  c_version :: string
  c_versionOK :: bool

type_synonym conns = "string \<Rightarrow> Conn option"

definition validateHost :: "Host option \<Rightarrow> FlintErr option" where
  "validateHost host =
     (case host of None \<Rightarrow> Some (ErrInvalidHost ''host is required'')
      | Some h \<Rightarrow>
        if h_Name h = [] then Some (ErrInvalidHost ''name is required'')
        else if h_Address h = [] then Some (ErrInvalidHost ''address is required'')
        else
          let t = h_GetTls h in
          if tls_Insecure t then
            (if tls_CertFile t \<noteq> [] \<or> tls_KeyFile t \<noteq> [] \<or> tls_CaFile t \<noteq> []
             then Some (ErrInvalidHost ''insecure hosts must not set cert_file/key_file/ca_file'') else None)
          else if tls_CaFile t = [] then Some (ErrInvalidHost ''ca_file is required unless insecure is set'')
          else if (tls_CertFile t = []) \<noteq> (tls_KeyFile t = [])
          then Some (ErrInvalidHost ''cert_file and key_file must be set together'') else None)"

text \<open>What dialling needs from outside: reading a file, whether a PEM text holds a
  certificate, whether a certificate and key load, whether an address makes a client.\<close>

record dialer =
  d_ReadFile :: "string \<Rightarrow> string option"
  d_HasCerts :: "string \<Rightarrow> bool"
  d_LoadX509KeyPair :: "string \<Rightarrow> string \<Rightarrow> bool"
  d_NewClient :: "string \<Rightarrow> bool"

datatype Creds = InsecureCreds | TLSCreds string "(string \<times> string) option"

definition dialCredentials :: "dialer \<Rightarrow> HostTLS \<Rightarrow> FlintErr + Creds" where
  "dialCredentials D t =
     (if tls_Insecure t then Inr InsecureCreds
      else
        (case d_ReadFile D (tls_CaFile t) of None \<Rightarrow> Inl (ErrCredentials ''read ca file'')
         | Some caPEM \<Rightarrow>
           if \<not> d_HasCerts D caPEM then Inl (ErrCredentials ''no certificates found'')
           else if tls_CertFile t \<noteq> [] then
             (if d_LoadX509KeyPair D (tls_CertFile t) (tls_KeyFile t)
              then Inr (TLSCreds caPEM (Some (tls_CertFile t, tls_KeyFile t)))
              else Inl (ErrCredentials ''load client cert/key''))
           else Inr (TLSCreds caPEM None)))"

definition Dial :: "dialer \<Rightarrow> Host option \<Rightarrow> FlintErr + Conn" where
  "Dial D host =
     (case validateHost host of Some e \<Rightarrow> Inl e
      | None \<Rightarrow>
        (case host of None \<Rightarrow> Inl (ErrInvalidHost ''host is required'')
         | Some h \<Rightarrow>
           (case dialCredentials D (h_GetTls h) of Inl e \<Rightarrow> Inl e
            | Inr _ \<Rightarrow>
              if d_NewClient D (h_Address h)
              then Inr \<lparr>c_name = h_Name h, c_address = h_Address h, c_version = [], c_versionOK = False\<rparr>
              else Inl ErrNewClient)))"

text \<open>The registry of connections. \<open>closeErr\<close> says whether closing the old connection
  fails: the map has changed by then, whatever \<open>Close\<close> returns.\<close>

definition Pool_Add :: "Conn \<Rightarrow> conns \<Rightarrow> (FlintErr option) \<times> conns" where
  "Pool_Add c p = (if p (c_name c) \<noteq> None then (Some ErrConnExists, p) else (None, p(c_name c \<mapsto> c)))"

definition Pool_Update :: "bool \<Rightarrow> Conn \<Rightarrow> conns \<Rightarrow> (FlintErr option) \<times> conns" where
  "Pool_Update closeErr c p =
     (case p (c_name c) of None \<Rightarrow> (Some ErrUnknownHost, p)
      | Some old \<Rightarrow> (if closeErr then Some ErrCloseConn else None, p(c_name c \<mapsto> c)))"

definition Pool_Remove :: "bool \<Rightarrow> string \<Rightarrow> conns \<Rightarrow> (FlintErr option) \<times> conns" where
  "Pool_Remove closeErr hostName p =
     (case p hostName of None \<Rightarrow> (Some ErrUnknownHost, p)
      | Some old \<Rightarrow> (if closeErr then Some ErrCloseConn else None, p(hostName := None)))"

definition Pool_conn :: "string \<Rightarrow> conns \<Rightarrow> FlintErr + Conn" where
  "Pool_conn hostName p = (case p hostName of None \<Rightarrow> Inl ErrUnknownHost | Some c \<Rightarrow> Inr c)"

definition Pool_Address :: "string \<Rightarrow> conns \<Rightarrow> FlintErr + string" where
  "Pool_Address hostName p = (case Pool_conn hostName p of Inl e \<Rightarrow> Inl e | Inr c \<Rightarrow> Inr (c_address c))"

text \<open>\<open>New\<close>: dial and add every host, stopping at the first error.\<close>

fun Pool_New_from :: "dialer \<Rightarrow> Host list \<Rightarrow> conns \<Rightarrow> FlintErr + conns" where
  "Pool_New_from D [] p = Inr p"
| "Pool_New_from D (host # rest) p =
     (case Dial D (Some host) of Inl e \<Rightarrow> Inl e
      | Inr c \<Rightarrow> (case Pool_Add c p of (Some e, _) \<Rightarrow> Inl e | (None, p') \<Rightarrow> Pool_New_from D rest p'))"

definition Pool_New :: "dialer \<Rightarrow> Host list \<Rightarrow> FlintErr + conns" where
  "Pool_New D hosts = Pool_New_from D hosts Map.empty"

subsection \<open>Versions\<close>

record semver =
  sv_IsValid :: "string \<Rightarrow> bool"
  sv_Compare :: "string \<Rightarrow> string \<Rightarrow> int"

definition MinFlintlockVersion :: string where
  "MinFlintlockVersion = ''v0.15.2''"

fun cut_suffix :: "string \<Rightarrow> string" where
  "cut_suffix [] = []"
| "cut_suffix (c # cs) = (if c = CHR ''-'' \<or> c = CHR ''+'' then [] else c # cut_suffix cs)"

definition versionCore :: "semver \<Rightarrow> string \<Rightarrow> string option" where
  "versionCore V version =
     (let v = (if take 1 version = ''v'' then version else ''v'' @ version);
          v = cut_suffix v
      in if sv_IsValid V v then Some v else None)"

text \<open>\<open>Conn.CheckVersion\<close>: a cached success needs no call; otherwise \<open>resp\<close> is what
  \<open>ServerInfo\<close> answers, and the connection remembers the version it reported.\<close>

definition Conn_CheckVersion :: "semver \<Rightarrow> Code + string \<Rightarrow> Conn \<Rightarrow> FlintErr option \<times> Conn" where
  "Conn_CheckVersion V resp c =
     (if c_versionOK c then (None, c)
      else
        (case resp of
           Inl code \<Rightarrow> (if code = Unimplemented then (Some ErrUnsupportedVersion, c) else (Some (ErrServerInfo code), c))
         | Inr version \<Rightarrow>
           let core = versionCore V version;
               ok = (case core of None \<Rightarrow> False | Some v \<Rightarrow> sv_Compare V v MinFlintlockVersion \<ge> 0);
               c' = c\<lparr>c_version := version, c_versionOK := ok\<rparr>
           in if core = None then (Some ErrUnsupportedVersion, c')
              else if \<not> ok then (Some ErrUnsupportedVersion, c')
              else (None, c')))"

definition Conn_FlintlockVersion :: "Conn \<Rightarrow> string \<times> bool" where
  "Conn_FlintlockVersion c = (c_version c, c_version c \<noteq> [])"

definition Pool_FlintlockVersion :: "string \<Rightarrow> conns \<Rightarrow> string \<times> bool" where
  "Pool_FlintlockVersion hostName p =
     (case Pool_conn hostName p of Inl e \<Rightarrow> ([], False) | Inr c \<Rightarrow> Conn_FlintlockVersion c)"

subsection \<open>Commands\<close>

record ExecResult =
  er_Stdout :: string
  er_Stderr :: string
  er_ExitCode :: int

datatype ExecErr = ErrOpenStream | ErrSendStart | ErrCloseSend | ErrStreamClosed | ErrRecv Code | ErrExecFailed string

text \<open>What \<open>Recv\<close> returns: one of the payloads, a payload the client does not know, or an
  error. The end of the list is \<open>io.EOF\<close>.\<close>

datatype Recv = R_Stdout string | R_Stderr string | R_Error string | R_ExitCode int | R_Other | R_Err Code

record ExecStream =
  x_open :: bool
  x_send :: bool
  x_close :: bool
  x_recv :: "Recv list"

fun exec_loop :: "ExecResult \<Rightarrow> Recv list \<Rightarrow> ExecErr + ExecResult" where
  "exec_loop result [] = Inl ErrStreamClosed"
| "exec_loop result (R_Err code # rest) = Inl (ErrRecv code)"
| "exec_loop result (R_Stdout s # rest) = exec_loop (result\<lparr>er_Stdout := er_Stdout result @ s\<rparr>) rest"
| "exec_loop result (R_Stderr s # rest) = exec_loop (result\<lparr>er_Stderr := er_Stderr result @ s\<rparr>) rest"
| "exec_loop result (R_Error e # rest) = Inl (ErrExecFailed e)"
| "exec_loop result (R_ExitCode n # rest) = Inr (result\<lparr>er_ExitCode := n\<rparr>)"
| "exec_loop result (R_Other # rest) = exec_loop result rest"

definition Exec :: "ExecStream \<Rightarrow> ExecErr + ExecResult" where
  "Exec s =
     (if \<not> x_open s then Inl ErrOpenStream
      else if \<not> x_send s then Inl ErrSendStart
      else if \<not> x_close s then Inl ErrCloseSend
      else exec_loop \<lparr>er_Stdout = [], er_Stderr = [], er_ExitCode = 0\<rparr> (x_recv s))"

text \<open>What the guest wrote to one stream before the exit code.\<close>

fun out_of :: "Recv list \<Rightarrow> string" where
  "out_of (R_Stdout s # rest) = s @ out_of rest"
| "out_of (_ # rest) = out_of rest"
| "out_of [] = []"

fun err_of :: "Recv list \<Rightarrow> string" where
  "err_of (R_Stderr s # rest) = s @ err_of rest"
| "err_of (_ # rest) = err_of rest"
| "err_of [] = []"

fun is_output :: "Recv \<Rightarrow> bool" where
  "is_output (R_Stdout _) = True"
| "is_output (R_Stderr _) = True"
| "is_output R_Other = True"
| "is_output _ = False"

section \<open>The registry as a map\<close>

text \<open>What its clients rely on of the registry of connections: a lookup after each
  operation.\<close>

locale conn_registry =
  fixes add :: "Conn \<Rightarrow> 'p \<Rightarrow> 'e option \<times> 'p"
    and upd :: "bool \<Rightarrow> Conn \<Rightarrow> 'p \<Rightarrow> 'e option \<times> 'p"
    and rem :: "bool \<Rightarrow> string \<Rightarrow> 'p \<Rightarrow> 'e option \<times> 'p"
    and look :: "string \<Rightarrow> 'p \<Rightarrow> 'e + Conn"
  assumes add_ok: "add c p = (None, p') \<Longrightarrow> \<not> is_ok (look (c_name c) p) \<and>
        look h p' = (if h = c_name c then Inr c else look h p)"
    and add_err: "add c p = (Some e, p') \<Longrightarrow> p' = p \<and> is_ok (look (c_name c) p)"
    and upd_known: "is_ok (look (c_name c) p) \<Longrightarrow> look h (snd (upd b c p)) = (if h = c_name c then Inr c else look h p)"
    and upd_unknown: "\<not> is_ok (look (c_name c) p) \<Longrightarrow> snd (upd b c p) = p \<and> fst (upd b c p) \<noteq> None"
    and rem_look: "is_ok (look h (snd (rem b k p))) \<longleftrightarrow> h \<noteq> k \<and> is_ok (look h p)"
begin

lemma add_twice:
  assumes "add c p = (None, p')" and "c_name c' = c_name c"
  shows "fst (add c' p') \<noteq> None"
proof
  assume none: "fst (add c' p') = None"
  then obtain q where "add c' p' = (None, q)" by (cases "add c' p'") auto
  then have "\<not> is_ok (look (c_name c') p')" using add_ok by blast
  then show False using add_ok [OF assms(1), of "c_name c"] assms(2) by simp
qed

lemma add_then_remove: "add c p = (None, p') \<Longrightarrow> \<not> is_ok (look (c_name c) (snd (rem b (c_name c) p')))"
  using rem_look by blast

lemma remove_then_add_ok:
  assumes "add c (snd (rem b (c_name c) p)) = (r, p')"
  shows "r = None"
proof (rule ccontr)
  assume "r \<noteq> None"
  then obtain e where "add c (snd (rem b (c_name c) p)) = (Some e, p')" using assms by (cases r) auto
  then show False using add_err rem_look by blast
qed

end

interpretation fp: conn_registry Pool_Add Pool_Update Pool_Remove Pool_conn
  by unfold_locales
    (auto simp: Pool_Add_def Pool_Update_def Pool_Remove_def Pool_conn_def split: option.splits if_splits)

section \<open>Facts\<close>

lemma exec_loop_output:
  "list_all is_output pre \<Longrightarrow> exec_loop r (pre @ rest) =
     exec_loop (r\<lparr>er_Stdout := er_Stdout r @ out_of pre, er_Stderr := er_Stderr r @ err_of pre\<rparr>) rest"
proof (induction pre arbitrary: r)
  case (Cons x pre)
  then show ?case by (cases x) auto
qed simp

lemma exec_loop_first:
  "exec_loop r rs = Inr res \<Longrightarrow> \<exists>pre n rest. rs = pre @ R_ExitCode n # rest \<and> list_all is_output pre"
proof (induction rs arbitrary: r)
  case (Cons x rs)
  show ?case
  proof (cases "is_output x")
    case True
    then obtain r' where "exec_loop r' rs = Inr res" using Cons.prems by (cases x) auto
    then obtain pre n rest where "rs = pre @ R_ExitCode n # rest" "list_all is_output pre" using Cons.IH by blast
    then show ?thesis using True by (intro exI [of _ "x # pre"]) auto
  next
    case False
    then show ?thesis using Cons.prems by (cases x) (auto intro: exI [of _ "[]"])
  qed
qed simp

lemma cut_suffix_clean: "CHR ''-'' \<notin> set (cut_suffix v) \<and> CHR ''+'' \<notin> set (cut_suffix v)"
  by (induction v) auto

lemma cut_suffix_id: "CHR ''-'' \<notin> set v \<Longrightarrow> CHR ''+'' \<notin> set v \<Longrightarrow> cut_suffix v = v"
  by (induction v) auto

lemma cut_suffix_prefix: "\<exists>s. v = cut_suffix v @ s"
  by (induction v) auto

lemma take1_cut: "take 1 v = ''v'' \<Longrightarrow> take 1 (cut_suffix v) = ''v''"
  by (cases v) auto

section \<open>Properties\<close>

text \<open>C30: \<open>Exec\<close> succeeds exactly when the stream opens, accepts the start message, and delivers
  an exit code before any error, end of stream or transport error; the result then holds
  everything the guest wrote before it, per stream and in order.\<close>

theorem Exec_result:
  "Exec s = Inr res \<longleftrightarrow>
     x_open s \<and> x_send s \<and> x_close s \<and>
     (\<exists>pre n rest. x_recv s = pre @ R_ExitCode n # rest \<and> list_all is_output pre \<and>
        res = \<lparr>er_Stdout = out_of pre, er_Stderr = err_of pre, er_ExitCode = n\<rparr>)"
proof -
  have "exec_loop \<lparr>er_Stdout = [], er_Stderr = [], er_ExitCode = 0\<rparr> rs = Inr res \<longleftrightarrow>
     (\<exists>pre n rest. rs = pre @ R_ExitCode n # rest \<and> list_all is_output pre \<and>
        res = \<lparr>er_Stdout = out_of pre, er_Stderr = err_of pre, er_ExitCode = n\<rparr>)" for rs
  proof
    assume ok: "exec_loop \<lparr>er_Stdout = [], er_Stderr = [], er_ExitCode = 0\<rparr> rs = Inr res"
    then obtain pre n rest where "rs = pre @ R_ExitCode n # rest" "list_all is_output pre"
      using exec_loop_first by blast
    then show "\<exists>pre n rest. rs = pre @ R_ExitCode n # rest \<and> list_all is_output pre \<and>
        res = \<lparr>er_Stdout = out_of pre, er_Stderr = err_of pre, er_ExitCode = n\<rparr>"
      using ok by (auto simp: exec_loop_output)
  next
    assume "\<exists>pre n rest. rs = pre @ R_ExitCode n # rest \<and> list_all is_output pre \<and>
        res = \<lparr>er_Stdout = out_of pre, er_Stderr = err_of pre, er_ExitCode = n\<rparr>"
    then show "exec_loop \<lparr>er_Stdout = [], er_Stderr = [], er_ExitCode = 0\<rparr> rs = Inr res"
      by (auto simp: exec_loop_output)
  qed
  then show ?thesis by (auto simp: Exec_def)
qed

text \<open>C31: \<open>CheckVersion\<close> accepts a host exactly when a check of it succeeded before, or it now
  reports a version whose core is valid and not older than the minimum; once it has accepted a
  host it needs no further answer from it, and a refusal is never cached.\<close>

theorem CheckVersion_caches_success:
  "(fst (Conn_CheckVersion V resp c) = None \<longleftrightarrow>
      c_versionOK c \<or> (\<exists>version core. resp = Inr version \<and> versionCore V version = Some core \<and>
                          sv_Compare V core MinFlintlockVersion \<ge> 0)) \<and>
   (fst (Conn_CheckVersion V resp c) = None \<longleftrightarrow> c_versionOK (snd (Conn_CheckVersion V resp c))) \<and>
   (fst (Conn_CheckVersion V resp c) = None \<longrightarrow>
      Conn_CheckVersion V resp' (snd (Conn_CheckVersion V resp c)) = (None, snd (Conn_CheckVersion V resp c))) \<and>
   c_name (snd (Conn_CheckVersion V resp c)) = c_name c \<and> c_address (snd (Conn_CheckVersion V resp c)) = c_address c"
  by (auto simp: Conn_CheckVersion_def Let_def split: sum.splits option.splits)

theorem CheckVersion_caches_success_witness:
  "let V = \<lparr>sv_IsValid = (\<lambda>v. length v = 7), sv_Compare = (\<lambda>a b. if a = ''v0.16.0'' then 1 else - 1)\<rparr>;
       c = \<lparr>c_name = ''h'', c_address = ''a:1'', c_version = [], c_versionOK = False\<rparr>;
       c' = snd (Conn_CheckVersion V (Inr ''0.16.0-rc1'') c)
   in Conn_CheckVersion V (Inl Unavailable) c' = (None, c')"
proof -
  let ?V = "\<lparr>sv_IsValid = (\<lambda>v. length v = 7), sv_Compare = (\<lambda>a b. if a = ''v0.16.0'' then 1 else - 1)\<rparr>"
  let ?c = "\<lparr>c_name = ''h'', c_address = ''a:1'', c_version = [], c_versionOK = False\<rparr>"
  have "fst (Conn_CheckVersion ?V (Inr ''0.16.0-rc1'') ?c) = None"
    by (simp add: Conn_CheckVersion_def versionCore_def)
  with CheckVersion_caches_success [of ?V "Inr ''0.16.0-rc1''" ?c "Inl Unavailable"] show ?thesis
    unfolding Let_def by blast
qed

end
