(* ===== verification/Manager.thy ===== *)
theory Manager
  imports Strategy
begin

text \<open>
  Model of \<^verbatim>\<open>src/internal/poolmanager/manager.go\<close>: the registry of reconcilers, one per pool. A
  handle is identified by a number; \<open>mg_running\<close> is the list of reconciler goroutines that have
  not returned from \<open>Run\<close> (what the wait group counts), \<open>mg_done\<close> the handles whose \<open>done\<close>
  channel is closed. Each critical section under the manager's mutex is one step of \<open>mgr_step\<close>,
  as are the two steps by which a goroutine ends: closing \<open>done\<close>, then forgetting the handle.
\<close>

section \<open>Definitions\<close>

datatype poolKey = PoolKey string string

text \<open>A reconciler goroutine: its handle's number and its pool.\<close>

record goroutine =
  g_id :: nat
  g_key :: poolKey

record reconcilerHandle =
  rh_id :: nat
  rh_spec :: PoolSpec
  rh_strategy :: Strategy

record manager =
  mg_handles :: "poolKey \<Rightarrow> reconcilerHandle option"
  mg_exiting :: "poolKey \<Rightarrow> nat list"
  mg_cancelled :: "nat set"
  mg_done :: "nat set"
  mg_running :: "goroutine list"
  mg_next :: nat
  mg_stopped :: bool

datatype ManagerErr = ErrAlreadyRunning | ErrShuttingDown | ErrNewReconciler StrategyErr

definition new_manager :: manager where
  "new_manager = \<lparr>mg_handles = Map.empty, mg_exiting = (\<lambda>_. []), mg_cancelled = {}, mg_done = {},
     mg_running = [], mg_next = 0, mg_stopped = False\<rparr>"

definition spec_key :: "PoolSpec \<Rightarrow> poolKey" where
  "spec_key spec = PoolKey (ps_Name spec) (ps_Namespace spec)"

definition StartReconciler :: "PoolSpec \<Rightarrow> manager \<Rightarrow> ManagerErr + manager" where
  "StartReconciler spec m =
     (let key = spec_key spec in
      if mg_handles m key \<noteq> None then Inl ErrAlreadyRunning
      else if mg_stopped m then Inl ErrShuttingDown
      else
        (case NewStrategy (ps_ReplenishmentStrategy spec) of
           Inl e \<Rightarrow> Inl (ErrNewReconciler e)
         | Inr s \<Rightarrow>
           Inr (m\<lparr>mg_handles := (mg_handles m)(key \<mapsto> \<lparr>rh_id = mg_next m, rh_spec = spec, rh_strategy = s\<rparr>),
                  mg_running := mg_running m @ [\<lparr>g_id = mg_next m, g_key = key\<rparr>],
                  mg_next := Suc (mg_next m)\<rparr>)))"

definition cancelAndForget :: "string \<Rightarrow> string \<Rightarrow> manager \<Rightarrow> manager" where
  "cancelAndForget name ns m =
     (case mg_handles m (PoolKey name ns) of
        None \<Rightarrow> m
      | Some h \<Rightarrow>
        m\<lparr>mg_handles := (mg_handles m)((PoolKey name ns) := None),
          mg_exiting := (if rh_id h \<in> mg_done m then mg_exiting m
                         else (mg_exiting m)((PoolKey name ns) := mg_exiting m (PoolKey name ns) @ [rh_id h])),
          mg_cancelled := insert (rh_id h) (mg_cancelled m)\<rparr>)"

definition StopReconciler :: "string \<Rightarrow> string \<Rightarrow> manager \<Rightarrow> manager" where
  "StopReconciler name ns m = cancelAndForget name ns m"

text \<open>What \<open>StopReconcilerAndWait\<close> waits for, after it has cancelled: every handle of the
  pool that has not finished. It returns without an error once all of them are done.\<close>

definition waits_for :: "string \<Rightarrow> string \<Rightarrow> manager \<Rightarrow> nat list" where
  "waits_for name ns m = mg_exiting m (PoolKey name ns)"

definition wait_over :: "nat list \<Rightarrow> manager \<Rightarrow> bool" where
  "wait_over ids m \<longleftrightarrow> set ids \<subseteq> mg_done m"

definition Running :: "string \<Rightarrow> string \<Rightarrow> manager \<Rightarrow> bool" where
  "Running name ns m \<longleftrightarrow> mg_handles m (PoolKey name ns) \<noteq> None"

text \<open>\<open>exited\<close>: a goroutine that has returned from \<open>Run\<close> closes \<open>done\<close> and, under the mutex,
  leaves the list of exiting handles.\<close>

definition close_done :: "nat \<Rightarrow> manager \<Rightarrow> manager" where
  "close_done i m = m\<lparr>mg_done := insert i (mg_done m),
     mg_running := filter (\<lambda>g. g_id g \<noteq> i) (mg_running m)\<rparr>"

definition forget_exited :: "poolKey \<Rightarrow> nat \<Rightarrow> manager \<Rightarrow> manager" where
  "forget_exited key i m = m\<lparr>mg_exiting := (mg_exiting m)(key := filter (\<lambda>j. j \<noteq> i) (mg_exiting m key))\<rparr>"

text \<open>\<open>Run\<close> at shutdown: no further start, every handle cancelled and dropped.\<close>

definition shutdown :: "manager \<Rightarrow> manager" where
  "shutdown m = m\<lparr>mg_stopped := True, mg_handles := Map.empty,
     mg_cancelled := mg_cancelled m \<union> {rh_id h | h k. mg_handles m k = Some h}\<rparr>"

fun Seed :: "PoolSpec list \<Rightarrow> manager \<Rightarrow> ManagerErr option \<times> manager" where
  "Seed [] m = (None, m)"
| "Seed (spec # specs) m =
     (case StartReconciler spec m of Inl e \<Rightarrow> (Some e, m) | Inr m' \<Rightarrow> Seed specs m')"

inductive mgr_step :: "manager \<Rightarrow> manager \<Rightarrow> bool" where
  mgr_start: "StartReconciler spec m = Inr m' \<Longrightarrow> mgr_step m m'"
| mgr_stop: "mgr_step m (cancelAndForget name ns m)"
| mgr_done: "g \<in> set (mg_running m) \<Longrightarrow> mgr_step m (close_done (g_id g) m)"
| mgr_forget: "i \<in> mg_done m \<Longrightarrow> mgr_step m (forget_exited key i m)"
| mgr_shutdown: "mgr_step m (shutdown m)"

inductive_cases mgr_stepE: "mgr_step m m'"

abbreviation mgr_steps :: "manager \<Rightarrow> manager \<Rightarrow> bool" where
  "mgr_steps \<equiv> mgr_step\<^sup>*\<^sup>*"

text \<open>A manager with one reconciler, for the examples.\<close>

definition sample_spec :: PoolSpec where
  "sample_spec = \<lparr>ps_Name = ''p'', ps_Namespace = ''ns'', ps_MicrovmTemplate = None, ps_Size = 1, ps_FlintlockHosts = [],
     ps_ReplenishmentStrategy = Some \<lparr>rs_Type = REPLACE_ON_DELETE, rs_MinSize = None\<rparr>, ps_CreateCommands = [],
     ps_PreLeaseCommands = [], ps_HookFailurePolicy = QUARANTINE, ps_HeartbeatInterval = None,
     ps_HeartbeatExpiryThreshold = None\<rparr>"

definition sample_mgr :: manager where
  "sample_mgr = new_manager\<lparr>mg_handles := [PoolKey ''p'' ''ns'' \<mapsto> \<lparr>rh_id = 0, rh_spec = sample_spec, rh_strategy = replaceOnDelete\<rparr>],
     mg_running := [\<lparr>g_id = 0, g_key = PoolKey ''p'' ''ns''\<rparr>], mg_next := 1\<rparr>"

section \<open>Invariant\<close>

text \<open>Ids are fresh, and distinct among the running goroutines and among the handles.\<close>

definition ids_ok :: "manager \<Rightarrow> bool" where
  "ids_ok m \<longleftrightarrow>
     distinct (map g_id (mg_running m)) \<and>
     (\<forall>x \<in> set (mg_running m). g_id x < mg_next m \<and> g_id x \<notin> mg_done m) \<and>
     (\<forall>i \<in> mg_done m. i < mg_next m) \<and> (\<forall>i \<in> mg_cancelled m. i < mg_next m)"

definition handles_ok :: "manager \<Rightarrow> bool" where
  "handles_ok m \<longleftrightarrow>
     (\<forall>k h. mg_handles m k = Some h \<longrightarrow> spec_key (rh_spec h) = k \<and> rh_id h < mg_next m \<and> rh_id h \<notin> mg_cancelled m) \<and>
     (\<forall>k h k' h'. mg_handles m k = Some h \<longrightarrow> mg_handles m k' = Some h' \<longrightarrow> rh_id h = rh_id h' \<longrightarrow> k = k')"

text \<open>Every goroutine not done is tracked: it is the registered handle of its pool, or it is
  cancelled and in the pool's list of exiting handles. At shutdown all are cancelled.\<close>

definition is_handle :: "manager \<Rightarrow> poolKey \<Rightarrow> nat \<Rightarrow> bool" where
  "is_handle m k i \<longleftrightarrow> (case mg_handles m k of None \<Rightarrow> False | Some h \<Rightarrow> rh_id h = i)"

definition tracked :: "manager \<Rightarrow> bool" where
  "tracked m \<longleftrightarrow>
     (if mg_stopped m then mg_handles m = Map.empty \<and> (\<forall>x \<in> set (mg_running m). g_id x \<in> mg_cancelled m)
      else \<forall>x \<in> set (mg_running m).
             is_handle m (g_key x) (g_id x) \<or> g_id x \<in> set (mg_exiting m (g_key x)) \<and> g_id x \<in> mg_cancelled m)"

definition mgr_inv :: "manager \<Rightarrow> bool" where
  "mgr_inv m \<longleftrightarrow> ids_ok m \<and> handles_ok m \<and> tracked m"

lemma mgr_inv_new: "mgr_inv new_manager"
  by (simp add: mgr_inv_def ids_ok_def handles_ok_def tracked_def new_manager_def)

lemma StartReconciler_Inr:
  "StartReconciler spec m = Inr m' \<Longrightarrow>
     mg_handles m (spec_key spec) = None \<and> \<not> mg_stopped m \<and>
     (\<exists>s. NewStrategy (ps_ReplenishmentStrategy spec) = Inr s \<and>
        m' = m\<lparr>mg_handles := (mg_handles m)(spec_key spec \<mapsto> \<lparr>rh_id = mg_next m, rh_spec = spec, rh_strategy = s\<rparr>),
               mg_running := mg_running m @ [\<lparr>g_id = mg_next m, g_key = spec_key spec\<rparr>], mg_next := Suc (mg_next m)\<rparr>)"
  by (auto simp: StartReconciler_def Let_def split: if_splits sum.splits)

lemma ids_start: "StartReconciler spec m = Inr m' \<Longrightarrow> ids_ok m \<Longrightarrow> ids_ok m'"
proof -
  assume start: "StartReconciler spec m = Inr m'" and ids: "ids_ok m"
  obtain s where m': "m' = m\<lparr>mg_handles := (mg_handles m)(spec_key spec \<mapsto> \<lparr>rh_id = mg_next m, rh_spec = spec, rh_strategy = s\<rparr>),
               mg_running := mg_running m @ [\<lparr>g_id = mg_next m, g_key = spec_key spec\<rparr>], mg_next := Suc (mg_next m)\<rparr>"
    using StartReconciler_Inr [OF start] by blast
  have dis: "distinct (map g_id (mg_running m))"
    and run: "\<And>x. x \<in> set (mg_running m) \<Longrightarrow> g_id x < mg_next m \<and> g_id x \<notin> mg_done m"
    and don: "\<And>i. i \<in> mg_done m \<Longrightarrow> i < mg_next m" and can: "\<And>i. i \<in> mg_cancelled m \<Longrightarrow> i < mg_next m"
    using ids by (simp_all add: ids_ok_def)
  have "mg_next m \<notin> g_id ` set (mg_running m)" using run by fastforce
  with dis have "distinct (map g_id (mg_running m'))" by (simp add: m')
  moreover have "g_id x < Suc (mg_next m) \<and> g_id x \<notin> mg_done m" if "x \<in> set (mg_running m')" for x
    using that run [of x] don [of "mg_next m"] by (auto simp: m')
  moreover have "i < Suc (mg_next m)" if "i \<in> mg_done m \<or> i \<in> mg_cancelled m" for i
    using that don [of i] can [of i] by auto
  ultimately show ?thesis unfolding ids_ok_def by (simp add: m')
qed

lemma handles_start:
  assumes "StartReconciler spec m = Inr m'" "ids_ok m" "handles_ok m"
  shows "handles_ok m'"
proof -
  obtain s where m': "m' = m\<lparr>mg_handles := (mg_handles m)(spec_key spec \<mapsto> \<lparr>rh_id = mg_next m, rh_spec = spec, rh_strategy = s\<rparr>),
               mg_running := mg_running m @ [\<lparr>g_id = mg_next m, g_key = spec_key spec\<rparr>], mg_next := Suc (mg_next m)\<rparr>"
    using StartReconciler_Inr [OF assms(1)] by blast
  have new: "mg_next m \<notin> mg_cancelled m" using assms(2) by (auto simp: ids_ok_def)
  have old: "rh_id h < mg_next m" if "mg_handles m k = Some h" for k h using assms(3) that by (auto simp: handles_ok_def)
  show ?thesis unfolding handles_ok_def
  proof (intro conjI allI impI)
    fix k h assume h: "mg_handles m' k = Some h"
    show "spec_key (rh_spec h) = k" "rh_id h < mg_next m'" "rh_id h \<notin> mg_cancelled m'"
      using h new assms(3) by (auto simp: m' handles_ok_def less_Suc_eq split: if_splits)
  next
    fix k h k' h'
    assume hs: "mg_handles m' k = Some h" "mg_handles m' k' = Some h'" "rh_id h = rh_id h'"
    show "k = k'"
    proof (cases "k = spec_key spec \<or> k' = spec_key spec")
      case True
      then show ?thesis using hs old [of k h] old [of k' h'] by (auto simp: m' split: if_splits)
    next
      case False
      then have "mg_handles m k = Some h" "mg_handles m k' = Some h'" using hs by (auto simp: m')
      then show ?thesis using assms(3) hs(3) unfolding handles_ok_def by blast
    qed
  qed
qed

lemma tracked_start: "StartReconciler spec m = Inr m' \<Longrightarrow> tracked m \<Longrightarrow> tracked m'"
  by (drule StartReconciler_Inr) (auto simp: tracked_def is_handle_def split: option.splits)

lemma ids_stop: "ids_ok m \<Longrightarrow> handles_ok m \<Longrightarrow> ids_ok (cancelAndForget name ns m)"
  by (auto simp: ids_ok_def handles_ok_def cancelAndForget_def split: option.splits)

lemma handles_stop:
  assumes "handles_ok m"
  shows "handles_ok (cancelAndForget name ns m)"
proof (cases "mg_handles m (PoolKey name ns)")
  case None
  then show ?thesis using assms by (simp add: cancelAndForget_def)
next
  case (Some h)
  have "rh_id h' \<noteq> rh_id h" if "mg_handles m k = Some h'" "k \<noteq> (PoolKey name ns)" for k h'
    using assms Some that unfolding handles_ok_def by blast
  then show ?thesis using assms Some by (auto simp: handles_ok_def cancelAndForget_def split: if_splits)
qed

lemma tracked_stop:
  assumes "ids_ok m" "tracked m"
  shows "tracked (cancelAndForget name ns m)"
proof (cases "mg_handles m (PoolKey name ns)")
  case None
  then show ?thesis using assms by (simp add: cancelAndForget_def)
next
  case (Some h)
  have live: "g_id x \<notin> mg_done m" if "x \<in> set (mg_running m)" for x using assms(1) that by (auto simp: ids_ok_def)
  show ?thesis
  proof (cases "mg_stopped m")
    case True
    then show ?thesis using assms(2) Some by (simp add: tracked_def)
  next
    case False
    have "is_handle m' (g_key x) (g_id x) \<or> g_id x \<in> set (mg_exiting m' (g_key x)) \<and> g_id x \<in> mg_cancelled m'"
      if m': "m' = cancelAndForget name ns m" and x: "x \<in> set (mg_running m)" for m' x
    proof -
      have "is_handle m (g_key x) (g_id x) \<or> g_id x \<in> set (mg_exiting m (g_key x)) \<and> g_id x \<in> mg_cancelled m"
        using assms(2) False x by (auto simp: tracked_def)
      then show ?thesis using Some live [OF x]
        by (cases "g_key x = PoolKey name ns") (auto simp: m' cancelAndForget_def is_handle_def)
    qed
    then show ?thesis using False Some by (auto simp: tracked_def cancelAndForget_def)
  qed
qed

lemma inv_done: "mgr_inv m \<Longrightarrow> g \<in> set (mg_running m) \<Longrightarrow> mgr_inv (close_done (g_id g) m)"
  by (auto simp: mgr_inv_def ids_ok_def handles_ok_def tracked_def is_handle_def close_done_def
      distinct_map_filter)

lemma inv_forget: "mgr_inv m \<Longrightarrow> i \<in> mg_done m \<Longrightarrow> mgr_inv (forget_exited key i m)"
  by (auto simp: mgr_inv_def ids_ok_def handles_ok_def tracked_def is_handle_def forget_exited_def)

lemma inv_shutdown: "mgr_inv m \<Longrightarrow> mgr_inv (shutdown m)"
proof -
  assume inv: "mgr_inv m"
  have "g_id x \<in> mg_cancelled m \<or> (\<exists>h k. mg_handles m k = Some h \<and> rh_id h = g_id x)" if "x \<in> set (mg_running m)" for x
  proof (cases "mg_stopped m")
    case True
    then show ?thesis using inv that by (auto simp: mgr_inv_def tracked_def)
  next
    case False
    then have "is_handle m (g_key x) (g_id x) \<or> g_id x \<in> mg_cancelled m"
      using inv that by (auto simp: mgr_inv_def tracked_def)
    then show ?thesis by (auto simp: is_handle_def split: option.splits)
  qed
  then have "tracked (shutdown m)" by (fastforce simp: tracked_def shutdown_def)
  moreover have "ids_ok (shutdown m)" "handles_ok (shutdown m)"
    using inv by (auto simp: mgr_inv_def ids_ok_def handles_ok_def shutdown_def)
  ultimately show ?thesis by (simp add: mgr_inv_def)
qed

lemma inv_start: "StartReconciler spec m = Inr m' \<Longrightarrow> mgr_inv m \<Longrightarrow> mgr_inv m'"
  by (auto simp: mgr_inv_def intro: ids_start handles_start tracked_start)

lemma inv_stop: "mgr_inv m \<Longrightarrow> mgr_inv (cancelAndForget name ns m)"
  by (auto simp: mgr_inv_def intro: ids_stop handles_stop tracked_stop)

lemma mgr_step_inv: "mgr_step m m' \<Longrightarrow> mgr_inv m \<Longrightarrow> mgr_inv m'"
  by (erule mgr_stepE) (auto intro: inv_start inv_stop inv_done inv_forget inv_shutdown)

lemma mgr_steps_inv: "mgr_steps m m' \<Longrightarrow> mgr_inv m \<Longrightarrow> mgr_inv m'"
  by (induction rule: rtranclp_induct) (auto intro: mgr_step_inv)

lemma uncancelled_is_handle:
  assumes "mgr_inv m" "g \<in> set (mg_running m)" "g_id g \<notin> mg_cancelled m"
  obtains h where "mg_handles m (g_key g) = Some h" "rh_id h = g_id g"
proof -
  have "\<not> mg_stopped m" using assms by (auto simp: mgr_inv_def tracked_def)
  then have "is_handle m (g_key g) (g_id g)" using assms by (auto simp: mgr_inv_def tracked_def)
  then show ?thesis using that by (cases "mg_handles m (g_key g)") (auto simp: is_handle_def)
qed

lemma key_running_step:
  "mgr_step a b \<Longrightarrow> mg_handles b K = None \<Longrightarrow> {g \<in> set (mg_running b). g_key g = K} \<subseteq> set (mg_running a)"
proof (erule mgr_stepE)
  fix spec assume "StartReconciler spec a = Inr b" and none: "mg_handles b K = None"
  then obtain h where "mg_running b = mg_running a @ [\<lparr>g_id = mg_next a, g_key = spec_key spec\<rparr>]"
      "mg_handles b (spec_key spec) = Some h" by (auto dest!: StartReconciler_Inr)
  with none show ?thesis by auto
qed (auto simp: cancelAndForget_def close_done_def forget_exited_def shutdown_def split: option.splits)

lemma key_running_steps:
  "(\<lambda>a b. mgr_step a b \<and> mg_handles b K = None)\<^sup>*\<^sup>* m m' \<Longrightarrow>
   {g \<in> set (mg_running m'). g_key g = K} \<subseteq> set (mg_running m)"
  by (induction rule: rtranclp_induct) (auto dest: key_running_step)

lemma restricted_steps: "(\<lambda>a b. mgr_step a b \<and> P b)\<^sup>*\<^sup>* m m' \<Longrightarrow> mgr_steps m m'"
  by (induction rule: rtranclp_induct) (auto intro: rtranclp.rtrancl_into_rtrancl)

section \<open>Properties\<close>


lemma sample_start: "StartReconciler sample_spec new_manager = Inr sample_mgr"
  by (simp add: StartReconciler_def sample_spec_def sample_mgr_def new_manager_def spec_key_def NewStrategy_def Let_def)

lemma sample_reach: "mgr_steps new_manager sample_mgr"
  using mgr_start [OF sample_start] by blast




end
