(* ===== verification/World.thy ===== *)
theory World
  imports Store_Roundtrip Flint Manager "HOL-Library.State_Monad"
begin

text \<open>
  The world a handler or a background task runs in, as a state monad. The state is the
  database, the connections to the hosts, the trace of what was sent to the outside (flintlock
  calls, notifications, metrics) and the number of interactions so far. The environment \<open>env\<close>
  decides, at each interaction, everything the code does not: the clock, fresh UUIDs, which
  row an unordered query returns, what flintlock answers, whether a statement fails, whether
  the caller's context is cancelled, and what the other goroutines committed since the last
  interaction (\<open>e_others\<close>). A handler's guarantee is then proved against any behaviour of the
  others that consists of store transactions (\<open>honest\<close>).
\<close>

section \<open>Definitions\<close>

datatype MicroVMState = MVM_PENDING | MVM_CREATED | MVM_FAILED | MVM_DELETING

text \<open>The network interfaces of a VM, a Go map: an association list in the order in which a
  traversal happens to visit it.\<close>

type_synonym NetIfaces = "(string \<times> NetworkInterfaceStatus) list"

record env =
  e_codec :: protojson
  e_semver :: semver
  e_clock :: "nat \<Rightarrow> int"
  e_uuid :: "nat \<Rightarrow> string"
  e_pick :: "nat \<Rightarrow> nat"
  e_dbErr :: "nat \<Rightarrow> bool"
  e_cancelled :: "nat \<Rightarrow> bool"
  e_others :: "nat \<Rightarrow> db \<Rightarrow> db"
  e_othersConns :: "nat \<Rightarrow> conns \<Rightarrow> conns"
  e_othersMgr :: "nat \<Rightarrow> manager \<Rightarrow> manager"
  e_closeErr :: "nat \<Rightarrow> bool"
  e_sendErr :: "nat \<Rightarrow> bool"
  e_dialer :: dialer
  e_CreateMicroVM :: "nat \<Rightarrow> Code + string"
  e_GetMicroVM :: "nat \<Rightarrow> Code + (MicroVMState \<times> NetIfaces)"
  e_DeleteMicroVM :: "nat \<Rightarrow> Code option"
  e_ServerInfo :: "nat \<Rightarrow> Code + string"
  e_Exec :: "nat \<Rightarrow> ExecStream"

datatype Metric =
    M_ProvisionDuration string string
  | M_HookDuration string string string
  | M_HookFailure string string string
  | M_VMRelease string string string
  | M_VMClaim string string bool
  | M_LeaseDuration string string

datatype Action =
    A_CreateMicroVM string MicroVMSpec
  | A_GetMicroVM string string
  | A_DeleteMicroVM string string "Code option"
  | A_Exec string string string
  | A_NotifyVMClaimed string string
  | A_NotifyVMDeleted string string
  | A_Metric Metric

record world =
  wdb :: db
  wconns :: conns
  wmgr :: manager
  wtrace :: "Action list"
  wstep :: nat

text \<open>Whether a call runs on the caller's context or on one detached from its
  cancellation (\<open>context.WithoutCancel\<close>).\<close>

datatype ctx = Ctx | Detached

type_synonym 'a M = "(world, 'a) state"

abbreviation ret :: "'a \<Rightarrow> 'a M" where
  "ret \<equiv> State_Monad.return"

definition ctx_ok :: "env \<Rightarrow> ctx \<Rightarrow> nat \<Rightarrow> bool" where
  "ctx_ok E c n \<longleftrightarrow> (case c of Ctx \<Rightarrow> \<not> e_cancelled E n | Detached \<Rightarrow> True)"

text \<open>One statement or transaction of the store: the others run first; then it fails, or runs
  atomically, or is rolled back with its error.\<close>

definition storeCall :: "env \<Rightarrow> ctx \<Rightarrow> (nat \<Rightarrow> db \<Rightarrow> 'a tx) \<Rightarrow> (StoreErr + 'a) M" where
  "storeCall E c f = State (\<lambda>w.
     let n = wstep w;
         d = e_others E n (wdb w);
         w' = w\<lparr>wdb := d, wconns := e_othersConns E n (wconns w),
               wmgr := e_othersMgr E n (wmgr w), wstep := Suc n\<rparr>
     in if e_dbErr E n \<or> \<not> ctx_ok E c n then (Inl ErrDB, w')
        else (case f n d of Inl e \<Rightarrow> (Inl e, w') | Inr (a, d') \<Rightarrow> (Inr a, w'\<lparr>wdb := d'\<rparr>)))"

text \<open>An interaction that does not touch the store: reading the clock, a fresh UUID, a call
  to flintlock. It only consumes an index.\<close>

definition fresh :: "nat M" where
  "fresh = State (\<lambda>w. (wstep w, w\<lparr>wstep := Suc (wstep w)\<rparr>))"

definition act :: "Action \<Rightarrow> unit M" where
  "act a = State (\<lambda>w. ((), w\<lparr>wtrace := wtrace w @ [a]\<rparr>))"

definition getConns :: "conns M" where
  "getConns = State (\<lambda>w. (wconns w, w))"

definition putConns :: "conns \<Rightarrow> unit M" where
  "putConns p = State (\<lambda>w. ((), w\<lparr>wconns := p\<rparr>))"

definition getMgr :: "manager M" where
  "getMgr = State (\<lambda>w. (wmgr w, w))"

definition putMgr :: "manager \<Rightarrow> unit M" where
  "putMgr m = State (\<lambda>w. ((), w\<lparr>wmgr := m\<rparr>))"

definition Now :: "env \<Rightarrow> Timestamp M" where
  "Now E = do { n \<leftarrow> fresh; ret (e_clock E n) }"

definition NewString :: "env \<Rightarrow> string M" where
  "NewString E = do { n \<leftarrow> fresh; ret (e_uuid E n) }"

subsection \<open>Store methods that are more than one statement\<close>

definition UpdateVM :: "env \<Rightarrow> ctx \<Rightarrow> VMRecord \<Rightarrow> (StoreErr + unit) M" where
  "UpdateVM E c v = do {
     r \<leftarrow> storeCall E c (\<lambda>_. updateVM_exec v);
     case r of Inl e \<Rightarrow> ret (Inl e)
     | Inr matched \<Rightarrow> if matched then ret (Inr ()) else storeCall E c (\<lambda>_. updateVM_missed v) }"

definition UpdateHost_M :: "env \<Rightarrow> ctx \<Rightarrow> Host \<Rightarrow> (StoreErr + Host) M" where
  "UpdateHost_M E c host = do {
     r \<leftarrow> storeCall E c (\<lambda>n. UpdateHost_exec (e_clock E n) host);
     case r of Inl e \<Rightarrow> ret (Inl e) | Inr _ \<Rightarrow> storeCall E c (\<lambda>_. GetHost (h_Name host)) }"

definition SetHostCordoned :: "env \<Rightarrow> ctx \<Rightarrow> string \<Rightarrow> bool \<Rightarrow> string \<Rightarrow> (StoreErr + Host) M" where
  "SetHostCordoned E c name cordoned reason = do {
     r \<leftarrow> storeCall E c (\<lambda>n. SetHostCordoned_exec (e_clock E n) name cordoned reason);
     case r of Inl e \<Rightarrow> ret (Inl e) | Inr _ \<Rightarrow> storeCall E c (\<lambda>_. GetHost name) }"

subsection \<open>Calls to flintlock\<close>

definition flint_conn :: "string \<Rightarrow> (FlintErr + Conn) M" where
  "flint_conn host = do { p \<leftarrow> getConns; ret (Pool_conn host p) }"

definition CheckVersion :: "env \<Rightarrow> ctx \<Rightarrow> string \<Rightarrow> FlintErr option M" where
  "CheckVersion E c host = do {
     r \<leftarrow> flint_conn host;
     case r of Inl e \<Rightarrow> ret (Some e)
     | Inr conn \<Rightarrow> do {
         n \<leftarrow> fresh;
         let (res, conn') = Conn_CheckVersion (e_semver E) (if ctx_ok E c n then e_ServerInfo E n else Inl Canceled) conn;
         p \<leftarrow> getConns;
         putConns (p(host \<mapsto> conn'));
         ret res } }"

definition CreateMicroVM :: "env \<Rightarrow> ctx \<Rightarrow> string \<Rightarrow> MicroVMSpec \<Rightarrow> (Code + string) M" where
  "CreateMicroVM E c host spec = do {
     n \<leftarrow> fresh; act (A_CreateMicroVM host spec);
     ret (if ctx_ok E c n then e_CreateMicroVM E n else Inl Canceled) }"

definition GetMicroVM :: "env \<Rightarrow> ctx \<Rightarrow> string \<Rightarrow> string \<Rightarrow> (Code + (MicroVMState \<times> NetIfaces)) M" where
  "GetMicroVM E c host uid = do {
     n \<leftarrow> fresh; act (A_GetMicroVM host uid);
     ret (if ctx_ok E c n then e_GetMicroVM E n else Inl Canceled) }"

definition DeleteMicroVM :: "env \<Rightarrow> ctx \<Rightarrow> string \<Rightarrow> string \<Rightarrow> Code option M" where
  "DeleteMicroVM E c host uid = do {
     n \<leftarrow> fresh;
     let r = (if ctx_ok E c n then e_DeleteMicroVM E n else Some Canceled);
     act (A_DeleteMicroVM host uid r);
     ret r }"

definition Exec_M :: "env \<Rightarrow> ctx \<Rightarrow> string \<Rightarrow> string \<Rightarrow> string \<Rightarrow> (ExecErr + ExecResult) M" where
  "Exec_M E c host uid cmd = do {
     n \<leftarrow> fresh; act (A_Exec host uid cmd);
     ret (if ctx_ok E c n then Exec (e_Exec E n) else Inl ErrOpenStream) }"

subsection \<open>Calls to the pool manager\<close>

definition StartReconciler_M :: "PoolSpec \<Rightarrow> ManagerErr option M" where
  "StartReconciler_M spec = do {
     m \<leftarrow> getMgr;
     (case StartReconciler spec m of Inl e \<Rightarrow> ret (Some e) | Inr m' \<Rightarrow> do { putMgr m'; ret None }) }"

definition StopReconciler_M :: "string \<Rightarrow> string \<Rightarrow> unit M" where
  "StopReconciler_M name ns = do { m \<leftarrow> getMgr; putMgr (StopReconciler name ns m) }"

text \<open>\<open>StopReconcilerAndWait\<close>: cancel, then wait while the others run; it reports an error when
  the caller's context ends before every goroutine it waits for is done.\<close>

definition StopReconcilerAndWait :: "env \<Rightarrow> string \<Rightarrow> string \<Rightarrow> bool M" where
  "StopReconcilerAndWait E name ns = do {
     m \<leftarrow> getMgr;
     let m1 = cancelAndForget name ns m;
     n \<leftarrow> fresh;
     let m2 = e_othersMgr E n m1;
     putMgr m2;
     ret (wait_over (waits_for name ns m1) m2) }"

subsection \<open>An environment for the examples\<close>

text \<open>A calm environment in which everything works: the clock shows the interaction number,
  every UUID is fixed, flintlock answers with success.\<close>

definition sample_env :: env where
  "sample_env = \<lparr>e_codec = sample_codec,
     e_semver = \<lparr>sv_IsValid = (\<lambda>v. True), sv_Compare = (\<lambda>a b. 1)\<rparr>,
     e_clock = int, e_uuid = (\<lambda>n. ''uuid0001''), e_pick = (\<lambda>n. 0), e_dbErr = (\<lambda>n. False),
     e_cancelled = (\<lambda>n. False), e_others = (\<lambda>n d. d), e_othersConns = (\<lambda>n p. p), e_othersMgr = (\<lambda>n m. m),
     e_closeErr = (\<lambda>n. False), e_sendErr = (\<lambda>n. False),
     e_dialer = \<lparr>d_ReadFile = (\<lambda>f. None), d_HasCerts = (\<lambda>p. False), d_LoadX509KeyPair = (\<lambda>c k. False), d_NewClient = (\<lambda>a. True)\<rparr>,
     e_CreateMicroVM = (\<lambda>n. Inr ''uid1''), e_GetMicroVM = (\<lambda>n. Inr (MVM_CREATED, [])),
     e_DeleteMicroVM = (\<lambda>n. None), e_ServerInfo = (\<lambda>n. Inr ''v0.16.0''),
     e_Exec = (\<lambda>n. \<lparr>x_open = True, x_send = True, x_close = True, x_recv = [R_ExitCode 0]\<rparr>)\<rparr>"

definition sample_world :: "db \<Rightarrow> world" where
  "sample_world d = \<lparr>wdb = d,
     wconns = [''h'' \<mapsto> \<lparr>c_name = ''h'', c_address = ''a:1'', c_version = [], c_versionOK = False\<rparr>],
     wmgr = new_manager, wtrace = [], wstep = 0\<rparr>"

text \<open>A database with a pool to claim from.\<close>

definition sample_pool_db :: db where
  "sample_pool_db = (case CreatePool sample_codec sample_pool sample_db of Inr (_, d) \<Rightarrow> d | Inl _ \<Rightarrow> sample_db)"

section \<open>Reasoning\<close>

subsection \<open>Weakest preconditions\<close>

definition wp :: "('s, 'a) state \<Rightarrow> ('a \<Rightarrow> 's \<Rightarrow> bool) \<Rightarrow> 's \<Rightarrow> bool" where
  "wp m Q s = (case run_state m s of (a, s') \<Rightarrow> Q a s')"

named_theorems wp_simps "what a weakest precondition is of each construct"

lemma wp_return [wp_simps]: "wp (State_Monad.return x) Q s = Q x s"
  by (simp add: wp_def)

lemma wp_bind [wp_simps]: "wp (State_Monad.bind m f) Q s = wp m (\<lambda>a. wp (f a) Q) s"
  by (simp add: wp_def split: prod.splits)

lemma wp_fresh [wp_simps]: "wp fresh Q w = Q (wstep w) (w\<lparr>wstep := Suc (wstep w)\<rparr>)"
  by (simp add: wp_def fresh_def)

lemma wp_act [wp_simps]: "wp (act a) Q w = Q () (w\<lparr>wtrace := wtrace w @ [a]\<rparr>)"
  by (simp add: wp_def act_def)

lemma wp_getConns [wp_simps]: "wp getConns Q w = Q (wconns w) w"
  by (simp add: wp_def getConns_def)

lemma wp_putConns [wp_simps]: "wp (putConns p) Q w = Q () (w\<lparr>wconns := p\<rparr>)"
  by (simp add: wp_def putConns_def)

lemma wp_getMgr [wp_simps]: "wp getMgr Q w = Q (wmgr w) w"
  by (simp add: wp_def getMgr_def)

lemma wp_putMgr [wp_simps]: "wp (putMgr m) Q w = Q () (w\<lparr>wmgr := m\<rparr>)"
  by (simp add: wp_def putMgr_def)

lemma wp_mono: "wp m Q s \<Longrightarrow> (\<And>a t. Q a t \<Longrightarrow> R a t) \<Longrightarrow> wp m R s"
  by (auto simp: wp_def split: prod.splits)

lemma wp_conj: "wp m (\<lambda>a t. Q a t \<and> R a t) s \<longleftrightarrow> wp m Q s \<and> wp m R s"
  by (auto simp: wp_def split: prod.splits)

lemma wp_run: "wp m Q s = Q (fst (run_state m s)) (snd (run_state m s))"
  by (simp add: wp_def case_prod_beta)

lemma wp_seq: "wp m P w \<Longrightarrow> (\<And>a w'. P a w' \<Longrightarrow> wp (f a) Q w') \<Longrightarrow> wp (State_Monad.bind m f) Q w"
  unfolding wp_bind by (rule wp_mono)

lemma wp_sum:
  "(\<And>e. r = Inl e \<Longrightarrow> wp (f e) Q w) \<Longrightarrow> (\<And>a. r = Inr a \<Longrightarrow> wp (g a) Q w) \<Longrightarrow>
   wp (case r of Inl e \<Rightarrow> f e | Inr a \<Rightarrow> g a) Q w"
  by (cases r) auto

lemma wp_option:
  "(r = None \<Longrightarrow> wp m Q w) \<Longrightarrow> (\<And>a. r = Some a \<Longrightarrow> wp (g a) Q w) \<Longrightarrow>
   wp (case r of None \<Rightarrow> m | Some a \<Rightarrow> g a) Q w"
  by (cases r) auto

lemma wp_if: "(b \<Longrightarrow> wp m Q w) \<Longrightarrow> (\<not> b \<Longrightarrow> wp m' Q w) \<Longrightarrow> wp (if b then m else m') Q w"
  by simp

subsection \<open>What every handler keeps\<close>

definition keeps :: "('s \<Rightarrow> 's \<Rightarrow> bool) \<Rightarrow> ('s, 'a) state \<Rightarrow> bool" where
  "keeps R m \<longleftrightarrow> (\<forall>s. wp m (\<lambda>_ t. R s t) s)"

locale preorder_rel =
  fixes R :: "'s \<Rightarrow> 's \<Rightarrow> bool"
  assumes refl: "R s s"
    and trans: "R s t \<Longrightarrow> R t u \<Longrightarrow> R s u"
begin

lemma keeps_return: "keeps R (State_Monad.return x)"
  by (simp add: keeps_def wp_simps refl)

lemma keeps_bind: "keeps R m \<Longrightarrow> (\<And>a. keeps R (f a)) \<Longrightarrow> keeps R (State_Monad.bind m f)"
proof -
  assume m: "keeps R m" and f: "\<And>a. keeps R (f a)"
  have "wp m (\<lambda>a. wp (f a) (\<lambda>_ t. R s t)) s" for s
  proof (rule wp_mono [where Q = "\<lambda>_ t. R s t"])
    show "wp m (\<lambda>_ t. R s t) s" using m by (simp add: keeps_def)
    fix a t assume "R s t"
    moreover have "wp (f a) (\<lambda>_ u. R t u) t" using f [of a] by (simp add: keeps_def)
    ultimately show "wp (f a) (\<lambda>_ u. R s u) t" using trans by (blast intro: wp_mono)
  qed
  then show ?thesis by (simp add: keeps_def wp_bind)
qed

end

text \<open>The others behave: what they commit are store transactions.\<close>

definition honest :: "env \<Rightarrow> bool" where
  "honest E \<longleftrightarrow> (\<forall>n d. store_steps (e_codec E) d (e_others E n d))"

text \<open>An undisturbed environment: the store works and nobody else writes to anything. The
  caller may still go away at any time, and flintlock may answer anything.\<close>

definition undisturbed :: "env \<Rightarrow> bool" where
  "undisturbed E \<longleftrightarrow> (\<forall>n. \<not> e_dbErr E n \<and> e_others E n = (\<lambda>d. d) \<and> e_othersConns E n = (\<lambda>p. p) \<and>
     e_othersMgr E n = (\<lambda>m. m))"

lemma undisturbed_sample: "undisturbed sample_env"
  by (simp add: undisturbed_def sample_env_def)

lemma undisturbed_honest: "undisturbed E \<Longrightarrow> honest E"
  by (simp add: undisturbed_def honest_def)

lemma wp_storeCall_undisturbed:
  "undisturbed E \<Longrightarrow> wp (storeCall E c f) Q w =
     (let w' = w\<lparr>wstep := Suc (wstep w)\<rparr> in
      if \<not> ctx_ok E c (wstep w) then Q (Inl ErrDB) w'
      else (case f (wstep w) (wdb w) of Inl e \<Rightarrow> Q (Inl e) w' | Inr (a, d') \<Rightarrow> Q (Inr a) (w'\<lparr>wdb := d'\<rparr>)))"
  by (cases w) (simp add: undisturbed_def wp_def storeCall_def Let_def split: sum.splits prod.splits)

lemma ctx_ok_Detached [simp]: "ctx_ok E Detached n"
  by (simp add: ctx_ok_def)

definition runs_store :: "protojson \<Rightarrow> world \<Rightarrow> world \<Rightarrow> bool" where
  "runs_store C w w' \<longleftrightarrow> store_steps C (wdb w) (wdb w')"

interpretation rs: preorder_rel "runs_store C" for C
  by unfold_locales (auto simp: runs_store_def)

named_theorems keeps_intros "which steps of a handler are store transactions"

lemmas keeps_monad [keeps_intros] = rs.keeps_return rs.keeps_bind

lemma keeps_fresh [keeps_intros]: "keeps (runs_store C) fresh"
  by (simp add: keeps_def wp_simps runs_store_def)

lemma keeps_act [keeps_intros]: "keeps (runs_store C) (act a)"
  by (simp add: keeps_def wp_simps runs_store_def)

lemma keeps_getConns [keeps_intros]: "keeps (runs_store C) getConns"
  by (simp add: keeps_def wp_simps runs_store_def)

lemma keeps_putConns [keeps_intros]: "keeps (runs_store C) (putConns p)"
  by (simp add: keeps_def wp_simps runs_store_def)

lemma keeps_getMgr [keeps_intros]: "keeps (runs_store C) getMgr"
  by (simp add: keeps_def wp_simps runs_store_def)

lemma keeps_putMgr [keeps_intros]: "keeps (runs_store C) (putMgr m)"
  by (simp add: keeps_def wp_simps runs_store_def)

lemma keeps_if [keeps_intros]: "(b \<Longrightarrow> keeps R m) \<Longrightarrow> (\<not> b \<Longrightarrow> keeps R m') \<Longrightarrow> keeps R (if b then m else m')"
  by simp

lemma keeps_sum [keeps_intros]:
  "(\<And>e. r = Inl e \<Longrightarrow> keeps R (f e)) \<Longrightarrow> (\<And>a. r = Inr a \<Longrightarrow> keeps R (g a)) \<Longrightarrow>
   keeps R (case r of Inl e \<Rightarrow> f e | Inr a \<Rightarrow> g a)"
  by (cases r) auto

lemma keeps_option [keeps_intros]:
  "(r = None \<Longrightarrow> keeps R m) \<Longrightarrow> (\<And>a. r = Some a \<Longrightarrow> keeps R (g a)) \<Longrightarrow>
   keeps R (case r of None \<Rightarrow> m | Some a \<Rightarrow> g a)"
  by (cases r) auto

lemma keeps_prod [keeps_intros]: "(\<And>a b. r = (a, b) \<Longrightarrow> keeps R (f a b)) \<Longrightarrow> keeps R (case r of (a, b) \<Rightarrow> f a b)"
  by (cases r) auto

lemma keeps_let [keeps_intros]: "(\<And>x. x = t \<Longrightarrow> keeps R (f x)) \<Longrightarrow> keeps R (let x = t in f x)"
  by simp

text \<open>A transaction of the store, as a handler runs it: each of its outcomes is a run of
  store steps.\<close>

definition is_tx :: "protojson \<Rightarrow> (nat \<Rightarrow> db \<Rightarrow> 'a tx) \<Rightarrow> bool" where
  "is_tx C f \<longleftrightarrow> (\<forall>n d a d'. f n d = Inr (a, d') \<longrightarrow> store_steps C d d')"

lemma keeps_storeCall [keeps_intros]:
  assumes "honest E" and "is_tx (e_codec E) f"
  shows "keeps (runs_store (e_codec E)) (storeCall E c f)"
proof -
  have others: "store_steps (e_codec E) d (e_others E n d)" for n d using assms(1) by (simp add: honest_def)
  have "store_steps (e_codec E) d d'" if "f n (e_others E n d) = Inr (a, d')" for n d a d'
    using that assms(2) others [of d n] by (meson is_tx_def rtranclp_trans)
  then show ?thesis using others
    by (auto simp: keeps_def wp_def storeCall_def runs_store_def Let_def split: sum.splits prod.splits)
qed

lemma keeps_Now [keeps_intros]: "keeps (runs_store C) (Now E)"
  unfolding Now_def by (intro keeps_intros)

lemma keeps_NewString [keeps_intros]: "keeps (runs_store C) (NewString E)"
  unfolding NewString_def by (intro keeps_intros)

named_theorems tx_intros "the store's methods are transactions"

lemma tx_step: "(\<And>n d a d'. f n d = Inr (a, d') \<Longrightarrow> store_step C d d') \<Longrightarrow> is_tx C f"
  unfolding is_tx_def by blast

lemma tx_read: "(\<And>n d a d'. f n d = Inr (a, d') \<Longrightarrow> d' = d) \<Longrightarrow> is_tx C f"
  unfolding is_tx_def by blast

lemma tx_writes [tx_intros]:
  "is_tx C (\<lambda>n. CreatePool C p)" "is_tx C (\<lambda>n. UpdatePool C p)" "is_tx C (\<lambda>n. DeletePool name ns)"
  "is_tx C (\<lambda>n. DeletePoolAndMarkVMs (f1 n) name ns force)" "is_tx C (\<lambda>n. CreateVM v)"
  "is_tx C (\<lambda>n. updateVM_exec v)" "is_tx C (\<lambda>n. DeleteVM uid)" "is_tx C (\<lambda>n. DeleteVMCheckingPool uid)"
  "is_tx C (\<lambda>n. ClaimAvailableVM (g1 n) (f1 n) name ns)" "is_tx C (\<lambda>n. CreateLease l)" "is_tx C (\<lambda>n. LeaseVM v l)"
  "is_tx C (\<lambda>n. UpdateLeaseHeartbeat i at ex)" "is_tx C (\<lambda>n. DeleteLease i)"
  "is_tx C (\<lambda>n. DeleteLeaseIfExpired i t)" "is_tx C (\<lambda>n. AppendEvent e)" "is_tx C (\<lambda>n. CreateHost h)"
  "is_tx C (\<lambda>n. UpdateHost_exec (f1 n) h)" "is_tx C (\<lambda>n. DeleteHost name)"
  "is_tx C (\<lambda>n. SetHostCordoned_exec (f1 n) name b reason)" "is_tx C (\<lambda>n. DrainHost (f1 n) (f2 n) name reason)"
  "is_tx C (\<lambda>n. MarkDrainingHostsVMsDeleting (f1 n))" "is_tx C (\<lambda>n. ReservePlacement (f1 n) i host name ns)"
  "is_tx C (\<lambda>n. ReleasePlacement i)" "is_tx C (\<lambda>n. ClearPlacements)"
  by (rule tx_step, erule store_step.intros)+

lemma tx_reads [tx_intros]:
  "is_tx C (\<lambda>n. GetPool C' name ns)" "is_tx C (\<lambda>n. ListPools C')" "is_tx C (\<lambda>n. GetVM uid)"
  "is_tx C (\<lambda>n. ListVMsByPool name ns ph)" "is_tx C (\<lambda>n. ListVMsByPhase p)" "is_tx C (\<lambda>n. updateVM_missed v)"
  "is_tx C (\<lambda>n. GetLease i)" "is_tx C (\<lambda>n. GetLeaseByRequestID i)" "is_tx C (\<lambda>n. ListExpiredLeases t)"
  "is_tx C (\<lambda>n. ListLeases r)" "is_tx C (\<lambda>n. ListEventsSince name ns since lim)"
  "is_tx C (\<lambda>n. ListAllEventsSince since lim)" "is_tx C (\<lambda>n. GetHost name)" "is_tx C (\<lambda>n. CountVMsByHost name)"
  "is_tx C (\<lambda>n. ListHosts)"
  by (rule tx_read; auto simp: GetPool_def ListPools_def GetVM_def ListVMsByPool_def ListVMsByPhase_def
      updateVM_missed_def GetLease_def GetLeaseByRequestID_def ListExpiredLeases_def ListLeases_def
      ListEventsSince_def ListAllEventsSince_def GetHost_def CountVMsByHost_def ListHosts_def
      split: option.splits sum.splits if_splits)+

lemma keeps_UpdateVM [keeps_intros]: "honest E \<Longrightarrow> keeps (runs_store (e_codec E)) (UpdateVM E c v)"
  unfolding UpdateVM_def by (intro keeps_intros tx_intros; assumption)

lemma keeps_UpdateHost_M [keeps_intros]: "honest E \<Longrightarrow> keeps (runs_store (e_codec E)) (UpdateHost_M E c h)"
  unfolding UpdateHost_M_def by (intro keeps_intros tx_intros; assumption)

lemma keeps_SetHostCordoned [keeps_intros]:
  "honest E \<Longrightarrow> keeps (runs_store (e_codec E)) (SetHostCordoned E c name b reason)"
  unfolding SetHostCordoned_def by (intro keeps_intros tx_intros; assumption)

lemma keeps_flint [keeps_intros]:
  "keeps (runs_store C) (flint_conn host)" "keeps (runs_store C) (CheckVersion E c host)"
  "keeps (runs_store C) (CreateMicroVM E c host spec)" "keeps (runs_store C) (GetMicroVM E c host uid)"
  "keeps (runs_store C) (DeleteMicroVM E c host uid)" "keeps (runs_store C) (Exec_M E c host uid cmd)"
  unfolding flint_conn_def CheckVersion_def CreateMicroVM_def GetMicroVM_def DeleteMicroVM_def Exec_M_def
  by (intro keeps_intros)+

lemma keeps_mgr [keeps_intros]:
  "keeps (runs_store C) (StartReconciler_M spec)" "keeps (runs_store C) (StopReconciler_M name ns)"
  "keeps (runs_store C) (StopReconcilerAndWait E name ns)"
  unfolding StartReconciler_M_def StopReconciler_M_def StopReconcilerAndWait_def by (intro keeps_intros)+

end
