(* ===== verification/Provision.thy ===== *)
theory Provision
  imports World Strategy Host_Pick
begin

text \<open>
  Model of \<^verbatim>\<open>src/internal/reconciler/provision.go\<close>, \<^verbatim>\<open>drain.go\<close> and
  \<^verbatim>\<open>hostpick.go\<close>: creating a VM and running its create hooks, what happens to it when
  a step fails, and deleting a VM. A function that changes the VM record it is given returns
  or passes on the changed record. Log lines are not modelled. The two polling loops
  (\<open>waitCreated\<close>, \<open>WaitReady\<close>) run under a deadline: their fuel is the number of polls that
  fit before it, and running out of fuel is what the expired context makes of them, a time-out.
\<close>

section \<open>Definitions\<close>

datatype Err =
    EStore StoreErr
  | EFlint FlintErr
  | ERpc Code
  | EExec ExecErr
  | ENoUid
  | ErrNoEligibleHost
  | ErrCreateTimedOut
  | ErrCreateFailed
  | ErrHookFailed

definition hookCreate :: string where "hookCreate = ''create''"
definition hookPreLease :: string where "hookPreLease = ''pre_lease''"

record ProvisionConfig =
  CreatePollInterval :: Duration
  CreatePollTimeout :: Duration
  GuestAgentInterval :: Duration
  GuestAgentTimeout :: Duration
  ExecTimeoutSeconds :: int

definition second :: Duration where "second = 1000000000"

definition DefaultProvisionConfig :: ProvisionConfig where
  "DefaultProvisionConfig = \<lparr>CreatePollInterval = 2 * second, CreatePollTimeout = 60 * second,
     GuestAgentInterval = 1 * second, GuestAgentTimeout = 30 * second, ExecTimeoutSeconds = 0\<rparr>"

text \<open>\<open>NewProvisioner\<close> fills in the settings that are not positive.\<close>

definition NewProvisioner :: "ProvisionConfig \<Rightarrow> ProvisionConfig" where
  "NewProvisioner cfg =
     (let def = DefaultProvisionConfig;
          cfg = (if CreatePollInterval cfg \<le> 0 then cfg\<lparr>CreatePollInterval := CreatePollInterval def\<rparr> else cfg);
          cfg = (if CreatePollTimeout cfg \<le> 0 then cfg\<lparr>CreatePollTimeout := CreatePollTimeout def\<rparr> else cfg);
          cfg = (if GuestAgentInterval cfg \<le> 0 then cfg\<lparr>GuestAgentInterval := GuestAgentInterval def\<rparr> else cfg);
          cfg = (if GuestAgentTimeout cfg \<le> 0 then cfg\<lparr>GuestAgentTimeout := GuestAgentTimeout def\<rparr> else cfg)
      in cfg)"

subsection \<open>Host selection\<close>

definition ineligibleHosts :: "env \<Rightarrow> ctx \<Rightarrow> PoolSpec \<Rightarrow> (Err + (string \<Rightarrow> bool)) M" where
  "ineligibleHosts E c pool = do {
     r \<leftarrow> storeCall E c (\<lambda>_. ListHosts);
     case r of Inl e \<Rightarrow> ret (Inl (EStore e))
     | Inr registered \<Rightarrow> ret (Inr (ineligible_of registered pool)) }"

definition PickHost :: "env \<Rightarrow> ctx \<Rightarrow> PoolSpec \<Rightarrow> (string \<Rightarrow> bool) \<Rightarrow> (Err + string) M" where
  "PickHost E c pool ineligible =
     (if filter (\<lambda>h. \<not> ineligible h) (ps_FlintlockHosts pool) = [] then ret (Inl ErrNoEligibleHost)
      else do {
        r \<leftarrow> storeCall E c (\<lambda>_. ListVMsByPool (ps_Name pool) (ps_Namespace pool) None);
        case r of Inl e \<Rightarrow> ret (Inl (EStore e))
        | Inr vs \<Rightarrow>
          (case pickHost_of vs pool ineligible of None \<Rightarrow> ret (Inl ErrNoEligibleHost) | Some h \<Rightarrow> ret (Inr h)) })"

subsection \<open>Events and deletion\<close>

definition EmitEvent :: "env \<Rightarrow> ctx \<Rightarrow> PoolSpec \<Rightarrow> string \<Rightarrow> EventType \<Rightarrow> unit M" where
  "EmitEvent E c pool uid t = do {
     now \<leftarrow> Now E;
     _ \<leftarrow> storeCall E c (\<lambda>_. AppendEvent \<lparr>e_Id = 0, e_PoolName = ps_Name pool, e_VmUid = uid, e_Type = t,
            e_CreatedAt = Some now, e_PayloadJson = [], e_PoolNamespace = ps_Namespace pool\<rparr>);
     ret () }"

definition markDeleting :: "env \<Rightarrow> VMRecord \<Rightarrow> VMRecord M" where
  "markDeleting E vm = do { now \<leftarrow> Now E; ret (vm\<lparr>vm_Phase := DELETING, vm_UpdatedAt := Some now\<rparr>) }"

definition EnsureVMDeletedCheckingPool :: "env \<Rightarrow> ctx \<Rightarrow> VMRecord \<Rightarrow> (Err + bool) M" where
  "EnsureVMDeletedCheckingPool E c vm = do {
     marked \<leftarrow> (if vm_Phase vm \<noteq> DELETING
                then do { vm' \<leftarrow> markDeleting E vm; UpdateVM E c vm' }
                else ret (Inr ()));
     case marked of Inl e \<Rightarrow> ret (Inl (EStore e))
     | Inr _ \<Rightarrow> do {
         client \<leftarrow> flint_conn (vm_FlintlockHost vm);
         case client of Inl e \<Rightarrow> ret (Inl (EFlint e))
         | Inr _ \<Rightarrow> do {
             r \<leftarrow> DeleteMicroVM E c (vm_FlintlockHost vm) (vm_Uid vm);
             (if r \<noteq> None \<and> r \<noteq> Some NotFound then ret (Inl (ERpc (the r)))
              else do {
                d \<leftarrow> storeCall E c (\<lambda>_. DeleteVMCheckingPool (vm_Uid vm));
                case d of Inl e \<Rightarrow> ret (Inl (EStore e)) | Inr poolExists \<Rightarrow> ret (Inr poolExists) }) } } }"

definition EnsureVMDeleted :: "env \<Rightarrow> ctx \<Rightarrow> VMRecord \<Rightarrow> Err option M" where
  "EnsureVMDeleted E c vm = do {
     r \<leftarrow> EnsureVMDeletedCheckingPool E c vm;
     ret (case r of Inl e \<Rightarrow> Some e | Inr _ \<Rightarrow> None) }"

text \<open>\<open>notifier\<close> and \<open>m\<close> say whether the notifier and the metrics registry are set (not nil).\<close>

definition FinishVMRelease :: "env \<Rightarrow> ctx \<Rightarrow> PoolSpec \<Rightarrow> VMRecord \<Rightarrow> LeaseRecord \<Rightarrow> bool \<Rightarrow> bool \<Rightarrow> unit M" where
  "FinishVMRelease E c pool vm lease notifier m = do {
     (if m then do {
        act (A_Metric (M_VMRelease (ps_Name pool) (ps_Namespace pool) ''api''));
        _ \<leftarrow> Now E;
        act (A_Metric (M_LeaseDuration (ps_Name pool) (ps_Namespace pool))) }
      else ret ());
     _ \<leftarrow> storeCall E c (\<lambda>_. DeleteLease (l_LeaseId lease));
     EmitEvent E c pool (vm_Uid vm) VM_DELETED_ON_RELEASE;
     (if notifier then act (A_NotifyVMDeleted (ps_Name pool) (ps_Namespace pool)) else ret ()) }"

definition FinishVMDeletion :: "env \<Rightarrow> ctx \<Rightarrow> PoolSpec \<Rightarrow> VMRecord \<Rightarrow> bool \<Rightarrow> bool \<Rightarrow> unit M" where
  "FinishVMDeletion E c pool vm notifier m = do {
     lease \<leftarrow> (if GetLeaseId vm \<noteq> [] then storeCall E c (\<lambda>_. GetLease (GetLeaseId vm)) else ret (Inl ErrNotFound));
     case lease of
       Inr l \<Rightarrow> FinishVMRelease E c pool vm l notifier m
     | Inl _ \<Rightarrow> do {
         EmitEvent E c pool (vm_Uid vm) VM_DELETED_DUE_TO_EXPIRY;
         (if notifier then act (A_NotifyVMDeleted (ps_Name pool) (ps_Namespace pool)) else ret ()) } }"

definition vmPool :: "VMRecord \<Rightarrow> PoolSpec" where
  "vmPool vm = \<lparr>ps_Name = vm_PoolName vm, ps_Namespace = vm_PoolNamespace vm, ps_MicrovmTemplate = None, ps_Size = 0,
     ps_FlintlockHosts = [], ps_ReplenishmentStrategy = None, ps_CreateCommands = [], ps_PreLeaseCommands = [],
     ps_HookFailurePolicy = HOOK_FAILURE_POLICY_UNSPECIFIED, ps_HeartbeatInterval = None,
     ps_HeartbeatExpiryThreshold = None\<rparr>"

text \<open>A loop over a list that ignores its results.\<close>

fun for_each :: "('a \<Rightarrow> unit M) \<Rightarrow> 'a list \<Rightarrow> unit M" where
  "for_each f [] = ret ()"
| "for_each f (x # xs) = do { f x; for_each f xs }"

text \<open>\<open>DeleteDrainedVMs\<close>: every event first, then the deletes. The source runs the deletes
  concurrently; here they run one after the other, and what they do meanwhile is part of
  \<open>e_others\<close>. \<open>flint\<close> says whether the connection pool is set.\<close>

definition DeleteDrainedVMs :: "env \<Rightarrow> bool \<Rightarrow> VMRecord list \<Rightarrow> bool \<Rightarrow> unit M" where
  "DeleteDrainedVMs E flint vs notifier =
     (if vs = [] then ret ()
      else do {
        for_each (\<lambda>vm. EmitEvent E Detached (vmPool vm) (vm_Uid vm) VM_DELETED_ON_HOST_DRAIN) vs;
        (if \<not> flint then ret ()
         else for_each (\<lambda>vm. do {
                err \<leftarrow> EnsureVMDeleted E Detached vm;
                (if err = None \<and> notifier then act (A_NotifyVMDeleted (vm_PoolName vm) (vm_PoolNamespace vm)) else ret ())
              }) vs) })"

subsection \<open>Hook failures\<close>

definition deleteAfterHookFailure :: "env \<Rightarrow> VMRecord \<Rightarrow> unit M" where
  "deleteAfterHookFailure E vm = do {
     now \<leftarrow> Now E;
     let vm' = vm\<lparr>vm_Phase := DELETING, vm_LeaseId := None, vm_UpdatedAt := Some now\<rparr>;
     _ \<leftarrow> UpdateVM E Detached vm';
     _ \<leftarrow> EnsureVMDeleted E Detached vm';
     ret () }"

definition ApplyHookFailurePolicy :: "env \<Rightarrow> PoolSpec \<Rightarrow> VMRecord \<Rightarrow> string \<Rightarrow> bool \<Rightarrow> unit M" where
  "ApplyHookFailurePolicy E pool vm hook m = do {
     (case ps_HookFailurePolicy pool of
        QUARANTINE \<Rightarrow> do {
          now \<leftarrow> Now E;
          _ \<leftarrow> UpdateVM E Detached (vm\<lparr>vm_Phase := QUARANTINED, vm_LeaseId := None, vm_UpdatedAt := Some now\<rparr>);
          ret () }
      | _ \<Rightarrow> deleteAfterHookFailure E vm);
     (if m then act (A_Metric (M_HookFailure hook (ps_Name pool) (ps_Namespace pool))) else ret ());
     EmitEvent E Detached pool (vm_Uid vm) VM_HOOK_FAILED }"

text \<open>The provisioner's own entry: a VM that was deleted meanwhile is left alone.\<close>

definition Provisioner_applyHookFailurePolicy :: "env \<Rightarrow> PoolSpec \<Rightarrow> VMRecord \<Rightarrow> unit M" where
  "Provisioner_applyHookFailurePolicy E pool vm = do {
     cur \<leftarrow> storeCall E Detached (\<lambda>_. GetVM (vm_Uid vm));
     (if cur = Inl ErrNotFound \<or> (case cur of Inr v \<Rightarrow> vm_Phase v = DELETING | Inl _ \<Rightarrow> False)
      then ret ()
      else ApplyHookFailurePolicy E pool vm hookCreate True) }"

subsection \<open>Provisioning\<close>

fun waitCreated :: "env \<Rightarrow> ctx \<Rightarrow> nat \<Rightarrow> string \<Rightarrow> string \<Rightarrow> Err option M" where
  "waitCreated E c 0 host uid = ret (Some ErrCreateTimedOut)"
| "waitCreated E c (Suc polls) host uid = do {
     r \<leftarrow> GetMicroVM E c host uid;
     (case r of
        Inl code \<Rightarrow> ret (Some (if code = DeadlineExceeded then ErrCreateTimedOut else ERpc code))
      | Inr (st, _) \<Rightarrow>
        (case st of
           MVM_CREATED \<Rightarrow> ret None
         | MVM_FAILED \<Rightarrow> ret (Some ErrCreateFailed)
         | _ \<Rightarrow> do {
             n \<leftarrow> fresh;
             (if ctx_ok E c n then waitCreated E c polls host uid else ret (Some ErrCreateTimedOut)) })) }"

fun waitReady_loop :: "env \<Rightarrow> ctx \<Rightarrow> nat \<Rightarrow> string \<Rightarrow> string \<Rightarrow> bool M" where
  "waitReady_loop E c 0 host uid = ret False"
| "waitReady_loop E c (Suc attempts) host uid = do {
     r \<leftarrow> Exec_M E c host uid ''true'';
     (case r of Inr _ \<Rightarrow> ret True
      | Inl _ \<Rightarrow> do { n \<leftarrow> fresh; (if ctx_ok E c n then waitReady_loop E c attempts host uid else ret False) }) }"

definition polls_before :: "Duration \<Rightarrow> Duration \<Rightarrow> nat" where
  "polls_before timeout interval = Suc (nat (timeout div interval))"

text \<open>\<open>WaitReady\<close> with the deadline its caller puts on it.\<close>

definition WaitReady :: "env \<Rightarrow> ctx \<Rightarrow> Duration \<Rightarrow> Duration \<Rightarrow> string \<Rightarrow> string \<Rightarrow> bool M" where
  "WaitReady E c timeout interval host uid =
     (if interval \<le> 0 then ret False else waitReady_loop E c (polls_before timeout interval) host uid)"

definition updatePhase :: "env \<Rightarrow> PoolSpec \<Rightarrow> VMRecord \<Rightarrow> VMPhase \<Rightarrow> (Err + VMRecord) M" where
  "updatePhase E pool vm phase = do {
     now \<leftarrow> Now E;
     let vm' = vm\<lparr>vm_Phase := phase, vm_UpdatedAt := Some now\<rparr>;
     r \<leftarrow> UpdateVM E Ctx vm';
     case r of Inl e \<Rightarrow> do { Provisioner_applyHookFailurePolicy E pool vm'; ret (Inl (EStore e)) }
     | Inr _ \<Rightarrow> ret (Inr vm') }"

definition deleteOrphan :: "env \<Rightarrow> VMRecord \<Rightarrow> unit M" where
  "deleteOrphan E vm = do {
     now \<leftarrow> Now E;
     let vm' = vm\<lparr>vm_Phase := DELETING, vm_UpdatedAt := Some now\<rparr>;
     recorded \<leftarrow> storeCall E Detached (\<lambda>_. CreateVM vm');
     (case recorded of
        Inr _ \<Rightarrow> do { _ \<leftarrow> EnsureVMDeleted E Detached vm'; ret () }
      | Inl _ \<Rightarrow> do {
          client \<leftarrow> flint_conn (vm_FlintlockHost vm');
          (case client of Inl _ \<Rightarrow> ret ()
           | Inr _ \<Rightarrow> do { _ \<leftarrow> DeleteMicroVM E Detached (vm_FlintlockHost vm') (vm_Uid vm'); ret () }) }) }"

definition provision_spec :: "PoolSpec \<Rightarrow> string \<Rightarrow> MicroVMSpec" where
  "provision_spec pool i =
     (let spec = (case ps_MicrovmTemplate pool of None \<Rightarrow> empty_MicroVMSpec | Some t \<Rightarrow> t);
          spec = spec\<lparr>mv_AllowGuestAgent := True, mv_Id := i\<rparr>
      in if mv_Namespace spec = [] then spec\<lparr>mv_Namespace := ps_Namespace pool\<rparr> else spec)"

text \<open>The part of \<open>Provision\<close> that holds the placement: from the reserved host to the VM's
  record.\<close>

definition provision_create :: "env \<Rightarrow> PoolSpec \<Rightarrow> string \<Rightarrow> string \<Rightarrow> (Err + VMRecord) M" where
  "provision_create E pool host i = do {
     client \<leftarrow> flint_conn host;
     case client of Inl e \<Rightarrow> ret (Inl (EFlint e))
     | Inr _ \<Rightarrow> do {
     v \<leftarrow> CheckVersion E Ctx host;
     case v of Some e \<Rightarrow> ret (Inl (EFlint e))
     | None \<Rightarrow> do {
     r \<leftarrow> CreateMicroVM E Ctx host (provision_spec pool i);
     case r of Inl code \<Rightarrow> ret (Inl (ERpc code))
     | Inr uid \<Rightarrow>
       if uid = [] then ret (Inl ENoUid)
       else do {
         now \<leftarrow> Now E;
         let vm = \<lparr>vm_Uid = uid, vm_PoolName = ps_Name pool, vm_FlintlockHost = host, vm_Phase = PROVISIONING,
                   vm_LeaseId = None, vm_CreatedAt = Some now, vm_UpdatedAt = Some now,
                   vm_PoolNamespace = ps_Namespace pool\<rparr>;
         w \<leftarrow> storeCall E Ctx (\<lambda>_. CreateVM vm);
         case w of Inl e \<Rightarrow> do { deleteOrphan E vm; ret (Inl (EStore e)) }
         | Inr _ \<Rightarrow> ret (Inr vm) } } } }"

fun run_create_commands :: "env \<Rightarrow> PoolSpec \<Rightarrow> VMRecord \<Rightarrow> string list \<Rightarrow> Err option M" where
  "run_create_commands E pool vm [] = ret None"
| "run_create_commands E pool vm (cmd # cmds) = do {
     r \<leftarrow> Exec_M E Ctx (vm_FlintlockHost vm) (vm_Uid vm) cmd;
     (case r of
        Inl _ \<Rightarrow> do { Provisioner_applyHookFailurePolicy E pool vm; ret (Some ErrHookFailed) }
      | Inr result \<Rightarrow>
        if er_ExitCode result \<noteq> 0
        then do { Provisioner_applyHookFailurePolicy E pool vm; ret (Some ErrHookFailed) }
        else run_create_commands E pool vm cmds) }"

text \<open>The rest of \<open>Provision\<close>: the create commands and the move to AVAILABLE, and before them
  waiting for the microvm to boot.\<close>

definition provision_commands :: "env \<Rightarrow> ProvisionConfig \<Rightarrow> PoolSpec \<Rightarrow> VMRecord \<Rightarrow> Err option M" where
  "provision_commands E cfg pool vm = do {
     ec \<leftarrow> flint_conn (vm_FlintlockHost vm);
     case ec of Inl e \<Rightarrow> do { Provisioner_applyHookFailurePolicy E pool vm; ret (Some (EFlint e)) }
     | Inr _ \<Rightarrow> do {
     ready \<leftarrow> WaitReady E Ctx (GuestAgentTimeout cfg) (GuestAgentInterval cfg) (vm_FlintlockHost vm) (vm_Uid vm);
     (if \<not> ready then do { Provisioner_applyHookFailurePolicy E pool vm; ret (Some ErrHookFailed) }
      else do {
     hooks \<leftarrow> run_create_commands E pool vm (ps_CreateCommands pool);
     case hooks of Some e \<Rightarrow> ret (Some e)
     | None \<Rightarrow> do {
     act (A_Metric (M_HookDuration hookCreate (ps_Name pool) (ps_Namespace pool)));
     a \<leftarrow> updatePhase E pool vm AVAILABLE;
     case a of Inl e \<Rightarrow> ret (Some e)
     | Inr vm2 \<Rightarrow> do {
     EmitEvent E Ctx pool (vm_Uid vm2) VM_AVAILABLE;
     ret None } } }) } }"

definition provision_hooks :: "env \<Rightarrow> ProvisionConfig \<Rightarrow> PoolSpec \<Rightarrow> VMRecord \<Rightarrow> Err option M" where
  "provision_hooks E cfg pool vm = do {
     EmitEvent E Ctx pool (vm_Uid vm) VM_PROVISIONED;
     created \<leftarrow> waitCreated E Ctx (polls_before (CreatePollTimeout cfg) (CreatePollInterval cfg)) (vm_FlintlockHost vm) (vm_Uid vm);
     case created of Some e \<Rightarrow> do { Provisioner_applyHookFailurePolicy E pool vm; ret (Some e) }
     | None \<Rightarrow> do {
     u \<leftarrow> updatePhase E pool vm CREATE_HOOK_RUNNING;
     case u of Inl e \<Rightarrow> ret (Some e)
     | Inr vm1 \<Rightarrow> provision_commands E cfg pool vm1 } }"

definition releasePlacement :: "env \<Rightarrow> string \<Rightarrow> unit M" where
  "releasePlacement E i = do { _ \<leftarrow> storeCall E Detached (\<lambda>_. ReleasePlacement i); ret () }"

definition Provision_body :: "env \<Rightarrow> ProvisionConfig \<Rightarrow> PoolSpec \<Rightarrow> Err option M" where
  "Provision_body E cfg pool = do {
     inel \<leftarrow> ineligibleHosts E Ctx pool;
     case inel of Inl e \<Rightarrow> ret (Some e)
     | Inr ineligible \<Rightarrow> do {
     h \<leftarrow> PickHost E Ctx pool ineligible;
     case h of Inl e \<Rightarrow> ret (Some e)
     | Inr host \<Rightarrow> do {
     u \<leftarrow> NewString E;
     let i = ps_Name pool @ ''-'' @ take 8 u;
     r \<leftarrow> storeCall E Ctx (\<lambda>n. ReservePlacement (e_clock E n) i host (ps_Name pool) (ps_Namespace pool));
     case r of Inl e \<Rightarrow> ret (Some (if e = ErrHostCordoned \<or> e = ErrHostNotRegistered then ErrNoEligibleHost else EStore e))
     | Inr _ \<Rightarrow> do {
     created \<leftarrow> provision_create E pool host i;
     releasePlacement E i;
     case created of Inl e \<Rightarrow> ret (Some e)
     | Inr vm \<Rightarrow> provision_hooks E cfg pool vm } } } }"

definition Provision :: "env \<Rightarrow> ProvisionConfig \<Rightarrow> PoolSpec \<Rightarrow> Err option M" where
  "Provision E cfg pool = do {
     _ \<leftarrow> Now E;
     r \<leftarrow> Provision_body E cfg pool;
     _ \<leftarrow> Now E;
     act (A_Metric (M_ProvisionDuration (ps_Name pool) (ps_Namespace pool)));
     ret r }"

end
