(* ===== verification/Provision_Inv.thy ===== *)
theory Provision_Inv
  imports Provision
begin

text \<open>
  What provisioning and deletion keep, whatever the rest of the system does meanwhile: every
  step of theirs is a store transaction (\<open>runs_store\<close>), so the invariants of the store hold
  throughout.
\<close>

section \<open>Every step is a store transaction\<close>

lemma keeps_for_each [keeps_intros]:
  "(\<And>x. keeps (runs_store C) (f x)) \<Longrightarrow> keeps (runs_store C) (for_each f xs)"
  by (induction xs) (auto intro: keeps_intros)

lemma keeps_policy [keeps_intros]:
  "(p = QUARANTINE \<Longrightarrow> keeps R m) \<Longrightarrow> keeps R m' \<Longrightarrow>
   keeps R (case p of QUARANTINE \<Rightarrow> m | _ \<Rightarrow> m')"
  by (cases p) auto

lemma keeps_state [keeps_intros]:
  "keeps R a \<Longrightarrow> keeps R b \<Longrightarrow> keeps R m \<Longrightarrow>
   keeps R (case st of MVM_CREATED \<Rightarrow> a | MVM_FAILED \<Rightarrow> b | _ \<Rightarrow> m)"
  by (cases st) auto

lemma keeps_ineligibleHosts [keeps_intros]: "honest E \<Longrightarrow> keeps (runs_store (e_codec E)) (ineligibleHosts E c pool)"
  unfolding ineligibleHosts_def by (intro keeps_intros tx_intros; assumption)

lemma keeps_PickHost [keeps_intros]: "honest E \<Longrightarrow> keeps (runs_store (e_codec E)) (PickHost E c pool inel)"
  unfolding PickHost_def by (intro keeps_intros tx_intros; assumption)

lemma keeps_EmitEvent [keeps_intros]: "honest E \<Longrightarrow> keeps (runs_store (e_codec E)) (EmitEvent E c pool uid t)"
  unfolding EmitEvent_def by (intro keeps_intros tx_intros; assumption)

lemma keeps_markDeleting [keeps_intros]: "honest E \<Longrightarrow> keeps (runs_store (e_codec E)) (markDeleting E vm)"
  unfolding markDeleting_def by (intro keeps_intros tx_intros; assumption)

lemma keeps_EnsureVMDeletedCheckingPool [keeps_intros]: "honest E \<Longrightarrow> keeps (runs_store (e_codec E)) (EnsureVMDeletedCheckingPool E c vm)"
  unfolding EnsureVMDeletedCheckingPool_def by (intro keeps_intros tx_intros; assumption)

lemma keeps_EnsureVMDeleted [keeps_intros]: "honest E \<Longrightarrow> keeps (runs_store (e_codec E)) (EnsureVMDeleted E c vm)"
  unfolding EnsureVMDeleted_def by (intro keeps_intros tx_intros; assumption)

lemma keeps_FinishVMRelease [keeps_intros]: "honest E \<Longrightarrow> keeps (runs_store (e_codec E)) (FinishVMRelease E c pool vm lease nt m)"
  unfolding FinishVMRelease_def by (intro keeps_intros tx_intros; assumption)

lemma keeps_FinishVMDeletion [keeps_intros]: "honest E \<Longrightarrow> keeps (runs_store (e_codec E)) (FinishVMDeletion E c pool vm nt m)"
  unfolding FinishVMDeletion_def by (intro keeps_intros tx_intros; assumption)

lemma keeps_DeleteDrainedVMs [keeps_intros]: "honest E \<Longrightarrow> keeps (runs_store (e_codec E)) (DeleteDrainedVMs E fl vs nt)"
  unfolding DeleteDrainedVMs_def by (intro keeps_intros tx_intros; assumption)

lemma keeps_deleteAfterHookFailure [keeps_intros]: "honest E \<Longrightarrow> keeps (runs_store (e_codec E)) (deleteAfterHookFailure E vm)"
  unfolding deleteAfterHookFailure_def by (intro keeps_intros tx_intros; assumption)

lemma keeps_ApplyHookFailurePolicy [keeps_intros]: "honest E \<Longrightarrow> keeps (runs_store (e_codec E)) (ApplyHookFailurePolicy E pool vm hook m)"
  unfolding ApplyHookFailurePolicy_def by (intro keeps_intros tx_intros; assumption)

lemma keeps_Provisioner_applyHookFailurePolicy [keeps_intros]: "honest E \<Longrightarrow> keeps (runs_store (e_codec E)) (Provisioner_applyHookFailurePolicy E pool vm)"
  unfolding Provisioner_applyHookFailurePolicy_def by (intro keeps_intros tx_intros; assumption)

lemma keeps_updatePhase [keeps_intros]: "honest E \<Longrightarrow> keeps (runs_store (e_codec E)) (updatePhase E pool vm phase)"
  unfolding updatePhase_def by (intro keeps_intros tx_intros; assumption)

lemma keeps_deleteOrphan [keeps_intros]: "honest E \<Longrightarrow> keeps (runs_store (e_codec E)) (deleteOrphan E vm)"
  unfolding deleteOrphan_def by (intro keeps_intros tx_intros; assumption)

lemma keeps_provision_create [keeps_intros]: "honest E \<Longrightarrow> keeps (runs_store (e_codec E)) (provision_create E pool host i)"
  unfolding provision_create_def by (intro keeps_intros tx_intros; assumption)

lemma keeps_waitCreated [keeps_intros]: "keeps (runs_store C) (waitCreated E c k host uid)"
proof (induction k)
  case (Suc k)
  then show ?case unfolding waitCreated.simps by (intro keeps_intros; assumption)
qed (simp add: keeps_intros)

lemma keeps_waitReady_loop [keeps_intros]: "keeps (runs_store C) (waitReady_loop E c k host uid)"
proof (induction k)
  case (Suc k)
  then show ?case unfolding waitReady_loop.simps by (intro keeps_intros; assumption)
qed (simp add: keeps_intros)

lemma keeps_WaitReady [keeps_intros]: "keeps (runs_store C) (WaitReady E c t i host uid)"
  unfolding WaitReady_def by (intro keeps_intros)

lemma keeps_run_create_commands [keeps_intros]:
  "honest E \<Longrightarrow> keeps (runs_store (e_codec E)) (run_create_commands E pool vm cmds)"
proof (induction cmds)
  case (Cons cmd cmds)
  then show ?case unfolding run_create_commands.simps by (intro keeps_intros; simp)
qed (simp add: keeps_intros)

lemma keeps_provision_commands [keeps_intros]: "honest E \<Longrightarrow> keeps (runs_store (e_codec E)) (provision_commands E cfg pool vm)"
  unfolding provision_commands_def by (intro keeps_intros tx_intros; assumption)

lemma keeps_provision_hooks [keeps_intros]: "honest E \<Longrightarrow> keeps (runs_store (e_codec E)) (provision_hooks E cfg pool vm)"
  unfolding provision_hooks_def by (intro keeps_intros tx_intros; assumption)

lemma keeps_releasePlacement [keeps_intros]: "honest E \<Longrightarrow> keeps (runs_store (e_codec E)) (releasePlacement E i)"
  unfolding releasePlacement_def by (intro keeps_intros tx_intros; assumption)

lemma keeps_Provision_body [keeps_intros]: "honest E \<Longrightarrow> keeps (runs_store (e_codec E)) (Provision_body E cfg pool)"
  unfolding Provision_body_def by (intro keeps_intros tx_intros; assumption)

lemma keeps_Provision [keeps_intros]: "honest E \<Longrightarrow> keeps (runs_store (e_codec E)) (Provision E cfg pool)"
  unfolding Provision_def by (intro keeps_intros tx_intros; assumption)

end
