(* ===== verification/Reconciler.thy ===== *)
theory Reconciler
  imports Provision_Inv
begin

text \<open>
  Model of \<^verbatim>\<open>src/internal/reconciler/reconciler.go\<close>: counting a pool's VMs, deciding how many
  to provision on each trigger, the start-up recovery of abandoned claims and provisions, and
  the notification channels of the control loop. The goroutines of \<open>provisionN\<close> run one after
  the other here; what they do to each other is part of \<open>e_others\<close>.
\<close>

section \<open>Definitions\<close>

definition zero_counts :: VMCounts where
  "zero_counts = \<lparr>Available = 0, Claiming = 0, Leased = 0, Provisioning = 0, Quarantined = 0\<rparr>"

fun count_vm :: "string set \<Rightarrow> VMRecord \<Rightarrow> VMCounts \<Rightarrow> VMCounts" where
  "count_vm committed vm counts =
     (case vm_Phase vm of
        AVAILABLE \<Rightarrow> counts\<lparr>Available := Available counts + 1\<rparr>
      | PRE_LEASE_HOOK_RUNNING \<Rightarrow> counts\<lparr>Claiming := Claiming counts + 1\<rparr>
      | LEASED \<Rightarrow> if GetLeaseId vm \<in> committed then counts\<lparr>Leased := Leased counts + 1\<rparr>
                  else counts\<lparr>Claiming := Claiming counts + 1\<rparr>
      | PROVISIONING \<Rightarrow> counts\<lparr>Provisioning := Provisioning counts + 1\<rparr>
      | CREATE_HOOK_RUNNING \<Rightarrow> counts\<lparr>Provisioning := Provisioning counts + 1\<rparr>
      | QUARANTINED \<Rightarrow> counts\<lparr>Quarantined := Quarantined counts + 1\<rparr>
      | _ \<Rightarrow> counts)"

definition count_vms :: "LeaseRecord list \<Rightarrow> VMRecord list \<Rightarrow> VMCounts" where
  "count_vms ls vs = fold (count_vm (set (map l_LeaseId ls))) vs zero_counts"

definition CountVMs :: "env \<Rightarrow> ctx \<Rightarrow> string \<Rightarrow> string \<Rightarrow> (Err + VMCounts) M" where
  "CountVMs E c poolName poolNamespace = do {
     r \<leftarrow> storeCall E c (\<lambda>_. ListVMsByPool poolName poolNamespace None);
     case r of Inl e \<Rightarrow> ret (Inl (EStore e))
     | Inr vs \<Rightarrow> do {
     s \<leftarrow> storeCall E c (\<lambda>_. ListLeases (Some \<lparr>pref_Name = poolName, pref_Namespace = poolNamespace\<rparr>));
     case s of Inl e \<Rightarrow> ret (Inl (EStore e))
     | Inr ls \<Rightarrow> ret (Inr (count_vms ls vs)) } }"

definition TemplateHasStaticNetwork :: "MicroVMSpec option \<Rightarrow> bool" where
  "TemplateHasStaticNetwork template \<longleftrightarrow>
     list_ex (\<lambda>i. ni_GuestMac i \<noteq> [] \<or> ni_Address i \<noteq> None) (mv_GetInterfaces template)"

definition capForStaticNetwork :: "env \<Rightarrow> PoolSpec \<Rightarrow> int M" where
  "capForStaticNetwork E pool = do {
     r \<leftarrow> storeCall E Ctx (\<lambda>_. ListVMsByPool (ps_Name pool) (ps_Namespace pool) None);
     ret (case r of Inl _ \<Rightarrow> 0 | Inr vs \<Rightarrow> if vs \<noteq> [] then 0 else 1) }"

fun provision_times :: "env \<Rightarrow> ProvisionConfig \<Rightarrow> PoolSpec \<Rightarrow> nat \<Rightarrow> unit M" where
  "provision_times E cfg pool 0 = ret ()"
| "provision_times E cfg pool (Suc k) = do { _ \<leftarrow> Provision E cfg pool; provision_times E cfg pool k }"

definition provisionN :: "env \<Rightarrow> ProvisionConfig \<Rightarrow> PoolSpec \<Rightarrow> int \<Rightarrow> unit M" where
  "provisionN E cfg pool n = do {
     n' \<leftarrow> (if n > 0 \<and> TemplateHasStaticNetwork (ps_MicrovmTemplate pool) then capForStaticNetwork E pool else ret n);
     (if n' \<le> 0 then ret () else provision_times E cfg pool (nat n')) }"

definition reconcile :: "env \<Rightarrow> ProvisionConfig \<Rightarrow> PoolSpec \<Rightarrow> (PoolSpec \<Rightarrow> VMCounts \<Rightarrow> int) \<Rightarrow> unit M" where
  "reconcile E cfg pool desired = do {
     r \<leftarrow> CountVMs E Ctx (ps_Name pool) (ps_Namespace pool);
     case r of Inl _ \<Rightarrow> ret () | Inr counts \<Rightarrow> provisionN E cfg pool (desired pool counts) }"

text \<open>The recovery loops: mark each listed VM that is not backed by a lease, stop at the first
  failure, and count.\<close>

fun recover_vms :: "env \<Rightarrow> (VMRecord \<Rightarrow> bool) \<Rightarrow> VMRecord list \<Rightarrow> int \<Rightarrow> (Err option \<times> int) M" where
  "recover_vms E skip [] recovered = ret (None, recovered)"
| "recover_vms E skip (vm # vs) recovered =
     (if skip vm then recover_vms E skip vs recovered
      else do {
        now \<leftarrow> Now E;
        r \<leftarrow> UpdateVM E Ctx (vm\<lparr>vm_Phase := DELETING, vm_UpdatedAt := Some now\<rparr>);
        (case r of Inl e \<Rightarrow> ret (Some (EStore e), recovered)
         | Inr _ \<Rightarrow> recover_vms E skip vs (recovered + 1)) })"

fun recover_phases :: "env \<Rightarrow> (VMRecord \<Rightarrow> bool) \<Rightarrow> VMPhase list \<Rightarrow> int \<Rightarrow> (Err option \<times> int) M" where
  "recover_phases E skip [] recovered = ret (None, recovered)"
| "recover_phases E skip (phase # phases) recovered = do {
     r \<leftarrow> storeCall E Ctx (\<lambda>_. ListVMsByPhase phase);
     (case r of Inl e \<Rightarrow> ret (Some (EStore e), recovered)
      | Inr vs \<Rightarrow> do {
          s \<leftarrow> recover_vms E skip vs recovered;
          (case s of (err, n) \<Rightarrow> if err = None then recover_phases E skip phases n else ret (err, n)) }) }"

definition RecoverAbandonedClaims :: "env \<Rightarrow> (Err option \<times> int) M" where
  "RecoverAbandonedClaims E = do {
     r \<leftarrow> storeCall E Ctx (\<lambda>_. ListLeases None);
     case r of Inl e \<Rightarrow> ret (Some (EStore e), 0)
     | Inr ls \<Rightarrow> recover_phases E (\<lambda>vm. GetLeaseId vm \<in> set (map l_LeaseId ls)) [PRE_LEASE_HOOK_RUNNING, LEASED] 0 }"

definition RecoverAbandonedProvisions :: "env \<Rightarrow> (Err option \<times> int) M" where
  "RecoverAbandonedProvisions E = recover_phases E (\<lambda>vm. False) [PROVISIONING, CREATE_HOOK_RUNNING] 0"

subsection \<open>The control loop\<close>

text \<open>The two notification channels, each with a buffer of one: a non-blocking send into a
  full buffer is dropped. \<open>loop_step\<close> is one turn of \<open>Run\<close>: it takes a pending notification
  or a tick and reconciles with the matching hook.\<close>

record channels =
  ch_claimed :: bool
  ch_deleted :: bool

datatype LoopEvent = LNotifyClaimed | LNotifyDeleted | LTick | LTakeClaimed | LTakeDeleted

fun loop_step :: "LoopEvent \<Rightarrow> channels \<Rightarrow> (Trigger option \<times> channels) option" where
  "loop_step LNotifyClaimed ch = Some (None, ch\<lparr>ch_claimed := True\<rparr>)"
| "loop_step LNotifyDeleted ch = Some (None, ch\<lparr>ch_deleted := True\<rparr>)"
| "loop_step LTick ch = Some (Some Tick_Trigger, ch)"
| "loop_step LTakeClaimed ch = (if ch_claimed ch then Some (Some Claimed_Trigger, ch\<lparr>ch_claimed := False\<rparr>) else None)"
| "loop_step LTakeDeleted ch = (if ch_deleted ch then Some (Some Deleted_Trigger, ch\<lparr>ch_deleted := False\<rparr>) else None)"

fun loop_run :: "LoopEvent list \<Rightarrow> channels \<Rightarrow> (Trigger list \<times> channels) option" where
  "loop_run [] ch = Some ([], ch)"
| "loop_run (e # es) ch =
     (case loop_step e ch of None \<Rightarrow> None
      | Some (t, ch1) \<Rightarrow>
        (case loop_run es ch1 of None \<Rightarrow> None
         | Some (ts, ch2) \<Rightarrow> Some ((case t of None \<Rightarrow> ts | Some x \<Rightarrow> x # ts), ch2)))"

text \<open>\<open>New\<close>: the strategy of the pool, and the interval of the ticker.\<close>

datatype NewErr = ErrPoolRequired | ErrStrategy StrategyErr

definition DefaultTickInterval :: Duration where "DefaultTickInterval = 10 * second"

definition Reconciler_New :: "PoolSpec option \<Rightarrow> Duration \<Rightarrow> NewErr + (Strategy \<times> Duration)" where
  "Reconciler_New pool tickInterval =
     (case pool of None \<Rightarrow> Inl ErrPoolRequired
      | Some p \<Rightarrow>
        (case NewStrategy (ps_ReplenishmentStrategy p) of Inl e \<Rightarrow> Inl (ErrStrategy e)
         | Inr st \<Rightarrow> Inr (st, if tickInterval \<le> 0 then DefaultTickInterval else tickInterval)))"

text \<open>\<open>Run\<close>: one pass at the start, then one for each trigger the loop takes (\<open>loop_run\<close>).\<close>

fun trigger_hook :: "Strategy \<Rightarrow> Trigger \<Rightarrow> PoolSpec \<Rightarrow> VMCounts \<Rightarrow> int" where
  "trigger_hook st Tick_Trigger = DesiredNewVMs st"
| "trigger_hook st Claimed_Trigger = OnVMClaimed st"
| "trigger_hook st Deleted_Trigger = OnVMDeleted st"

fun run_passes :: "env \<Rightarrow> ProvisionConfig \<Rightarrow> PoolSpec \<Rightarrow> Strategy \<Rightarrow> Trigger list \<Rightarrow> unit M" where
  "run_passes E cfg pool st [] = ret ()"
| "run_passes E cfg pool st (t # ts) = do { reconcile E cfg pool (trigger_hook st t); run_passes E cfg pool st ts }"

definition Reconciler_Run :: "env \<Rightarrow> ProvisionConfig \<Rightarrow> PoolSpec \<Rightarrow> Strategy \<Rightarrow> Trigger list \<Rightarrow> unit M" where
  "Reconciler_Run E cfg pool st ts = do { reconcile E cfg pool (DesiredNewVMs st); run_passes E cfg pool st ts }"

text \<open>The manager's notifiers pass a notification on to the reconciler of the pool, if one is
  tracked; each reconciler has its own channels.\<close>

definition Manager_NotifyVMClaimed :: "string \<Rightarrow> string \<Rightarrow> manager \<Rightarrow> (nat \<Rightarrow> channels) \<Rightarrow> nat \<Rightarrow> channels" where
  "Manager_NotifyVMClaimed name ns m chs =
     (case mg_handles m (PoolKey name ns) of None \<Rightarrow> chs
      | Some h \<Rightarrow> chs(rh_id h := (chs (rh_id h))\<lparr>ch_claimed := True\<rparr>))"

definition Manager_NotifyVMDeleted :: "string \<Rightarrow> string \<Rightarrow> manager \<Rightarrow> (nat \<Rightarrow> channels) \<Rightarrow> nat \<Rightarrow> channels" where
  "Manager_NotifyVMDeleted name ns m chs =
     (case mg_handles m (PoolKey name ns) of None \<Rightarrow> chs
      | Some h \<Rightarrow> chs(rh_id h := (chs (rh_id h))\<lparr>ch_deleted := True\<rparr>))"

section \<open>Facts\<close>

lemma keeps_CountVMs [keeps_intros]: "honest E \<Longrightarrow> keeps (runs_store (e_codec E)) (CountVMs E c n ns)"
  unfolding CountVMs_def by (intro keeps_intros tx_intros; assumption)

lemma keeps_capForStaticNetwork [keeps_intros]: "honest E \<Longrightarrow> keeps (runs_store (e_codec E)) (capForStaticNetwork E pool)"
  unfolding capForStaticNetwork_def by (intro keeps_intros tx_intros; assumption)

lemma keeps_provision_times [keeps_intros]: "honest E \<Longrightarrow> keeps (runs_store (e_codec E)) (provision_times E cfg pool k)"
  by (induction k) (auto intro: keeps_intros)

lemma keeps_provisionN [keeps_intros]: "honest E \<Longrightarrow> keeps (runs_store (e_codec E)) (provisionN E cfg pool n)"
  unfolding provisionN_def by (intro keeps_intros tx_intros; assumption)

lemma keeps_reconcile [keeps_intros]: "honest E \<Longrightarrow> keeps (runs_store (e_codec E)) (reconcile E cfg pool des)"
  unfolding reconcile_def by (intro keeps_intros tx_intros; assumption)

lemma keeps_recover_vms [keeps_intros]: "honest E \<Longrightarrow> keeps (runs_store (e_codec E)) (recover_vms E skip vs k)"
  by (induction vs arbitrary: k) (auto intro: keeps_intros)

lemma keeps_recover_phases [keeps_intros]: "honest E \<Longrightarrow> keeps (runs_store (e_codec E)) (recover_phases E skip ps k)"
  by (induction ps arbitrary: k) (auto intro!: keeps_intros tx_intros)

lemma keeps_Recover [keeps_intros]:
  "honest E \<Longrightarrow> keeps (runs_store (e_codec E)) (RecoverAbandonedClaims E)"
  "honest E \<Longrightarrow> keeps (runs_store (e_codec E)) (RecoverAbandonedProvisions E)"
  unfolding RecoverAbandonedClaims_def RecoverAbandonedProvisions_def by (intro keeps_intros tx_intros; assumption)+


section \<open>Counts\<close>

text \<open>Every VM is counted at most once.\<close>

definition total :: "VMCounts \<Rightarrow> int" where
  "total c = Available c + Claiming c + Leased c + Provisioning c + Quarantined c"

definition nonneg :: "VMCounts \<Rightarrow> bool" where
  "nonneg c \<longleftrightarrow> 0 \<le> Available c \<and> 0 \<le> Claiming c \<and> 0 \<le> Leased c \<and> 0 \<le> Provisioning c \<and> 0 \<le> Quarantined c"

lemma count_vms_bounds: "nonneg (count_vms ls vs) \<and> total (count_vms ls vs) \<le> int (length vs)"
proof -
  have "nonneg (fold (count_vm ids) vs c) \<and> total (fold (count_vm ids) vs c) \<le> total c + int (length vs)"
    if "nonneg c" for ids c
    using that
  proof (induction vs arbitrary: c)
    case (Cons v vs)
    have "nonneg (count_vm ids v c)" "total (count_vm ids v c) \<le> total c + 1"
      using Cons.prems by (auto simp: nonneg_def total_def split: VMPhase.split)
    then show ?case using Cons.IH [of "count_vm ids v c"] by (simp del: count_vm.simps)
  qed simp
  from this [of zero_counts "set (map l_LeaseId ls)"] show ?thesis
    by (simp add: count_vms_def) (simp add: nonneg_def total_def zero_counts_def)
qed


text \<open>What \<open>CountVMs\<close> reads of a pool.\<close>

definition pool_vms :: "db \<Rightarrow> PoolSpec \<Rightarrow> VMRecord list" where
  "pool_vms d s = (case ListVMsByPool (ps_Name s) (ps_Namespace s) None d of Inr (vs, _) \<Rightarrow> vs | Inl _ \<Rightarrow> [])"

definition pool_leases :: "db \<Rightarrow> PoolSpec \<Rightarrow> LeaseRecord list" where
  "pool_leases d s = (case ListLeases (Some \<lparr>pref_Name = ps_Name s, pref_Namespace = ps_Namespace s\<rparr>) d of Inr (ls, _) \<Rightarrow> ls | Inl _ \<Rightarrow> [])"

lemma wp_CountVMs:
  assumes E: "undisturbed E"
  shows "wp (CountVMs E Ctx (ps_Name s) (ps_Namespace s)) (\<lambda>r w'. wdb w' = wdb w \<and> (case r of
      Inl _ \<Rightarrow> \<exists>n. e_cancelled E n | Inr c \<Rightarrow> c = count_vms (pool_leases (wdb w) s) (pool_vms (wdb w) s))) w"
  using E by (auto simp: CountVMs_def wp_bind wp_return wp_storeCall_undisturbed ListVMsByPool_def ListLeases_def
      pool_vms_def pool_leases_def Let_def ctx_ok_def)

text \<open>The VMs a strategy counts toward the size of the pool.\<close>

definition toward :: "Strategy \<Rightarrow> string set \<Rightarrow> VMRecord \<Rightarrow> bool" where
  "toward st ids vm \<longleftrightarrow> vm_Phase vm \<in> {AVAILABLE, PRE_LEASE_HOOK_RUNNING, PROVISIONING, CREATE_HOOK_RUNNING} \<or>
     vm_Phase vm = LEASED \<and> (st \<noteq> immediateOnLease \<or> GetLeaseId vm \<notin> ids)"

lemma counted_count_vms: "counted st (count_vms ls vs) = sql_count (toward st (set (map l_LeaseId ls))) vs"
proof -
  have "counted st (count_vm ids v c) = counted st c + (if toward st ids v then 1 else 0)" for ids v c
    by (cases st) (auto simp: toward_def split: VMPhase.split)
  then have "counted st (fold (count_vm ids) vs c) = counted st c + sql_count (toward st ids) vs" for ids c
    by (induction vs arbitrary: c) (simp_all add: sql_count_def del: count_vm.simps)
  moreover have "counted st zero_counts = 0" by (cases st) (simp_all add: zero_counts_def)
  ultimately show ?thesis by (simp add: count_vms_def)
qed

lemma sql_count_sort: "sql_count P (map rowToVM (sort_key f rows)) = sql_count (P \<circ> rowToVM) rows"
  by (simp add: sql_count_def filter_map filter_sort)

end
