(* ===== verification/Cleanup.thy ===== *)
theory Cleanup
  imports Reconciler
begin

text \<open>
  What the clean-up paths leave of one VM. In an undisturbed environment (the store works,
  nobody else writes; the caller may still be cancelled at any point and flintlock may answer
  anything) the clean-up shared by provisioning and claiming touches the VM's own row only, and
  leaves it quarantined, about to be deleted, or gone. A \<open>frame\<close> is the rest of the database:
  the rows before and after the VM's own.
\<close>

section \<open>Definitions\<close>

text \<open>Nothing but events, connections and the trace differs.\<close>

definition same_core :: "world \<Rightarrow> world \<Rightarrow> bool" where
  "same_core w w' \<longleftrightarrow> vms (wdb w') = vms (wdb w) \<and> placements (wdb w') = placements (wdb w) \<and>
     leases (wdb w') = leases (wdb w) \<and> pools (wdb w') = pools (wdb w) \<and> hosts (wdb w') = hosts (wdb w)"

text \<open>The database is the frame, up to events, with these VM and placement rows added.\<close>

record frame = db +
  f_after :: "vmRow list"

definition at :: "frame \<Rightarrow> vmRow list \<Rightarrow> placementRow list \<Rightarrow> world \<Rightarrow> bool" where
  "at d0 rows pls w \<longleftrightarrow> vms (wdb w) = vms d0 @ rows @ f_after d0 \<and> placements (wdb w) = placements d0 @ pls \<and>
     leases (wdb w) = leases d0 \<and> pools (wdb w) = pools d0 \<and> hosts (wdb w) = hosts d0"

definition fresh_uid :: "frame \<Rightarrow> string \<Rightarrow> bool" where
  "fresh_uid d0 uid \<longleftrightarrow> (\<forall>r \<in> set (vms d0) \<union> set (f_after d0). vr_uid r \<noteq> uid)"

text \<open>The row is the one of this VM record; a record with its timestamps set can be written.\<close>

definition own :: "VMRecord \<Rightarrow> vmRow \<Rightarrow> bool" where
  "own vm r \<longleftrightarrow> vr_uid r = vm_Uid vm \<and> vr_poolName r = vm_PoolName vm \<and>
     vr_poolNamespace r = vm_PoolNamespace vm \<and> vr_flintlockHost r = vm_FlintlockHost vm"

definition writable :: "VMRecord \<Rightarrow> bool" where
  "writable vm \<longleftrightarrow> vm_CreatedAt vm \<noteq> None \<and> vm_UpdatedAt vm \<noteq> None"

text \<open>What a failed attempt may leave: nothing, or the VM quarantined or about to be deleted.\<close>

definition failed :: "frame \<Rightarrow> VMRecord \<Rightarrow> placementRow list \<Rightarrow> world \<Rightarrow> bool" where
  "failed d0 vm pls w \<longleftrightarrow> at d0 [] pls w \<or>
     (\<exists>r. at d0 [r] pls w \<and> own vm r \<and> vr_phase r \<in> {QUARANTINED, DELETING})"

text \<open>The VM is recorded as provisioning is under way.\<close>

definition in_progress :: "frame \<Rightarrow> VMRecord \<Rightarrow> placementRow list \<Rightarrow> world \<Rightarrow> bool" where
  "in_progress d0 vm pls w \<longleftrightarrow> (\<exists>r. at d0 [r] pls w \<and> own vm r \<and> vr_phase r \<noteq> DELETING)"

section \<open>Steps that leave the tables alone\<close>

interpretation sc: preorder_rel same_core
  by unfold_locales (auto simp: same_core_def)

named_theorems core_intros "steps that change nothing but events, connections and the trace"

lemmas core_monad [core_intros] = sc.keeps_return sc.keeps_bind
lemmas core_cases [core_intros] = keeps_if keeps_sum keeps_option keeps_prod keeps_let keeps_state

lemma core_fresh [core_intros]: "keeps same_core fresh"
  by (simp add: keeps_def wp_simps same_core_def)

lemma core_act [core_intros]: "keeps same_core (act a)"
  by (simp add: keeps_def wp_simps same_core_def)

lemma core_getConns [core_intros]: "keeps same_core getConns"
  by (simp add: keeps_def wp_simps same_core_def)

lemma core_putConns [core_intros]: "keeps same_core (putConns p)"
  by (simp add: keeps_def wp_simps same_core_def)

lemma core_storeCall:
  "undisturbed E \<Longrightarrow> (\<And>n d a d'. f n d = Inr (a, d') \<Longrightarrow> vms d' = vms d \<and> placements d' = placements d \<and>
     leases d' = leases d \<and> pools d' = pools d \<and> hosts d' = hosts d) \<Longrightarrow> keeps same_core (storeCall E c f)"
  by (auto simp: keeps_def wp_storeCall_undisturbed same_core_def Let_def split: sum.splits prod.splits)

text \<open>A read changes nothing, and its answer is about the database as it is.\<close>

lemma wp_read:
  assumes "undisturbed E" and "\<And>n d a d'. f n d = Inr (a, d') \<Longrightarrow> d' = d"
  shows "wp (storeCall E c f) (\<lambda>res w'. w' = w\<lparr>wstep := Suc (wstep w)\<rparr> \<and>
    (case res of Inl e \<Rightarrow> e = ErrDB \<or> f (wstep w) (wdb w) = Inl e | Inr a \<Rightarrow> f (wstep w) (wdb w) = Inr (a, wdb w))) w"
  using assms(2) by (auto simp: wp_storeCall_undisturbed [OF assms(1)] Let_def split: sum.split)

lemma core_Now [core_intros]: "keeps same_core (Now E)"
  unfolding Now_def by (intro core_intros)

lemma core_EmitEvent [core_intros]: "undisturbed E \<Longrightarrow> keeps same_core (EmitEvent E c pool uid t)"
  unfolding EmitEvent_def
  by (intro core_intros core_storeCall) (auto simp: AppendEvent_def requireTimestamp_def Let_def)

lemma core_flint [core_intros]:
  "keeps same_core (flint_conn host)" "keeps same_core (CheckVersion E c host)"
  "keeps same_core (CreateMicroVM E c host spec)" "keeps same_core (GetMicroVM E c host uid)"
  "keeps same_core (DeleteMicroVM E c host uid)" "keeps same_core (Exec_M E c host uid cmd)"
  unfolding flint_conn_def CheckVersion_def CreateMicroVM_def GetMicroVM_def DeleteMicroVM_def Exec_M_def
  by (intro core_intros)+

lemma core_waitCreated [core_intros]: "keeps same_core (waitCreated E c k host uid)"
proof (induction k)
  case (Suc k)
  then show ?case unfolding waitCreated.simps by (intro core_intros; assumption)
qed (simp add: core_intros)

lemma core_waitReady_loop [core_intros]: "keeps same_core (waitReady_loop E c k host uid)"
proof (induction k)
  case (Suc k)
  then show ?case unfolding waitReady_loop.simps by (intro core_intros; assumption)
qed (simp add: core_intros)

lemma core_WaitReady [core_intros]: "keeps same_core (WaitReady E c t i host uid)"
  unfolding WaitReady_def by (intro core_intros)

lemma at_same_core: "at d0 rows pls w \<Longrightarrow> same_core w w' \<Longrightarrow> at d0 rows pls w'"
  by (simp add: at_def same_core_def)

lemma wp_core: "keeps same_core m \<Longrightarrow> at d0 rows pls w \<Longrightarrow> wp m (\<lambda>_ w'. at d0 rows pls w') w"
proof -
  assume "keeps same_core m" and at: "at d0 rows pls w"
  then have "wp m (\<lambda>_ t. same_core w t) w" unfolding keeps_def by blast
  then show ?thesis by (rule wp_mono) (rule at_same_core [OF at])
qed

lemma wp_core_seq:
  "keeps same_core m \<Longrightarrow> at d0 rows pls w \<Longrightarrow> (\<And>a w'. at d0 rows pls w' \<Longrightarrow> wp (f a) Q w') \<Longrightarrow>
   wp (State_Monad.bind m f) Q w"
  by (rule wp_seq [OF wp_core])

section \<open>Steps on the VM's row\<close>

lemma sql_update_own:
  fixes d0 :: frame
  assumes "fresh_uid d0 (vr_uid r)" "\<And>s. p s \<Longrightarrow> vr_uid s = vr_uid r"
  shows "sql_update p f (vms d0 @ [r] @ f_after d0) = vms d0 @ [if p r then f r else r] @ f_after d0"
proof -
  have "sql_update p f (vms d0) = vms d0" "sql_update p f (f_after d0) = f_after d0"
    by (rule sql_update_none; use assms in \<open>auto simp: fresh_uid_def\<close>)+
  then show ?thesis by (simp add: sql_update_def)
qed

abbreviation update_row :: "vmRow \<Rightarrow> vmRow \<Rightarrow> vmRow" where
  "update_row row r \<equiv> r\<lparr>vr_poolName := vr_poolName row, vr_poolNamespace := vr_poolNamespace row,
     vr_flintlockHost := vr_flintlockHost row, vr_phase := vr_phase row, vr_leaseID := vr_leaseID row,
     vr_updatedAt := vr_updatedAt row\<rparr>"

lemma updateVM_exec_own:
  assumes "vms d = vms d0 @ [r] @ f_after d0" "fresh_uid d0 (vr_uid r)" "vmToRow v = Inr row" "vr_uid row = vr_uid r"
    and "vr_phase r \<noteq> DELETING \<or> vr_phase row = DELETING"
  shows "updateVM_exec v d = Inr (True, d\<lparr>vms := vms d0 @ [update_row row r] @ f_after d0\<rparr>)"
proof -
  let ?m = "\<lambda>s. vr_uid s = vr_uid row \<and> (vr_phase s \<noteq> DELETING \<or> vr_phase row = DELETING)"
  have "0 < sql_count ?m (vms d)" unfolding sql_count_pos assms(1) using assms(4,5) by simp
  moreover have "sql_update ?m f (vms d) = vms d0 @ [if ?m r then f r else r] @ f_after d0" for f
    unfolding assms(1) by (rule sql_update_own [OF assms(2)]) (simp add: assms(4))
  ultimately show ?thesis using assms(3-5) by (simp add: updateVM_exec_def Let_def)
qed

lemma vmToRow_ok: "writable v \<Longrightarrow> \<exists>row. vmToRow v = Inr row"
  by (auto simp: writable_def vmToRow_def requireTimestamp_def)

lemma wp_UpdateVM_at:
  assumes E: "undisturbed E" and at: "at d0 [r] pls w" and fr: "fresh_uid d0 (vm_Uid v)"
    and v: "vr_uid r = vm_Uid v" "writable v" and ph: "vr_phase r \<noteq> DELETING \<or> vm_Phase v = DELETING"
  shows "wp (UpdateVM E c v)
    (\<lambda>res w'. res = Inr () \<and> (\<exists>r'. at d0 [r'] pls w' \<and> own v r' \<and> vr_phase r' = vm_Phase v) \<or>
       res = Inl ErrDB \<and> c = Ctx \<and> at d0 [r] pls w') w"
proof (cases "ctx_ok E c (wstep w)")
  case False
  then have "c = Ctx" by (cases c) (auto simp: ctx_ok_def)
  moreover have "at d0 [r] pls (w\<lparr>wstep := Suc (wstep w)\<rparr>)" using at by (simp add: at_def)
  ultimately show ?thesis using False E
    by (simp add: UpdateVM_def wp_bind wp_return wp_storeCall_undisturbed Let_def)
next
  case True
  obtain row where rowv: "vmToRow v = Inr row" using vmToRow_ok [OF v(2)] by blast
  note row = vmToRow_Inr [OF rowv]
  let ?r = "update_row row r"
  let ?w = "w\<lparr>wstep := Suc (wstep w), wdb := (wdb w)\<lparr>vms := vms d0 @ [?r] @ f_after d0\<rparr>\<rparr>"
  have "vms (wdb w) = vms d0 @ [r] @ f_after d0" using at by (simp add: at_def)
  then have ex: "updateVM_exec v (wdb w) = Inr (True, (wdb w)\<lparr>vms := vms d0 @ [?r] @ f_after d0\<rparr>)"
    by (rule updateVM_exec_own) (use fr v(1) rowv row ph in simp_all)
  have "wp (UpdateVM E c v) Q w = Q (Inr ()) ?w" for Q
    using True E ex by (simp add: UpdateVM_def wp_bind wp_return wp_storeCall_undisturbed Let_def)
  moreover have "at d0 [?r] pls ?w" using at by (simp add: at_def)
  moreover have "own v ?r" "vr_phase ?r = vm_Phase v" using row v(1) by (simp_all add: own_def)
  ultimately show ?thesis by blast
qed

lemma fresh_find_key: "fresh_uid d0 uid \<Longrightarrow> find_key vr_uid uid (vms d0) = None"
  by (auto simp: find_key_None fresh_uid_def)

lemma DeleteVMCheckingPool_own:
  assumes "vms d = vms d0 @ [r] @ f_after d0" "fresh_uid d0 (vr_uid r)"
  shows "\<exists>b. DeleteVMCheckingPool (vr_uid r) d = Inr (b, d\<lparr>vms := vms d0 @ f_after d0\<rparr>)"
proof -
  have none: "find_key vr_uid (vr_uid r) (vms d0) = None"
    by (rule fresh_find_key [OF assms(2)])
  have "sql_delete (\<lambda>s. vr_uid s = vr_uid r) (vms d0) = vms d0"
    "sql_delete (\<lambda>s. vr_uid s = vr_uid r) (f_after d0) = f_after d0"
    using assms(2) by (simp_all add: sql_delete_def fresh_uid_def)
  then have "sql_delete (\<lambda>s. vr_uid s = vr_uid r) (vms d) = vms d0 @ f_after d0" by (simp add: assms(1) sql_delete_def)
  then show ?thesis using none by (simp add: DeleteVMCheckingPool_def assms(1) find_key_append Let_def)
qed

lemma wp_EnsureVMDeleted_at:
  assumes E: "undisturbed E" and at: "at d0 [r] pls w" and fr: "fresh_uid d0 (vr_uid r)"
    and v: "vm_Uid v = vr_uid r" "vm_Phase v = DELETING"
  shows "wp (EnsureVMDeleted E c v) (\<lambda>_ w'. at d0 [r] pls w' \<or> at d0 [] pls w') w"
proof -
  let ?Q = "\<lambda>_ w'. at d0 [r] pls w' \<or> at d0 [] pls w'"
  have del: "wp (storeCall E c (\<lambda>_. DeleteVMCheckingPool (vr_uid r))) ?Q w'" if "at d0 [r] pls w'" for w'
  proof -
    have "vms (wdb w') = vms d0 @ [r] @ f_after d0" using that by (simp add: at_def)
    from DeleteVMCheckingPool_own [OF this fr] obtain b where
      "DeleteVMCheckingPool (vr_uid r) (wdb w') = Inr (b, (wdb w')\<lparr>vms := vms d0 @ f_after d0\<rparr>)" by blast
    then show ?thesis using E that by (simp add: wp_storeCall_undisturbed Let_def at_def)
  qed
  have remove: "wp (State_Monad.bind (DeleteMicroVM E c (vm_FlintlockHost v) (vm_Uid v)) (\<lambda>x.
        if x \<noteq> None \<and> x \<noteq> Some NotFound then ret (Inl (ERpc (the x)))
        else State_Monad.bind (storeCall E c (\<lambda>_. DeleteVMCheckingPool (vm_Uid v)))
          (\<lambda>d. case d of Inl e \<Rightarrow> ret (Inl (EStore e)) | Inr poolExists \<Rightarrow> ret (Inr poolExists)))) ?Q w'"
    if at': "at d0 [r] pls w'" for w'
  proof (rule wp_core_seq [OF core_flint(5) at'])
    fix x u assume u: "at d0 [r] pls u"
    have "wp (State_Monad.bind (storeCall E c (\<lambda>_. DeleteVMCheckingPool (vm_Uid v)))
          (\<lambda>d. case d of Inl e \<Rightarrow> ret (Inl (EStore e)) | Inr poolExists \<Rightarrow> ret (Inr poolExists))) ?Q u"
      unfolding v(1) by (rule wp_seq [OF del [OF u]]) (simp add: wp_return split: sum.splits)
    then show "wp (if x \<noteq> None \<and> x \<noteq> Some NotFound then ret (Inl (ERpc (the x)))
        else State_Monad.bind (storeCall E c (\<lambda>_. DeleteVMCheckingPool (vm_Uid v)))
          (\<lambda>d. case d of Inl e \<Rightarrow> ret (Inl (EStore e)) | Inr poolExists \<Rightarrow> ret (Inr poolExists))) ?Q u"
      using u by (simp add: wp_return)
  qed
  have "wp (EnsureVMDeletedCheckingPool E c v) ?Q w"
    unfolding EnsureVMDeletedCheckingPool_def v(2) not_True_eq_False not_False_eq_True simp_thms if_False
      State_Monad.bind_left_identity sum.case
  proof (rule wp_core_seq [OF core_flint(1) at])
    fix client w' assume at': "at d0 [r] pls w'"
    show "wp (case client of Inl e \<Rightarrow> ret (Inl (EFlint e))
       | Inr x \<Rightarrow> State_Monad.bind (DeleteMicroVM E c (vm_FlintlockHost v) (vm_Uid v)) (\<lambda>r.
        if r \<noteq> None \<and> r \<noteq> Some NotFound then ret (Inl (ERpc (the r)))
        else State_Monad.bind (storeCall E c (\<lambda>_. DeleteVMCheckingPool (vm_Uid v)))
          (\<lambda>d. case d of Inl e \<Rightarrow> ret (Inl (EStore e)) | Inr poolExists \<Rightarrow> ret (Inr poolExists)))) ?Q w'"
    proof (cases client)
      case (Inl e)
      then show ?thesis using at' by (simp add: wp_return)
    next
      case (Inr conn)
      then show ?thesis using remove [OF at'] by (simp only: sum.case)
    qed
  qed
  then show ?thesis unfolding EnsureVMDeleted_def wp_bind wp_return .
qed

lemma wp_EnsureVMDeleted_failed:
  assumes E: "undisturbed E" and fr: "fresh_uid d0 (vm_Uid v)" and v: "vm_Phase v = DELETING"
    and at: "at d0 [r] pls w" "own v r" "vr_phase r = DELETING"
  shows "wp (EnsureVMDeleted E c v) (\<lambda>_ w'. failed d0 v pls w') w"
proof (rule wp_mono)
  show "wp (EnsureVMDeleted E c v) (\<lambda>_ w'. at d0 [r] pls w' \<or> at d0 [] pls w') w"
    by (rule wp_EnsureVMDeleted_at) (use assms in \<open>simp_all add: own_def\<close>)
  fix x t assume "at d0 [r] pls t \<or> at d0 [] pls t"
  then show "failed d0 v pls t" using at(2,3) unfolding failed_def by blast
qed

lemma wp_core_failed:
  "keeps same_core m \<Longrightarrow> failed d0 vm pls w \<Longrightarrow> wp m (\<lambda>_ w'. failed d0 vm pls w') w"
proof -
  assume "keeps same_core m" and f: "failed d0 vm pls w"
  then have "wp m (\<lambda>_ t. same_core w t) w" unfolding keeps_def by blast
  then show ?thesis
  proof (rule wp_mono)
    fix a t assume "same_core w t"
    then show "failed d0 vm pls t" using f at_same_core unfolding failed_def by blast
  qed
qed

lemma wp_core_in_progress:
  assumes "keeps same_core m" "in_progress d0 vm pls w" "\<And>a w'. in_progress d0 vm pls w' \<Longrightarrow> wp (f a) Q w'"
  shows "wp (State_Monad.bind m f) Q w"
proof -
  obtain r where r: "at d0 [r] pls w" "own vm r" "vr_phase r \<noteq> DELETING"
    using assms(2) unfolding in_progress_def by blast
  show ?thesis
  proof (rule wp_core_seq [OF assms(1) r(1)])
    fix a w' assume "at d0 [r] pls w'"
    then have "in_progress d0 vm pls w'" using r unfolding in_progress_def by blast
    then show "wp (f a) Q w'" by (rule assms(3))
  qed
qed

lemma failed_cong [simp]:
  "failed d0 (vm\<lparr>vm_Phase := p\<rparr>) = failed d0 vm" "failed d0 (vm\<lparr>vm_UpdatedAt := t\<rparr>) = failed d0 vm"
  "failed d0 (vm\<lparr>vm_LeaseId := l\<rparr>) = failed d0 vm"
  by (rule ext, rule ext, simp add: failed_def own_def)+

lemma in_progress_cong [simp]:
  "in_progress d0 (vm\<lparr>vm_Phase := p\<rparr>) = in_progress d0 vm" "in_progress d0 (vm\<lparr>vm_UpdatedAt := t\<rparr>) = in_progress d0 vm"
  by (rule ext, rule ext, simp add: in_progress_def own_def)+

lemma wp_deleteAfterHookFailure:
  assumes E: "undisturbed E" and fr: "fresh_uid d0 (vm_Uid vm)" and vm: "vm_CreatedAt vm \<noteq> None"
    and p: "in_progress d0 vm pls w"
  shows "wp (deleteAfterHookFailure E vm) (\<lambda>_ w'. failed d0 vm pls w') w"
  unfolding deleteAfterHookFailure_def Let_def
proof (rule wp_core_in_progress [OF core_Now p])
  fix now w' assume "in_progress d0 vm pls w'"
  then obtain r where r: "at d0 [r] pls w'" "own vm r" unfolding in_progress_def by blast
  let ?vm = "vm\<lparr>vm_Phase := DELETING, vm_LeaseId := None, vm_UpdatedAt := Some now\<rparr>"
  have "wp (UpdateVM E Detached ?vm)
    (\<lambda>res w'. res = Inr () \<and> (\<exists>r'. at d0 [r'] pls w' \<and> own ?vm r' \<and> vr_phase r' = vm_Phase ?vm) \<or>
       res = Inl ErrDB \<and> Detached = Ctx \<and> at d0 [r] pls w') w'"
    by (rule wp_UpdateVM_at [OF E r(1)]) (use fr vm r(2) in \<open>simp_all add: own_def writable_def\<close>)
  then show "wp (State_Monad.bind (UpdateVM E Detached ?vm) (\<lambda>_. State_Monad.bind (EnsureVMDeleted E Detached ?vm) (\<lambda>_. ret ())))
      (\<lambda>_ w'. failed d0 vm pls w') w'"
  proof (rule wp_seq)
    fix a u assume "a = Inr () \<and> (\<exists>r'. at d0 [r'] pls u \<and> own ?vm r' \<and> vr_phase r' = vm_Phase ?vm) \<or>
       a = Inl ErrDB \<and> Detached = Ctx \<and> at d0 [r] pls u"
    then obtain r' where r': "at d0 [r'] pls u" "own ?vm r'" "vr_phase r' = DELETING" by auto
    have "wp (EnsureVMDeleted E Detached ?vm) (\<lambda>_ w'. failed d0 ?vm pls w') u"
      by (rule wp_EnsureVMDeleted_failed [OF E _ _ r']) (simp_all add: fr)
    then show "wp (State_Monad.bind (EnsureVMDeleted E Detached ?vm) (\<lambda>_. ret ())) (\<lambda>_ w'. failed d0 vm pls w') u"
      by (rule wp_seq) (simp add: wp_return)
  qed
qed

lemma wp_ApplyHookFailurePolicy:
  assumes E: "undisturbed E" and fr: "fresh_uid d0 (vm_Uid vm)" and vm: "vm_CreatedAt vm \<noteq> None"
    and p: "in_progress d0 vm pls w"
  shows "wp (ApplyHookFailurePolicy E pool vm hook m) (\<lambda>_ w'. failed d0 vm pls w') w"
proof -
  let ?F = "\<lambda>_ w'. failed d0 vm pls w'"
  have quarantine: "wp (State_Monad.bind (Now E) (\<lambda>now. State_Monad.bind
     (UpdateVM E Detached (vm\<lparr>vm_Phase := QUARANTINED, vm_LeaseId := None, vm_UpdatedAt := Some now\<rparr>)) (\<lambda>_. ret ()))) ?F w"
  proof (rule wp_core_in_progress [OF core_Now p])
    fix now w' assume "in_progress d0 vm pls w'"
    then obtain r where r: "at d0 [r] pls w'" "own vm r" "vr_phase r \<noteq> DELETING" unfolding in_progress_def by blast
    let ?vm = "vm\<lparr>vm_Phase := QUARANTINED, vm_LeaseId := None, vm_UpdatedAt := Some now\<rparr>"
    have "wp (UpdateVM E Detached ?vm)
      (\<lambda>res w'. res = Inr () \<and> (\<exists>r'. at d0 [r'] pls w' \<and> own ?vm r' \<and> vr_phase r' = vm_Phase ?vm) \<or>
         res = Inl ErrDB \<and> Detached = Ctx \<and> at d0 [r] pls w') w'"
      by (rule wp_UpdateVM_at [OF E r(1)]) (use fr vm r in \<open>simp_all add: own_def writable_def\<close>)
    then show "wp (State_Monad.bind (UpdateVM E Detached ?vm) (\<lambda>_. ret ())) ?F w'"
    proof (rule wp_seq)
      fix a u assume "a = Inr () \<and> (\<exists>r'. at d0 [r'] pls u \<and> own ?vm r' \<and> vr_phase r' = vm_Phase ?vm) \<or>
         a = Inl ErrDB \<and> Detached = Ctx \<and> at d0 [r] pls u"
      then obtain r' where "at d0 [r'] pls u" "own vm r'" "vr_phase r' = QUARANTINED" by (auto simp: own_def)
      then show "wp (ret ()) ?F u" unfolding wp_return failed_def by blast
    qed
  qed
  show ?thesis unfolding ApplyHookFailurePolicy_def
  proof (rule wp_seq)
    show "wp (case ps_HookFailurePolicy pool of
        QUARANTINE \<Rightarrow> State_Monad.bind (Now E) (\<lambda>now. State_Monad.bind
          (UpdateVM E Detached (vm\<lparr>vm_Phase := QUARANTINED, vm_LeaseId := None, vm_UpdatedAt := Some now\<rparr>)) (\<lambda>_. ret ()))
      | _ \<Rightarrow> deleteAfterHookFailure E vm) ?F w"
      using quarantine wp_deleteAfterHookFailure [OF assms] by (cases "ps_HookFailurePolicy pool") (simp_all only: HookFailurePolicy.case)
    fix a u assume "failed d0 vm pls u"
    then show "wp (State_Monad.bind (if m then act (A_Metric (M_HookFailure hook (ps_Name pool) (ps_Namespace pool))) else ret ())
        (\<lambda>_. EmitEvent E Detached pool (vm_Uid vm) VM_HOOK_FAILED)) ?F u"
      by (rule wp_core_failed [rotated]) (intro core_intros E)
  qed
qed

lemma wp_Provisioner_policy:
  assumes E: "undisturbed E" and fr: "fresh_uid d0 (vm_Uid vm)" and vm: "vm_CreatedAt vm \<noteq> None"
    and p: "in_progress d0 vm pls w"
  shows "wp (Provisioner_applyHookFailurePolicy E pool vm) (\<lambda>_ w'. failed d0 vm pls w') w"
proof -
  from p obtain r where r: "at d0 [r] pls w" "own vm r" "vr_phase r \<noteq> DELETING" unfolding in_progress_def by blast
  have vms: "vms (wdb w) = vms d0 @ [r] @ f_after d0" using r(1) by (simp add: at_def)
  have none: "find_key vr_uid (vm_Uid vm) (vms d0) = None"
    by (rule fresh_find_key [OF fr])
  have get: "GetVM (vm_Uid vm) (wdb w) = Inr (rowToVM r, wdb w)"
    using none r(2) by (simp add: GetVM_def vms find_key_append own_def)
  have "in_progress d0 vm pls (w\<lparr>wstep := Suc (wstep w)\<rparr>)" using p by (simp add: in_progress_def at_def)
  then show ?thesis using wp_ApplyHookFailurePolicy [OF E fr vm, of pls _ pool hookCreate True] r(3) E
    by (simp add: Provisioner_applyHookFailurePolicy_def wp_bind wp_storeCall_undisturbed get Let_def)
qed

text \<open>The policy, then the error: what every failing step of \<open>Provision\<close> ends with.\<close>

lemma wp_policy_then:
  assumes "undisturbed E" "fresh_uid d0 (vm_Uid vm)" "vm_CreatedAt vm \<noteq> None" "in_progress d0 vm pls w"
    and "\<And>w'. failed d0 vm pls w' \<Longrightarrow> Q x w'"
  shows "wp (State_Monad.bind (Provisioner_applyHookFailurePolicy E pool vm) (\<lambda>_. ret x)) Q w"
  by (rule wp_seq [OF wp_Provisioner_policy [OF assms(1-4)]]) (simp add: wp_return assms(5))

end
