(* ===== verification/Provision_Props.thy ===== *)
theory Provision_Props
  imports Cleanup
begin

text \<open>
  What provisioning leaves behind. In an undisturbed environment a call of \<open>Provision\<close>
  changes at most one VM row, its own, and takes back its placement.
\<close>

section \<open>Facts\<close>

lemma wp_updatePhase:
  assumes E: "undisturbed E" and fr: "fresh_uid d0 (vm_Uid vm)" and vm: "vm_CreatedAt vm \<noteq> None"
    and p: "in_progress d0 vm pls w" and ph: "phase \<noteq> DELETING"
  shows "wp (updatePhase E pool vm phase) (\<lambda>res w'. case res of
      Inl _ \<Rightarrow> failed d0 vm pls w'
    | Inr vm' \<Rightarrow> (\<exists>t. vm' = vm\<lparr>vm_Phase := phase, vm_UpdatedAt := t\<rparr>) \<and>
        (\<exists>r. at d0 [r] pls w' \<and> own vm r \<and> vr_phase r = phase)) w"
  (is "wp _ ?Q w")
  unfolding updatePhase_def Let_def
proof (rule wp_core_in_progress [OF core_Now p])
  fix now w' assume "in_progress d0 vm pls w'"
  then obtain r where r: "at d0 [r] pls w'" "own vm r" "vr_phase r \<noteq> DELETING" unfolding in_progress_def by blast
  let ?vm = "vm\<lparr>vm_Phase := phase, vm_UpdatedAt := Some now\<rparr>"
  have "wp (UpdateVM E Ctx ?vm)
    (\<lambda>res w'. res = Inr () \<and> (\<exists>r'. at d0 [r'] pls w' \<and> own ?vm r' \<and> vr_phase r' = vm_Phase ?vm) \<or>
       res = Inl ErrDB \<and> Ctx = Ctx \<and> at d0 [r] pls w') w'"
    by (rule wp_UpdateVM_at [OF E r(1)]) (use fr vm r in \<open>simp_all add: own_def writable_def\<close>)
  then show "wp (State_Monad.bind (UpdateVM E Ctx ?vm) (\<lambda>r. case r of
      Inl e \<Rightarrow> State_Monad.bind (Provisioner_applyHookFailurePolicy E pool ?vm) (\<lambda>_. ret (Inl (EStore e)))
    | Inr _ \<Rightarrow> ret (Inr ?vm))) ?Q w'"
  proof (rule wp_seq, elim disjE conjE exE)
    fix a :: "StoreErr + unit" and u r' assume "a = Inr ()" "at d0 [r'] pls u" "own ?vm r'" "vr_phase r' = vm_Phase ?vm"
    then show "wp (case a of
      Inl e \<Rightarrow> State_Monad.bind (Provisioner_applyHookFailurePolicy E pool ?vm) (\<lambda>_. ret (Inl (EStore e)))
    | Inr _ \<Rightarrow> ret (Inr ?vm)) ?Q u" by (auto simp: wp_return own_def)
  next
    fix a :: "StoreErr + unit" and u assume a: "a = Inl ErrDB" and "at d0 [r] pls u"
    then have pend: "in_progress d0 ?vm pls u" using r by (auto simp: in_progress_def)
    have "wp (State_Monad.bind (Provisioner_applyHookFailurePolicy E pool ?vm) (\<lambda>_. ret (Inl (EStore ErrDB)))) ?Q u"
      by (rule wp_policy_then [OF E _ _ pend]) (use fr vm in simp_all)
    then show "wp (case a of
      Inl e \<Rightarrow> State_Monad.bind (Provisioner_applyHookFailurePolicy E pool ?vm) (\<lambda>_. ret (Inl (EStore e)))
    | Inr _ \<Rightarrow> ret (Inr ?vm)) ?Q u" by (simp only: a sum.case)
  qed
qed

lemma wp_run_create_commands:
  assumes E: "undisturbed E" and fr: "fresh_uid d0 (vm_Uid vm)" and vm: "vm_CreatedAt vm \<noteq> None"
  shows "in_progress d0 vm pls w \<Longrightarrow> wp (run_create_commands E pool vm cmds)
    (\<lambda>res w'. case res of None \<Rightarrow> in_progress d0 vm pls w' | Some _ \<Rightarrow> failed d0 vm pls w') w"
proof (induction cmds arbitrary: w)
  case Nil
  then show ?case by (simp add: wp_return)
next
  case (Cons cmd cmds)
  let ?Q = "\<lambda>res w'. case res of None \<Rightarrow> in_progress d0 vm pls w' | Some _ \<Rightarrow> failed d0 vm pls w'"
  let ?stop = "State_Monad.bind (Provisioner_applyHookFailurePolicy E pool vm) (\<lambda>_. ret (Some ErrHookFailed))"
  show ?case unfolding run_create_commands.simps
  proof (rule wp_core_in_progress [OF core_flint(6) Cons.prems])
    fix a u assume u: "in_progress d0 vm pls u"
    have "wp ?stop ?Q u" by (rule wp_policy_then [OF E fr vm u]) simp
    then show "wp (case a of Inl x \<Rightarrow> ?stop
      | Inr result \<Rightarrow> if er_ExitCode result \<noteq> 0 then ?stop else run_create_commands E pool vm cmds) ?Q u"
      using Cons.IH [OF u] by (simp split: sum.split)
  qed
qed

section \<open>The two halves of \<open>Provision\<close>\<close>

text \<open>What a whole run of the hooks leaves: AVAILABLE on success, cleaned up otherwise.\<close>

definition hooks_done :: "frame \<Rightarrow> VMRecord \<Rightarrow> placementRow list \<Rightarrow> Err option \<Rightarrow> world \<Rightarrow> bool" where
  "hooks_done d0 vm pls res w \<longleftrightarrow> (case res of
      None \<Rightarrow> \<exists>r. at d0 [r] pls w \<and> own vm r \<and> vr_phase r = AVAILABLE
    | Some _ \<Rightarrow> failed d0 vm pls w)"

lemma hooks_done_simps [simp]:
  "hooks_done d0 vm pls (Some e) w = failed d0 vm pls w"
  "hooks_done d0 vm pls None w = (\<exists>r. at d0 [r] pls w \<and> own vm r \<and> vr_phase r = AVAILABLE)"
  by (simp_all add: hooks_done_def)

lemma wp_finish:
  assumes E: "undisturbed E" and fr: "fresh_uid d0 (vm_Uid vm)" and vm: "vm_CreatedAt vm \<noteq> None"
    and p: "in_progress d0 vm pls w"
  shows "wp (State_Monad.bind (updatePhase E pool vm AVAILABLE) (\<lambda>a. case a of Inl e \<Rightarrow> ret (Some e)
     | Inr vm2 \<Rightarrow> State_Monad.bind (EmitEvent E Ctx pool (vm_Uid vm2) VM_AVAILABLE) (\<lambda>_. ret None)))
     (hooks_done d0 vm pls) w"
proof (rule wp_seq [OF wp_updatePhase [OF E fr vm p]])
  show "AVAILABLE \<noteq> DELETING" by simp
  fix a :: "Err + VMRecord" and u assume a: "case a of Inl _ \<Rightarrow> failed d0 vm pls u
    | Inr vm' \<Rightarrow> (\<exists>t. vm' = vm\<lparr>vm_Phase := AVAILABLE, vm_UpdatedAt := t\<rparr>) \<and>
        (\<exists>r. at d0 [r] pls u \<and> own vm r \<and> vr_phase r = AVAILABLE)"
  show "wp (case a of Inl e \<Rightarrow> ret (Some e)
     | Inr vm2 \<Rightarrow> State_Monad.bind (EmitEvent E Ctx pool (vm_Uid vm2) VM_AVAILABLE) (\<lambda>_. ret None)) (hooks_done d0 vm pls) u"
  proof (cases a)
    case (Inl e)
    then show ?thesis using a by (simp add: wp_return)
  next
    case (Inr vm2)
    then obtain r where r: "at d0 [r] pls u" "own vm r" "vr_phase r = AVAILABLE" using a by auto
    have "wp (State_Monad.bind (EmitEvent E Ctx pool (vm_Uid vm2) VM_AVAILABLE) (\<lambda>_. ret None)) (hooks_done d0 vm pls) u"
      by (rule wp_core_seq [OF core_EmitEvent [OF E] r(1)]) (use r(2,3) in \<open>auto simp: wp_return\<close>)
    then show ?thesis by (simp add: Inr)
  qed
qed

lemma wp_provision_commands:
  assumes E: "undisturbed E" and fr: "fresh_uid d0 (vm_Uid vm)" and vm: "vm_CreatedAt vm \<noteq> None"
    and p: "in_progress d0 vm pls w"
  shows "wp (provision_commands E cfg pool vm) (hooks_done d0 vm pls) w"
proof -
  have stop: "wp (State_Monad.bind (Provisioner_applyHookFailurePolicy E pool vm) (\<lambda>_. ret (Some e))) (hooks_done d0 vm pls) u"
    if "in_progress d0 vm pls u" for e u
    by (rule wp_policy_then [OF E fr vm that]) simp
  show ?thesis unfolding provision_commands_def
  proof (rule wp_core_in_progress [OF core_flint(1) p], rule wp_sum, erule stop,
      rule wp_core_in_progress [OF core_WaitReady], assumption, rule wp_if, erule stop,
      rule wp_seq [OF wp_run_create_commands [OF E fr vm]], assumption, rule wp_option)
    fix ec w1 conn ready w2 hooks w3
    assume "case hooks of None \<Rightarrow> in_progress d0 vm pls w3 | Some _ \<Rightarrow> failed d0 vm pls w3" "hooks = None"
    then have "in_progress d0 vm pls w3" by simp
    then show "wp (State_Monad.bind (act (A_Metric (M_HookDuration hookCreate (ps_Name pool) (ps_Namespace pool)))) (\<lambda>_.
       State_Monad.bind (updatePhase E pool vm AVAILABLE) (\<lambda>a. case a of Inl e \<Rightarrow> ret (Some e)
         | Inr vm2 \<Rightarrow> State_Monad.bind (EmitEvent E Ctx pool (vm_Uid vm2) VM_AVAILABLE) (\<lambda>_. ret None))))
       (hooks_done d0 vm pls) w3"
      by (rule wp_core_in_progress [OF core_act]) (rule wp_finish [OF E fr vm])
  qed (simp add: wp_return)
qed

lemma wp_provision_hooks:
  assumes E: "undisturbed E" and fr: "fresh_uid d0 (vm_Uid vm)" and vm: "vm_CreatedAt vm \<noteq> None"
    and p: "in_progress d0 vm pls w"
  shows "wp (provision_hooks E cfg pool vm) (hooks_done d0 vm pls) w"
  unfolding provision_hooks_def
proof (rule wp_core_in_progress [OF core_EmitEvent [OF E] p], rule wp_core_in_progress [OF core_waitCreated], assumption,
    rule wp_option)
  fix u e assume u: "in_progress d0 vm pls u"
  show "wp (State_Monad.bind (Provisioner_applyHookFailurePolicy E pool vm) (\<lambda>_. ret (Some e))) (hooks_done d0 vm pls) u"
    by (rule wp_policy_then [OF E fr vm u]) simp
next
  fix u assume "in_progress d0 vm pls u"
  then show "wp (State_Monad.bind (updatePhase E pool vm CREATE_HOOK_RUNNING)
      (\<lambda>u. case u of Inl e \<Rightarrow> ret (Some e) | Inr vm1 \<Rightarrow> provision_commands E cfg pool vm1)) (hooks_done d0 vm pls) u"
  proof (rule wp_seq [OF wp_updatePhase [OF E fr vm]])
    fix a :: "Err + VMRecord" and w' assume a: "case a of Inl _ \<Rightarrow> failed d0 vm pls w'
      | Inr vm' \<Rightarrow> (\<exists>t. vm' = vm\<lparr>vm_Phase := CREATE_HOOK_RUNNING, vm_UpdatedAt := t\<rparr>) \<and>
        (\<exists>r. at d0 [r] pls w' \<and> own vm r \<and> vr_phase r = CREATE_HOOK_RUNNING)"
    show "wp (case a of Inl e \<Rightarrow> ret (Some e) | Inr vm1 \<Rightarrow> provision_commands E cfg pool vm1) (hooks_done d0 vm pls) w'"
    proof (rule wp_sum)
      fix vm1 assume "a = Inr vm1"
      with a obtain t r where v: "vm1 = vm\<lparr>vm_Phase := CREATE_HOOK_RUNNING, vm_UpdatedAt := t\<rparr>"
        and r: "at d0 [r] pls w'" "own vm r" "vr_phase r = CREATE_HOOK_RUNNING" by auto
      have pend: "in_progress d0 vm1 pls w'" unfolding v in_progress_cong in_progress_def
        by (rule exI [of _ r]) (simp add: r)
      have "wp (provision_commands E cfg pool vm1) (hooks_done d0 vm1 pls) w'"
        by (rule wp_provision_commands [OF E _ _ pend]) (simp_all add: v fr vm)
      moreover have "hooks_done d0 vm1 pls = hooks_done d0 vm pls"
        by (rule ext, rule ext) (simp add: v hooks_done_def own_def split: option.split)
      ultimately show "wp (provision_commands E cfg pool vm1) (hooks_done d0 vm pls) w'" by simp
    qed (use a in \<open>simp add: wp_return\<close>)
  qed simp
qed

lemma wp_CreateVM_at:
  assumes E: "undisturbed E" and at: "at d0 [] pls w" and v: "writable v" and last: "f_after d0 = []"
  shows "wp (storeCall E c (\<lambda>_. CreateVM v)) (\<lambda>res w'. case res of
      Inl _ \<Rightarrow> at d0 [] pls w'
    | Inr _ \<Rightarrow> fresh_uid d0 (vm_Uid v) \<and> (\<exists>r. at d0 [r] pls w' \<and> own v r \<and> vr_phase r = vm_Phase v)) w"
proof -
  obtain row where rowv: "vmToRow v = Inr row" using vmToRow_ok [OF v] by blast
  note row = vmToRow_Inr [OF rowv]
  have at1: "at d0 [] pls (w\<lparr>wstep := Suc (wstep w)\<rparr>)" and vms: "vms (wdb w) = vms d0"
    using at last by (simp_all add: at_def)
  let ?w = "w\<lparr>wstep := Suc (wstep w), wdb := (wdb w)\<lparr>vms := vms d0 @ [row]\<rparr>\<rparr>"
  have "at d0 [row] pls ?w" using at last by (simp add: at_def)
  moreover have "own v row" "vr_phase row = vm_Phase v" using row by (simp_all add: own_def)
  ultimately have new: "\<exists>r. at d0 [r] pls ?w \<and> own v r \<and> vr_phase r = vm_Phase v" by blast
  have fresh: "fresh_uid d0 (vm_Uid v)" if "find_key vr_uid (vm_Uid v) (vms d0) = None"
    using that unfolding find_key_None fresh_uid_def last by (metis image_eqI empty_set sup_bot_right)
  show ?thesis using E at1 new fresh row
    by (simp add: wp_storeCall_undisturbed Let_def CreateVM_def rowv vms)
qed

lemma wp_deleteOrphan:
  assumes E: "undisturbed E" and at: "at d0 [] pls w" and vm: "vm_CreatedAt vm \<noteq> None" and last: "f_after d0 = []"
  shows "wp (deleteOrphan E vm) (\<lambda>_ w'. failed d0 vm pls w') w"
  unfolding deleteOrphan_def Let_def
proof (rule wp_core_seq [OF core_Now at], rule wp_seq [OF wp_CreateVM_at [OF E]], assumption)
  fix now show "writable (vm\<lparr>vm_Phase := DELETING, vm_UpdatedAt := Some now\<rparr>)" using vm by (simp add: writable_def)
  show "f_after d0 = []" by (rule last)
next
  fix now and recorded :: "StoreErr + unit" and w' :: world
  let ?vm = "vm\<lparr>vm_Phase := DELETING, vm_UpdatedAt := Some now\<rparr>"
  assume c: "case recorded of Inl _ \<Rightarrow> at d0 [] pls w'
    | Inr (_::unit) \<Rightarrow> fresh_uid d0 (vm_Uid ?vm) \<and> (\<exists>r. at d0 [r] pls w' \<and> own ?vm r \<and> vr_phase r = vm_Phase ?vm)"
  show "wp (case recorded of Inl (e::StoreErr) \<Rightarrow> State_Monad.bind (flint_conn (vm_FlintlockHost ?vm)) (\<lambda>client. case client of
          Inl _ \<Rightarrow> ret () | Inr _ \<Rightarrow> State_Monad.bind (DeleteMicroVM E Detached (vm_FlintlockHost ?vm) (vm_Uid ?vm)) (\<lambda>_. ret ()))
      | Inr _ \<Rightarrow> State_Monad.bind (EnsureVMDeleted E Detached ?vm) (\<lambda>_. ret ())) (\<lambda>_ w'. failed d0 vm pls w') w'"
  proof (rule wp_sum)
    fix e assume "recorded = Inl e"
    then have "failed d0 vm pls w'" using c by (simp add: failed_def)
    then show "wp (State_Monad.bind (flint_conn (vm_FlintlockHost ?vm)) (\<lambda>client. case client of
          Inl _ \<Rightarrow> ret () | Inr _ \<Rightarrow> State_Monad.bind (DeleteMicroVM E Detached (vm_FlintlockHost ?vm) (vm_Uid ?vm)) (\<lambda>_. ret ())))
        (\<lambda>_ w'. failed d0 vm pls w') w'"
      by (rule wp_core_failed [rotated]) (intro core_intros)
  next
    fix x assume "recorded = Inr x"
    with c obtain r where fr: "fresh_uid d0 (vm_Uid ?vm)" and r: "at d0 [r] pls w'" "own ?vm r" "vr_phase r = DELETING" by auto
    have "wp (EnsureVMDeleted E Detached ?vm) (\<lambda>_ w'. failed d0 ?vm pls w') w'"
      by (rule wp_EnsureVMDeleted_failed [OF E fr _ r]) simp
    then show "wp (State_Monad.bind (EnsureVMDeleted E Detached ?vm) (\<lambda>_. ret ())) (\<lambda>_ w'. failed d0 vm pls w') w'"
      by (rule wp_seq) (simp add: wp_return)
  qed
qed

text \<open>What the first half leaves: the VM's row, or the failed attempt cleaned up.\<close>

definition for_pool :: "PoolSpec \<Rightarrow> string \<Rightarrow> VMRecord \<Rightarrow> bool" where
  "for_pool pool host vm \<longleftrightarrow> vm_PoolName vm = ps_Name pool \<and> vm_PoolNamespace vm = ps_Namespace pool \<and>
     vm_FlintlockHost vm = host"

definition create_done :: "frame \<Rightarrow> PoolSpec \<Rightarrow> string \<Rightarrow> placementRow list \<Rightarrow> Err + VMRecord \<Rightarrow> world \<Rightarrow> bool" where
  "create_done d0 pool host pls res w \<longleftrightarrow> (case res of
      Inl _ \<Rightarrow> \<exists>vm. for_pool pool host vm \<and> failed d0 vm pls w
    | Inr vm \<Rightarrow> for_pool pool host vm \<and> vm_CreatedAt vm \<noteq> None \<and> fresh_uid d0 (vm_Uid vm) \<and> in_progress d0 vm pls w)"

lemma wp_provision_create:
  assumes E: "undisturbed E" and at: "at d0 [] pls w" and last: "f_after d0 = []"
  shows "wp (provision_create E pool host i) (create_done d0 pool host pls) w"
proof -
  obtain vm0 where vm0: "for_pool pool host vm0"
    by (rule that [of "\<lparr>vm_Uid = [], vm_PoolName = ps_Name pool, vm_FlintlockHost = host, vm_Phase = PROVISIONING,
      vm_LeaseId = None, vm_CreatedAt = None, vm_UpdatedAt = None, vm_PoolNamespace = ps_Namespace pool\<rparr>"])
      (simp add: for_pool_def)
  have stop: "wp (ret (Inl e)) (create_done d0 pool host pls) u" if "at d0 [] pls u" for e u
    using that vm0 unfolding wp_return create_done_def failed_def by auto
  show ?thesis unfolding provision_create_def Let_def
  proof (rule wp_core_seq [OF core_flint(1) at], rule wp_sum, erule stop,
      rule wp_core_seq [OF core_flint(2)], assumption, rule wp_option [rotated], erule stop,
      rule wp_core_seq [OF core_flint(3)], assumption, rule wp_sum, erule stop, rule wp_if, erule stop,
      rule wp_core_seq [OF core_Now], assumption, rule wp_seq [OF wp_CreateVM_at [OF E]], assumption)
    fix uid now recorded and w' :: world
    let ?vm = "\<lparr>vm_Uid = uid, vm_PoolName = ps_Name pool, vm_FlintlockHost = host, vm_Phase = PROVISIONING,
      vm_LeaseId = None, vm_CreatedAt = Some now, vm_UpdatedAt = Some now, vm_PoolNamespace = ps_Namespace pool\<rparr>"
    show "writable ?vm" by (simp add: writable_def)
    show "f_after d0 = []" by (rule last)
    have fp: "for_pool pool host ?vm" by (simp add: for_pool_def)
    assume c: "case recorded of Inl (_::StoreErr) \<Rightarrow> at d0 [] pls w'
      | Inr (_::unit) \<Rightarrow> fresh_uid d0 (vm_Uid ?vm) \<and> (\<exists>r. at d0 [r] pls w' \<and> own ?vm r \<and> vr_phase r = vm_Phase ?vm)"
    show "wp (case recorded of Inl e \<Rightarrow> State_Monad.bind (deleteOrphan E ?vm) (\<lambda>_. ret (Inl (EStore e)))
      | Inr _ \<Rightarrow> ret (Inr ?vm)) (create_done d0 pool host pls) w'"
    proof (rule wp_sum)
      fix e assume "recorded = Inl e"
      then have "wp (deleteOrphan E ?vm) (\<lambda>_ u. failed d0 ?vm pls u) w'"
        by (intro wp_deleteOrphan [OF E]) (use c last in simp_all)
      then show "wp (State_Monad.bind (deleteOrphan E ?vm) (\<lambda>_. ret (Inl (EStore e)))) (create_done d0 pool host pls) w'"
        by (rule wp_seq) (use fp in \<open>auto simp: wp_return create_done_def\<close>)
    next
      fix x assume "recorded = Inr x"
      then obtain r where "fresh_uid d0 uid" "at d0 [r] pls w'" "own ?vm r" "vr_phase r = PROVISIONING"
        using c by auto
      then show "wp (ret (Inr ?vm)) (create_done d0 pool host pls) w'" using fp
        unfolding wp_return create_done_def in_progress_def sum.case by auto
    qed
  qed
qed

text \<open>Taking the placement back.\<close>

lemma sql_delete_own: "find_key pl_id i ps = None \<Longrightarrow> pl_id p = i \<Longrightarrow> sql_delete (\<lambda>r. pl_id r = i) (ps @ [p]) = ps"
  by (induction ps) (auto simp: sql_delete_def split: if_splits)

lemma wp_releasePlacement:
  assumes E: "undisturbed E" and p: "find_key pl_id i (placements d0) = None" "pl_id p = i"
    and at: "at d0 rows [p] w"
  shows "wp (releasePlacement E i) (\<lambda>_ w'. at d0 rows [] w') w"
  using at sql_delete_own [OF p] E
  by (simp add: releasePlacement_def wp_bind wp_return wp_storeCall_undisturbed ReleasePlacement_def at_def)

lemma create_done_release:
  assumes E: "undisturbed E" and p: "find_key pl_id i (placements d0) = None" "pl_id p = i"
    and c: "create_done d0 pool host [p] res w"
  shows "wp (releasePlacement E i) (\<lambda>_ w'. create_done d0 pool host [] res w') w"
proof -
  have move: "wp (releasePlacement E i) (\<lambda>_ w'. create_done d0 pool host [] res w') w"
    if "at d0 rows [p] w" "\<And>w'. at d0 rows [] w' \<Longrightarrow> create_done d0 pool host [] res w'" for rows
    by (rule wp_mono [OF wp_releasePlacement [OF E p that(1)] that(2)])
  consider rows e vm where "res = Inl e" "for_pool pool host vm" "at d0 rows [p] w"
      "rows = [] \<or> (\<exists>r. rows = [r] \<and> own vm r \<and> vr_phase r \<in> {QUARANTINED, DELETING})"
    | vm r where "res = Inr vm" "for_pool pool host vm" "vm_CreatedAt vm \<noteq> None" "fresh_uid d0 (vm_Uid vm)"
      "at d0 [r] [p] w" "own vm r" "vr_phase r \<noteq> DELETING"
    using c unfolding create_done_def failed_def in_progress_def by (cases res) auto
  then show ?thesis
  proof cases
    case 1
    show ?thesis
    proof (rule move [OF 1(3)])
      fix w' assume "at d0 rows [] w'"
      then have "failed d0 vm [] w'" using 1(4) unfolding failed_def by blast
      then show "create_done d0 pool host [] res w'" using 1(1,2) unfolding create_done_def by auto
    qed
  next
    case 2
    show ?thesis
    proof (rule move [OF 2(5)])
      fix w' assume "at d0 [r] [] w'"
      then have "in_progress d0 vm [] w'" using 2(6,7) unfolding in_progress_def by blast
      then show "create_done d0 pool host [] res w'" using 2(1-4) unfolding create_done_def by simp
    qed
  qed
qed

section \<open>The whole of \<open>Provision\<close>\<close>

definition provision_done :: "frame \<Rightarrow> PoolSpec \<Rightarrow> Err option \<Rightarrow> world \<Rightarrow> bool" where
  "provision_done d0 pool res w \<longleftrightarrow> (case res of
      None \<Rightarrow> \<exists>r h. at d0 [r] [] w \<and> vr_phase r = AVAILABLE \<and>
        vr_poolName r = ps_Name pool \<and> vr_poolNamespace r = ps_Namespace pool \<and>
        vr_flintlockHost r \<in> set (ps_FlintlockHosts pool) \<and>
        h \<in> set (hosts d0) \<and> hr_name h = vr_flintlockHost r \<and> \<not> hr_cordoned h
    | Some _ \<Rightarrow> at d0 [] [] w \<or>
        (\<exists>r. at d0 [r] [] w \<and> vr_phase r \<in> {QUARANTINED, DELETING} \<and>
           vr_poolName r = ps_Name pool \<and> vr_poolNamespace r = ps_Namespace pool))"

lemma core_ineligibleHosts [core_intros]: "undisturbed E \<Longrightarrow> keeps same_core (ineligibleHosts E c pool)"
  unfolding ineligibleHosts_def by (intro core_intros core_storeCall) (auto simp: ListHosts_def)

lemma core_PickHost [core_intros]: "undisturbed E \<Longrightarrow> keeps same_core (PickHost E c pool inel)"
  unfolding PickHost_def by (intro core_intros core_storeCall) (auto simp: ListVMsByPool_def)

lemma core_NewString [core_intros]: "keeps same_core (NewString E)"
  unfolding NewString_def by (intro core_intros)

lemma pickHost_of_in: "pickHost_of vs pool inel = Some h \<Longrightarrow> h \<in> set (ps_FlintlockHosts pool)"
  using best_host_in unfolding pickHost_of_def Let_def
  by (auto split: list.splits dest!: arg_cong [where f = set])

lemma PickHost_in:
  "undisturbed E \<Longrightarrow> wp (PickHost E c pool inel) (\<lambda>res w'. \<forall>h. res = Inr h \<longrightarrow> h \<in> set (ps_FlintlockHosts pool)) w"
  unfolding PickHost_def
  by (auto simp: wp_bind wp_return wp_storeCall_undisturbed ListVMsByPool_def Let_def
      dest: pickHost_of_in split: option.split)

lemma wp_ReservePlacement:
  assumes E: "undisturbed E" and at: "at d0 [] [] w"
  shows "wp (storeCall E c (\<lambda>n. ReservePlacement (e_clock E n) i host name ns)) (\<lambda>res w'. case res of
      Inl _ \<Rightarrow> at d0 [] [] w'
    | Inr _ \<Rightarrow> find_key pl_id i (placements d0) = None \<and>
        (\<exists>h \<in> set (hosts d0). hr_name h = host \<and> \<not> hr_cordoned h) \<and> (\<exists>p. pl_id p = i \<and> at d0 [] [p] w')) w"
proof -
  have tables: "hosts (wdb w) = hosts d0" "placements (wdb w) = placements d0" using at by (simp_all add: at_def)
  let ?p = "\<lparr>pl_id = i, pl_host = host, pl_poolName = name, pl_poolNamespace = ns, pl_createdAt = e_clock E (wstep w)\<rparr>"
  let ?w = "w\<lparr>wstep := Suc (wstep w), wdb := (wdb w)\<lparr>placements := placements d0 @ [?p]\<rparr>\<rparr>"
  have same: "at d0 [] [] (w\<lparr>wstep := Suc (wstep w)\<rparr>)" using at by (simp add: at_def)
  have "at d0 [] [?p] ?w" using at by (simp add: at_def)
  moreover have "pl_id ?p = i" by simp
  ultimately have new: "\<exists>p. pl_id p = i \<and> at d0 [] [p] ?w" by blast
  have host: "\<exists>h \<in> set (hosts d0). hr_name h = host \<and> \<not> hr_cordoned h"
    if "find_key hr_name host (hosts d0) = Some h" "\<not> hr_cordoned h" for h
    using that by (auto dest: find_key_SomeD)
  show ?thesis using E same new host
    by (simp add: wp_storeCall_undisturbed Let_def ReservePlacement_def tables split: option.split)
qed

lemma provision_done_failed:
  "for_pool pool host vm \<Longrightarrow> failed d0 vm [] w \<Longrightarrow> provision_done d0 pool (Some e) w"
  unfolding provision_done_def failed_def by (auto simp: for_pool_def own_def)

lemma provision_done_hooks:
  assumes "for_pool pool host vm" "hooks_done d0 vm [] res w" "host \<in> set (ps_FlintlockHosts pool)"
    and "h \<in> set (hosts d0)" "hr_name h = host" "\<not> hr_cordoned h"
  shows "provision_done d0 pool res w"
proof (cases res)
  case None
  then obtain r where r: "at d0 [r] [] w" "own vm r" "vr_phase r = AVAILABLE" using assms(2) by auto
  then have "vr_poolName r = ps_Name pool" "vr_poolNamespace r = ps_Namespace pool" "vr_flintlockHost r = host"
    using assms(1) by (simp_all add: own_def for_pool_def)
  then show ?thesis unfolding provision_done_def None using r assms(3-) by auto
next
  case (Some e)
  then show ?thesis using assms(2) provision_done_failed [OF assms(1)] by simp
qed

lemma wp_Provision_body:
  assumes E: "undisturbed E" and at: "at d0 [] [] w" and last: "f_after d0 = []"
  shows "wp (Provision_body E cfg pool) (provision_done d0 pool) w"
proof -
  have stop: "wp (ret (Some e)) (provision_done d0 pool) u" if "at d0 [] [] u" for e u
    using that unfolding wp_return provision_done_def by simp
  have reserved: "wp (State_Monad.bind (provision_create E pool host i) (\<lambda>created. State_Monad.bind (releasePlacement E i)
      (\<lambda>_. case created of Inl e \<Rightarrow> ret (Some e) | Inr vm \<Rightarrow> provision_hooks E cfg pool vm))) (provision_done d0 pool) u"
    if "at d0 [] [p] u" "pl_id p = i" "find_key pl_id i (placements d0) = None" "host \<in> set (ps_FlintlockHosts pool)"
      "h \<in> set (hosts d0)" "hr_name h = host" "\<not> hr_cordoned h" for u p i host h
  proof (rule wp_seq [OF wp_provision_create [OF E that(1) last]], rule wp_seq, erule create_done_release [OF E that(3,2)],
      rule wp_sum)
    fix res e and w' :: world assume "create_done d0 pool host [] res w'" "res = Inl e"
    then obtain vm where "for_pool pool host vm" "failed d0 vm [] w'" unfolding create_done_def by auto
    then show "wp (ret (Some e)) (provision_done d0 pool) w'" unfolding wp_return by (rule provision_done_failed)
  next
    fix res vm and w' :: world assume "create_done d0 pool host [] res w'" "res = Inr vm"
    then have vm: "for_pool pool host vm" "vm_CreatedAt vm \<noteq> None" "fresh_uid d0 (vm_Uid vm)" "in_progress d0 vm [] w'"
      unfolding create_done_def by auto
    from wp_provision_hooks [OF E vm(3,2,4)]
    show "wp (provision_hooks E cfg pool vm) (provision_done d0 pool) w'"
      by (rule wp_mono) (rule provision_done_hooks [OF vm(1) _ that(4-7)])
  qed
  show ?thesis unfolding Provision_body_def Let_def
  proof (rule wp_core_seq [OF core_ineligibleHosts [OF E] at], rule wp_sum, erule stop,
      rule wp_seq, subst wp_conj, rule conjI, rule wp_core [OF core_PickHost [OF E]], assumption, rule PickHost_in [OF E],
      elim conjE, rule wp_sum, erule stop, rule wp_core_seq [OF core_NewString], assumption,
      rule wp_seq [OF wp_ReservePlacement [OF E]], assumption, rule wp_sum)
    fix i host e and r :: "StoreErr + unit" and w' :: world
    assume "case r of Inl _ \<Rightarrow> at d0 [] [] w' | Inr _ \<Rightarrow> find_key pl_id i (placements d0) = None \<and>
        (\<exists>h \<in> set (hosts d0). hr_name h = host \<and> \<not> hr_cordoned h) \<and> (\<exists>p. pl_id p = i \<and> at d0 [] [p] w')"
      "r = Inl e"
    then show "wp (ret (Some (if e = ErrHostCordoned \<or> e = ErrHostNotRegistered then ErrNoEligibleHost else EStore e)))
        (provision_done d0 pool) w'" by (intro stop) simp
  next
    fix hres i host x and r :: "StoreErr + unit" and w' :: world
    assume "\<forall>h. hres = Inr h \<longrightarrow> h \<in> set (ps_FlintlockHosts pool)" "hres = Inr host"
      "case r of Inl _ \<Rightarrow> at d0 [] [] w' | Inr _ \<Rightarrow> find_key pl_id i (placements d0) = None \<and>
        (\<exists>h \<in> set (hosts d0). hr_name h = host \<and> \<not> hr_cordoned h) \<and> (\<exists>p. pl_id p = i \<and> at d0 [] [p] w')"
      "r = Inr x"
    then obtain h p where "host \<in> set (ps_FlintlockHosts pool)" "find_key pl_id i (placements d0) = None"
      "h \<in> set (hosts d0)" "hr_name h = host" "\<not> hr_cordoned h" "pl_id p = i" "at d0 [] [p] w'" by auto
    then show "wp (State_Monad.bind (provision_create E pool host i) (\<lambda>created. State_Monad.bind (releasePlacement E i)
      (\<lambda>_. case created of Inl e \<Rightarrow> ret (Some e) | Inr vm \<Rightarrow> provision_hooks E cfg pool vm))) (provision_done d0 pool) w'"
      by (intro reserved)
  qed
qed

lemma wp_Provision:
  assumes E: "undisturbed E"
  shows "wp (Provision E cfg pool) (\<lambda>res w'. \<exists>rows. vms (wdb w') = vms (wdb w) @ rows \<and> placements (wdb w') = placements (wdb w) \<and>
    leases (wdb w') = leases (wdb w) \<and> pools (wdb w') = pools (wdb w) \<and> hosts (wdb w') = hosts (wdb w) \<and>
    (case res of
       None \<Rightarrow> (\<exists>r h. rows = [r] \<and> vr_phase r = AVAILABLE \<and>
         vr_poolName r = ps_Name pool \<and> vr_poolNamespace r = ps_Namespace pool \<and>
         vr_flintlockHost r \<in> set (ps_FlintlockHosts pool) \<and>
         h \<in> set (hosts (wdb w)) \<and> hr_name h = vr_flintlockHost r \<and> \<not> hr_cordoned h)
     | Some _ \<Rightarrow> rows = [] \<or>
         (\<exists>r. rows = [r] \<and> vr_phase r \<in> {QUARANTINED, DELETING} \<and>
            vr_poolName r = ps_Name pool \<and> vr_poolNamespace r = ps_Namespace pool))) w"
    (is "wp _ ?Q w")
proof -
  define d0 where "d0 = db.extend (wdb w) \<lparr>f_after = []\<rparr>"
  have d0: "vms d0 = vms (wdb w)" "placements d0 = placements (wdb w)" "leases d0 = leases (wdb w)"
    "pools d0 = pools (wdb w)" "hosts d0 = hosts (wdb w)" "f_after d0 = []"
    by (simp_all add: d0_def db.defs)
  then have at: "at d0 [] [] w" by (simp add: at_def)
  have "wp (Provision E cfg pool) (provision_done d0 pool) w"
    unfolding Provision_def
  proof (rule wp_core_seq [OF core_Now at], rule wp_seq [OF wp_Provision_body [OF E _ d0(6)]], assumption)
    fix a u assume "provision_done d0 pool a u"
    moreover have "provision_done d p r (x\<lparr>wstep := n, wtrace := tr\<rparr>) = provision_done d p r x" for d p r x n tr
      by (simp add: provision_done_def at_def split: option.split)
    ultimately show "wp (State_Monad.bind (Now E) (\<lambda>_. State_Monad.bind
        (act (A_Metric (M_ProvisionDuration (ps_Name pool) (ps_Namespace pool)))) (\<lambda>_. ret a))) (provision_done d0 pool) u"
      by (simp add: Now_def wp_simps)
  qed
  then show ?thesis
  proof (rule wp_mono)
    fix res w' assume "provision_done d0 pool res w'"
    then show "?Q res w'" unfolding provision_done_def at_def d0 by (cases res) auto
  qed
qed


lemma sample_provision:
  "fst (run_state (Provision sample_env DefaultProvisionConfig sample_pool) (sample_world sample_db)) = None"
  by code_simp


end
