(* ===== verification/Startup.thy ===== *)
theory Startup
  imports Cleanup
begin

text \<open>
  Model of the start-up of \<^verbatim>\<open>src/cmd/poolmgrd/main.go\<close>: what a new process does with the database
  its predecessor left, before any reconciler, sweeper or API server runs. Every \<open>fatal\<close> is an
  error value. The parsing of the flags, the loading of the configuration (theory \<open>Config\<close>) and
  the opening of the database come before, the servers after.
\<close>

section \<open>Definitions\<close>

datatype LogLevel = LevelDebug | LevelInfo | LevelWarn | LevelError

definition parseLogLevel :: "string \<Rightarrow> LogLevel option" where
  "parseLogLevel s =
     (if s = ''debug'' then Some LevelDebug
      else if s = ''info'' then Some LevelInfo
      else if s = ''warn'' then Some LevelWarn
      else if s = ''error'' then Some LevelError
      else None)"

datatype Fatal =
    FatalClearPlacements StoreErr
  | FatalRecoverClaims Err
  | FatalRecoverProvisions Err
  | FatalListHosts StoreErr
  | FatalSeedStore StoreErr
  | FatalSeed ManagerErr

definition clearStalePlacements :: "env \<Rightarrow> (StoreErr + unit) M" where
  "clearStalePlacements E = storeCall E Ctx (\<lambda>_. ClearPlacements)"

text \<open>\<open>buildFlintlockPool\<close>: a host that does not dial, or whose name is taken, is left out.\<close>

fun dial_hosts :: "dialer \<Rightarrow> Host list \<Rightarrow> conns \<Rightarrow> conns" where
  "dial_hosts D [] p = p"
| "dial_hosts D (h # hs) p =
     (case Dial D (Some h) of Inl _ \<Rightarrow> dial_hosts D hs p
      | Inr c \<Rightarrow> dial_hosts D hs (snd (Pool_Add c p)))"

definition buildFlintlockPool :: "dialer \<Rightarrow> Host list \<Rightarrow> conns" where
  "buildFlintlockPool D hs = dial_hosts D hs Map.empty"

text \<open>\<open>Manager.Seed\<close>: list the pools, then start a reconciler for each, up to the first error.\<close>

definition Seed_M :: "env \<Rightarrow> Fatal option M" where
  "Seed_M E = do {
     r \<leftarrow> storeCall E Ctx (\<lambda>_. ListPools (e_codec E));
     case r of Inl e \<Rightarrow> ret (Some (FatalSeedStore e))
     | Inr specs \<Rightarrow> do {
         m \<leftarrow> getMgr;
         let (err, m') = Seed specs m;
         putMgr m';
         ret (map_option FatalSeed err) } }"

text \<open>The recovery part of \<open>main\<close>, and \<open>main\<close> up to the point where the background tasks
  and the servers start. \<open>n\<close>, the number of VMs recovered, is only logged.\<close>

definition recover :: "env \<Rightarrow> Fatal option M" where
  "recover E = do {
     c \<leftarrow> clearStalePlacements E;
     case c of Inl e \<Rightarrow> ret (Some (FatalClearPlacements e))
     | Inr _ \<Rightarrow> do {
     a \<leftarrow> RecoverAbandonedClaims E;
     case fst a of Some e \<Rightarrow> ret (Some (FatalRecoverClaims e))
     | None \<Rightarrow> do {
     b \<leftarrow> RecoverAbandonedProvisions E;
     ret (map_option FatalRecoverProvisions (fst b)) } } }"

definition startup :: "env \<Rightarrow> Fatal option M" where
  "startup E = do {
     r \<leftarrow> recover E;
     case r of Some e \<Rightarrow> ret (Some e)
     | None \<Rightarrow> do {
     h \<leftarrow> storeCall E Ctx (\<lambda>_. ListHosts);
     case h of Inl e \<Rightarrow> ret (Some (FatalListHosts e))
     | Inr hs \<Rightarrow> do {
     putConns (buildFlintlockPool (e_dialer E) hs);
     putMgr new_manager;
     Seed_M E } } }"

text \<open>The end of \<open>main\<close>: it waits for the results of the four tasks, in the order they come,
  and keeps the first error that is not the cancellation; whether \<open>stop\<close> was called.\<close>

datatype TaskErr = TaskCanceled | TaskFailed string

fun await_tasks :: "TaskErr option list \<Rightarrow> TaskErr option \<times> bool \<Rightarrow> TaskErr option \<times> bool" where
  "await_tasks [] s = s"
| "await_tasks (r # rs) (firstErr, stopped) =
     (if r \<noteq> None \<and> r \<noteq> Some TaskCanceled \<and> firstErr = None then await_tasks rs (r, True)
      else await_tasks rs (firstErr, stopped))"

text \<open>What the recovery is for: a VM no process is working on any more.\<close>

definition abandoned :: "leaseRow list \<Rightarrow> vmRow \<Rightarrow> bool" where
  "abandoned ls r \<longleftrightarrow> vr_phase r \<in> {PROVISIONING, CREATE_HOOK_RUNNING} \<or>
     vr_phase r \<in> {PRE_LEASE_HOOK_RUNNING, LEASED} \<and> GetLeaseId (rowToVM r) \<notin> lr_leaseID ` set ls"

definition mark :: "int \<Rightarrow> vmRow \<Rightarrow> vmRow" where
  "mark t r = r\<lparr>vr_phase := DELETING, vr_updatedAt := t\<rparr>"

text \<open>Exactly the rows of these VMs have been marked.\<close>

definition marks :: "string set \<Rightarrow> vmRow list \<Rightarrow> vmRow list \<Rightarrow> bool" where
  "marks U = list_all2 (\<lambda>r r'. if vr_uid r \<in> U then \<exists>t. r' = mark t r else r' = r)"

section \<open>Recovery\<close>

lemma mark_simps [simp]:
  "vr_uid (mark t r) = vr_uid r" "vr_phase (mark t r) = DELETING" "mark t (mark s r) = mark t r"
  "vr_leaseID (mark t r) = vr_leaseID r"
  by (simp_all add: mark_def)

lemma marks_refl: "marks {} xs xs"
  by (simp add: marks_def list_all2_same)

lemma marks_trans: "marks U xs ys \<Longrightarrow> marks V ys zs \<Longrightarrow> marks (U \<union> V) xs zs"
  unfolding marks_def
  by (erule (1) list_all2_trans [rotated -2]) (auto split: if_splits)

lemma marks_uids: "marks U xs ys \<Longrightarrow> map vr_uid ys = map vr_uid xs"
  unfolding marks_def by (induction rule: list_all2_induct) (auto split: if_splits)

lemma marks_from: "marks U xs ys \<Longrightarrow> y \<in> set ys \<Longrightarrow> y \<in> set xs \<or> vr_phase y = DELETING"
  unfolding marks_def by (induction rule: list_all2_induct) (auto split: if_splits)

lemma mark_UpdateVM:
  assumes "distinct (map vr_uid (vms d))" "r \<in> set (vms d)"
  shows "updateVM_exec ((rowToVM r)\<lparr>vm_Phase := DELETING, vm_UpdatedAt := Some now\<rparr>) d =
     Inr (True, d\<lparr>vms := map (\<lambda>s. if vr_uid s = vr_uid r then mark (UnixNano now) s else s) (vms d)\<rparr>)"
proof -
  let ?row = "(mark (UnixNano now) r)\<lparr>vr_createdAt := UnixNano (vr_createdAt r)\<rparr>"
  have "map (\<lambda>s. if vr_uid s = vr_uid r then update_row ?row s else s) (vms d) =
      map (\<lambda>s. if vr_uid s = vr_uid r then mark (UnixNano now) s else s) (vms d)"
  proof (rule map_cong [OF refl])
    fix s assume "s \<in> set (vms d)"
    then have "vr_uid s = vr_uid r \<Longrightarrow> s = r" using assms by (metis distinct_map inj_onD)
    then show "(if vr_uid s = vr_uid r then update_row ?row s else s) =
        (if vr_uid s = vr_uid r then mark (UnixNano now) s else s)"
      by (cases r) (auto simp: mark_def)
  qed
  moreover have row: "vmToRow ((rowToVM r)\<lparr>vm_Phase := DELETING, vm_UpdatedAt := Some now\<rparr>) = Inr ?row"
    by (cases r) (simp add: vmToRow_def requireTimestamp_def rowToVM_def mark_def)
  have uid: "vr_uid ?row = vr_uid r" "vr_phase ?row = DELETING" by simp_all
  have "\<exists>s \<in> set (vms d). vr_uid s = vr_uid r" using assms(2) by blast
  ultimately show ?thesis
    unfolding updateVM_exec_def row sum.case Let_def sql_update_def uid sql_count_pos by (simp only: simp_thms)
qed

lemma marks_one:
  "marks {vr_uid r} xs (map (\<lambda>s. if vr_uid s = vr_uid r then mark t s else s) xs)"
  unfolding marks_def by (induction xs) auto

text \<open>What the recovery changes: some of these VMs are marked, nothing else.\<close>

definition marked_only :: "string set \<Rightarrow> world \<Rightarrow> world \<Rightarrow> bool" where
  "marked_only U w w' \<longleftrightarrow> marks U (vms (wdb w)) (vms (wdb w')) \<and> wdb w' = (wdb w)\<lparr>vms := vms (wdb w')\<rparr> \<and>
     wconns w' = wconns w \<and> wmgr w' = wmgr w"

lemma marked_only_trans:
  assumes "marked_only U w v" "marked_only V v u"
  shows "marked_only (U \<union> V) w u"
proof -
  have "wdb u = (wdb v)\<lparr>vms := vms (wdb u)\<rparr>" "wdb v = (wdb w)\<lparr>vms := vms (wdb v)\<rparr>"
    using assms by (simp_all add: marked_only_def)
  then have "wdb u = (wdb w)\<lparr>vms := vms (wdb u)\<rparr>" by (metis db.surjective db.update_convs(2) db.fold_congs(2))
  then show ?thesis using assms unfolding marked_only_def by (auto intro: marks_trans)
qed

lemma marked_only_step: "marked_only {} w (w\<lparr>wstep := n\<rparr>)"
  by (simp add: marked_only_def marks_refl)

lemma marked_only_uids: "marked_only U w v \<Longrightarrow> map vr_uid (vms (wdb v)) = map vr_uid (vms (wdb w))"
  unfolding marked_only_def by (blast dest: marks_uids)

lemma wp_mark:
  assumes E: "undisturbed E" and uniq: "distinct (map vr_uid (vms (wdb w)))" and r: "r \<in> set (vms (wdb w))"
  shows "wp (UpdateVM E Ctx ((rowToVM r)\<lparr>vm_Phase := DELETING, vm_UpdatedAt := Some now\<rparr>))
    (\<lambda>res w'. case res of Inl _ \<Rightarrow> marked_only {} w w' \<and> (\<exists>n. e_cancelled E n)
        | Inr _ \<Rightarrow> marked_only {vr_uid r} w w') w"
proof (cases "ctx_ok E Ctx (wstep w)")
  case False
  then show ?thesis using E marked_only_step
    by (auto simp: UpdateVM_def wp_bind wp_return wp_storeCall_undisturbed Let_def ctx_ok_def)
next
  case True
  then show ?thesis using E mark_UpdateVM [OF uniq r, of now] marks_one [of r "vms (wdb w)" "UnixNano now"]
    by (simp add: UpdateVM_def wp_bind wp_return wp_storeCall_undisturbed Let_def marked_only_def)
qed

text \<open>The loops mark VMs of a given set only, and all of them unless the process is told to
  stop.\<close>

definition recovers :: "env \<Rightarrow> string set \<Rightarrow> world \<Rightarrow> Err option \<times> int \<Rightarrow> world \<Rightarrow> bool" where
  "recovers E T w res w' \<longleftrightarrow> (\<exists>U. marked_only U w w' \<and> U \<subseteq> T \<and>
     (if fst res = None then T \<subseteq> U else \<exists>n. e_cancelled E n))"

lemma recovers_after: "marked_only S w v \<Longrightarrow> recovers E T v res v' \<Longrightarrow> recovers E (S \<union> T) w res v'"
proof -
  assume m: "marked_only S w v" and "recovers E T v res v'"
  then obtain U where U: "marked_only U v v'" "U \<subseteq> T" "if fst res = None then T \<subseteq> U else \<exists>n. e_cancelled E n"
    by (auto simp: recovers_def)
  have "S \<union> U \<subseteq> S \<union> T" "if fst res = None then S \<union> T \<subseteq> S \<union> U else \<exists>n. e_cancelled E n"
    using U(2,3) by (auto split: if_splits)
  then show ?thesis unfolding recovers_def using marked_only_trans [OF m U(1)] by blast
qed

lemma recovers_stop: "marked_only {} w v \<Longrightarrow> e_cancelled E n \<Longrightarrow> recovers E T w (Some e, k) v"
  unfolding recovers_def by auto

abbreviation pending :: "(VMRecord \<Rightarrow> bool) \<Rightarrow> vmRow list \<Rightarrow> string set" where
  "pending skip rows \<equiv> vr_uid ` {r \<in> set rows. \<not> skip (rowToVM r)}"

lemma marked_only_others:
  assumes "marked_only U w u" "s \<in> set (vms (wdb w))" "vr_uid s \<notin> U"
  shows "s \<in> set (vms (wdb u))"
proof -
  obtain i where i: "i < length (vms (wdb w))" "vms (wdb w) ! i = s" using assms(2) by (auto simp: in_set_conv_nth)
  have "marks U (vms (wdb w)) (vms (wdb u))" using assms(1) by (simp only: marked_only_def)
  then have "length (vms (wdb u)) = length (vms (wdb w))" "vms (wdb u) ! i = s"
    using i assms(3) by (auto simp: marks_def list_all2_conv_all_nth)
  then show ?thesis using i(1) nth_mem by metis
qed

lemma wp_recover_vms:
  assumes E: "undisturbed E"
  shows "distinct (map vr_uid (vms (wdb w))) \<Longrightarrow> distinct (map vr_uid rows) \<Longrightarrow> set rows \<subseteq> set (vms (wdb w)) \<Longrightarrow>
    wp (recover_vms E skip (map rowToVM rows) k) (recovers E (pending skip rows) w) w"
proof (induction rows arbitrary: w k)
  case Nil
  have "marked_only {} w w" using marked_only_step [of w "wstep w"] by simp
  then show ?case by (auto simp: wp_return recovers_def)
next
  case (Cons r rows)
  show ?case
  proof (cases "skip (rowToVM r)")
    case True
    then have same: "pending skip (r # rows) = pending skip rows" by auto
    show ?thesis unfolding same using Cons.IH [of w k] Cons.prems True by simp
  next
    case False
    then have more: "pending skip (r # rows) = insert (vr_uid r) (pending skip rows)" by auto
    let ?w = "w\<lparr>wstep := Suc (wstep w)\<rparr>"
    have from_w: "marked_only U w u" if "marked_only U ?w u" for U u
      using marked_only_trans [OF marked_only_step that] by simp
    have "wp (UpdateVM E Ctx ((rowToVM r)\<lparr>vm_Phase := DELETING, vm_UpdatedAt := Some (e_clock E (wstep w))\<rparr>))
       (\<lambda>res. wp (case res of Inl e \<Rightarrow> ret (Some (EStore e), k)
         | Inr _ \<Rightarrow> recover_vms E skip (map rowToVM rows) (k + 1)) (recovers E (pending skip (r # rows)) w)) ?w"
    proof (rule wp_mono [OF wp_mark [OF E]], use Cons.prems in simp, use Cons.prems in simp, rule wp_sum, goal_cases)
      case (1 res u e)
      then show ?case using from_w by (auto simp: wp_return intro: recovers_stop)
    next
      case (2 res u x)
      then have m: "marked_only {vr_uid r} w u" using from_w by simp
      have "vr_uid s \<noteq> vr_uid r" if "s \<in> set rows" for s using that Cons.prems(2) by (metis distinct.simps(2) image_eqI list.map(2) set_map)
      then have "set rows \<subseteq> set (vms (wdb u))" using marked_only_others [OF m] Cons.prems(3) by auto
      then have "wp (recover_vms E skip (map rowToVM rows) (k + 1)) (recovers E (pending skip rows) u) u"
        using Cons.IH Cons.prems marked_only_uids [OF m] by simp
      then show ?case unfolding more by (rule wp_mono) (use recovers_after [OF m] in simp)
    qed
    then show ?thesis using False by (simp add: Now_def wp_bind wp_fresh wp_return)
  qed
qed


lemma pending_split:
  assumes m: "marked_only U w v" and U: "U = pending skip (filter P (vms (wdb w)))"
    and del: "\<And>r. Q r \<Longrightarrow> vr_phase r \<noteq> DELETING"
  shows "U \<union> pending skip' (filter Q (vms (wdb v))) =
    vr_uid ` {r \<in> set (vms (wdb w)). P r \<and> \<not> skip (rowToVM r) \<or> Q r \<and> \<not> skip' (rowToVM r)}"
proof -
  have "r \<in> set (vms (wdb w))" if "r \<in> set (vms (wdb v))" "Q r" for r
  proof -
    have "marks U (vms (wdb w)) (vms (wdb v))" using m by (simp only: marked_only_def)
    then show ?thesis using marks_from that del by metis
  qed
  then have "pending skip' (filter Q (vms (wdb v))) \<subseteq> pending skip' (filter Q (vms (wdb w)))" by auto
  moreover have "pending skip' (filter Q (vms (wdb w))) \<subseteq> U \<union> pending skip' (filter Q (vms (wdb v)))"
  proof
    fix u assume "u \<in> pending skip' (filter Q (vms (wdb w)))"
    then obtain r where r: "r \<in> set (vms (wdb w))" "Q r" "\<not> skip' (rowToVM r)" "u = vr_uid r" by auto
    then show "u \<in> U \<union> pending skip' (filter Q (vms (wdb v)))"
      using marked_only_others [OF m r(1)] by (cases "u \<in> U") auto
  qed
  ultimately show ?thesis unfolding U by auto
qed

lemma sorted_rows:
  assumes "distinct (map vr_uid xs)"
  shows "distinct (map vr_uid (sort_key vr_uid (filter P xs)))" "set (sort_key vr_uid (filter P xs)) \<subseteq> set xs"
    "pending skip (sort_key vr_uid (filter P xs)) = pending skip (filter P xs)"
  using assms by (auto simp: distinct_map intro: inj_on_subset)

lemma wp_recover_phases:
  assumes E: "undisturbed E"
  shows "distinct (map vr_uid (vms (wdb w))) \<Longrightarrow> DELETING \<notin> set ps \<Longrightarrow>
    wp (recover_phases E skip ps k)
      (recovers E (pending skip (filter (\<lambda>r. vr_phase r \<in> set ps) (vms (wdb w)))) w) w"
proof (induction ps arbitrary: w k)
  case Nil
  have "marked_only {} w w" using marked_only_step [of w "wstep w"] by simp
  then show ?case by (auto simp: wp_return recovers_def)
next
  case (Cons p ps)
  let ?w = "w\<lparr>wstep := Suc (wstep w)\<rparr>" and ?T = "pending skip (filter (\<lambda>r. vr_phase r \<in> set (p # ps)) (vms (wdb w)))"
  let ?rows = "sort_key vr_uid (filter (\<lambda>r. vr_phase r = p) (vms (wdb w)))"
  have w: "recovers E T w res u" if "recovers E T ?w res u" for T res u
    using recovers_after [OF marked_only_step that] by simp
  note rows = sorted_rows [OF Cons.prems(1), of "\<lambda>r. vr_phase r = p"]
  have in_ps: "vr_phase r \<noteq> DELETING" if "vr_phase r \<in> set ps" for r using that Cons.prems(2) by auto
  have "wp (recover_vms E skip (map rowToVM ?rows) k)
    (\<lambda>s. wp (case s of (err, n) \<Rightarrow> if err = None then recover_phases E skip ps n else ret (err, n)) (recovers E ?T w)) ?w"
  proof (rule wp_mono [OF wp_recover_vms [OF E]], goal_cases)
    case (4 s u)
    obtain err n where s: "s = (err, n)" by (cases s)
    from w [OF 4] obtain U where U: "marked_only U w u" "U \<subseteq> pending skip ?rows"
        "if err = None then pending skip ?rows \<subseteq> U else \<exists>n. e_cancelled E n"
      unfolding recovers_def s by auto
    show ?case
    proof (cases "err = None")
      case True
      then have eq: "U = pending skip (filter (\<lambda>r. vr_phase r = p) (vms (wdb w)))"
        using U(2,3) unfolding rows(3) by simp
      have "wp (recover_phases E skip ps n)
          (recovers E (pending skip (filter (\<lambda>r. vr_phase r \<in> set ps) (vms (wdb u)))) u) u"
        using Cons.IH Cons.prems marked_only_uids [OF U(1)] by simp
      moreover have "U \<union> pending skip (filter (\<lambda>r. vr_phase r \<in> set ps) (vms (wdb u))) = vr_uid ` {r \<in> set (vms (wdb w)).
          vr_phase r = p \<and> \<not> skip (rowToVM r) \<or> vr_phase r \<in> set ps \<and> \<not> skip (rowToVM r)}"
        by (rule pending_split [OF U(1) eq in_ps])
      then have "?T = U \<union> pending skip (filter (\<lambda>r. vr_phase r \<in> set ps) (vms (wdb u)))"
        by (auto intro: arg_cong [of _ _ "image vr_uid"])
      ultimately have "wp (recover_phases E skip ps n) (recovers E ?T w) u"
        by (simp only:) (rule wp_mono [OF _ recovers_after [OF U(1)]])
      then show ?thesis using True s by simp
    next
      case False
      have "U \<subseteq> ?T" using U(2) unfolding rows(3) by auto
      then have "recovers E ?T w (err, n) u" using U False unfolding recovers_def by auto
      then show ?thesis using False s by (auto simp: wp_return)
    qed
  qed (use rows Cons.prems in simp_all)
  moreover have "recovers E ?T w (Some (EStore e), k) ?w" if "e_cancelled E n" for e n
    using that marked_only_step by (rule recovers_stop [rotated])
  ultimately show ?case using E
    by (auto simp: wp_bind wp_return wp_storeCall_undisturbed Let_def ListVMsByPhase_def ctx_ok_def)
qed


text \<open>The recovery as a whole.\<close>

definition recovered :: "db \<Rightarrow> db \<Rightarrow> bool" where
  "recovered d d' \<longleftrightarrow>
     list_all2 (\<lambda>r r'. if abandoned (leases d) r then \<exists>t. r' = mark t r else r' = r) (vms d) (vms d') \<and>
     d' = d\<lparr>vms := vms d', placements := []\<rparr>"

lemma recovered_marks:
  assumes "marked_only U w u" "U = vr_uid ` {r \<in> set (vms (wdb w)). abandoned (leases (wdb w)) r}"
    "distinct (map vr_uid (vms (wdb w)))" "placements (wdb w) = []"
  shows "recovered (wdb w) (wdb u)"
proof -
  have "list_all2 (\<lambda>r r'. if vr_uid r \<in> U then \<exists>t. r' = mark t r else r' = r) (vms (wdb w)) (vms (wdb u))"
    using assms(1) by (simp only: marked_only_def marks_def)
  moreover have "vr_uid r \<in> U \<longleftrightarrow> abandoned (leases (wdb w)) r" if "r \<in> set (vms (wdb w))" for r
    using assms(2,3) that by (auto simp: distinct_map dest: inj_onD)
  ultimately have "list_all2 (\<lambda>r r'. if abandoned (leases (wdb w)) r then \<exists>t. r' = mark t r else r' = r) (vms (wdb w)) (vms (wdb u))"
    by (elim list.rel_mono_strong) auto
  moreover define v where "v = vms (wdb u)"
  have "wdb u = (wdb w)\<lparr>vms := v\<rparr>" using assms(1) by (simp only: marked_only_def v_def)
  then have "wdb u = (wdb w)\<lparr>vms := v, placements := []\<rparr>" using assms(4) by (cases "wdb w") simp
  ultimately show ?thesis unfolding recovered_def v_def by blast
qed


lemma wp_recover:
  assumes E: "undisturbed E" and uniq: "distinct (map vr_uid (vms (wdb w)))"
  shows "wp (recover E) (\<lambda>res u. case res of
      None \<Rightarrow> recovered (wdb w) (wdb u) \<and> wconns u = wconns w \<and> wmgr u = wmgr w
    | Some _ \<Rightarrow> \<exists>n. e_cancelled E n) w"
    (is "wp _ ?Q w")
proof -
  let ?w2 = "w\<lparr>wstep := Suc (Suc (wstep w)), wdb := (wdb w)\<lparr>placements := []\<rparr>\<rparr>"
  let ?ls = "map rowToLease (sort_key lr_leaseID (leases (wdb w)))"
  let ?skip = "\<lambda>vm. GetLeaseId vm \<in> set (map l_LeaseId ?ls)"
  let ?claims = "recover_phases E ?skip [PRE_LEASE_HOOK_RUNNING, LEASED] 0"
  let ?P = "\<lambda>r. vr_phase r \<in> set [PRE_LEASE_HOOK_RUNNING, LEASED]" and ?Q' = "\<lambda>r. vr_phase r \<in> set [PROVISIONING, CREATE_HOOK_RUNNING]"
  let ?rest = "\<lambda>a. case fst a of Some e \<Rightarrow> ret (Some (FatalRecoverClaims e))
     | None \<Rightarrow> State_Monad.bind (RecoverAbandonedProvisions E) (\<lambda>b. ret (map_option FatalRecoverProvisions (fst b)))"
  have ids: "set (map l_LeaseId ?ls) = lr_leaseID ` set (leases (wdb w))" by (simp add: rowToLease_def image_image)
  have "wp ?claims (\<lambda>a. wp (?rest a) ?Q) ?w2"
  proof (rule wp_mono [OF wp_recover_phases [OF E]], use uniq in simp, simp)
    fix a :: "Err option \<times> int" and v
    assume "recovers E (pending ?skip (filter ?P (vms (wdb ?w2)))) ?w2 a v"
    then obtain U where U: "marked_only U ?w2 v" "U \<subseteq> pending ?skip (filter ?P (vms (wdb ?w2)))"
      "if fst a = None then pending ?skip (filter ?P (vms (wdb ?w2))) \<subseteq> U else \<exists>n. e_cancelled E n"
      unfolding recovers_def by blast
    show "wp (?rest a) ?Q v"
    proof (rule wp_option, goal_cases)
      case 1
      then have eq: "U = pending ?skip (filter ?P (vms (wdb ?w2)))" using U(2,3) by simp
      have "distinct (map vr_uid (vms (wdb v)))" using marked_only_uids [OF U(1)] uniq by simp
      then have "wp (RecoverAbandonedProvisions E) (recovers E (pending (\<lambda>_. False) (filter ?Q' (vms (wdb v)))) v) v"
        unfolding RecoverAbandonedProvisions_def by (rule wp_recover_phases [OF E]) simp
      then show ?case
      proof (rule wp_seq)
        fix b u assume "recovers E (pending (\<lambda>_. False) (filter ?Q' (vms (wdb v)))) v b u"
        then have "recovers E (U \<union> pending (\<lambda>_. False) (filter ?Q' (vms (wdb v)))) ?w2 b u" by (rule recovers_after [OF U(1)])
        moreover have "U \<union> pending (\<lambda>_. False) (filter ?Q' (vms (wdb v))) = vr_uid ` {r \<in> set (vms (wdb ?w2)).
            ?P r \<and> \<not> ?skip (rowToVM r) \<or> ?Q' r \<and> \<not> False}"
          by (rule pending_split [OF U(1) eq]) auto
        moreover have "{r \<in> set (vms (wdb ?w2)). ?P r \<and> \<not> ?skip (rowToVM r) \<or> ?Q' r \<and> \<not> False} =
            {r \<in> set (vms (wdb ?w2)). abandoned (leases (wdb ?w2)) r}"
          unfolding abandoned_def ids by auto
        ultimately have "recovers E (vr_uid ` {r \<in> set (vms (wdb ?w2)). abandoned (leases (wdb ?w2)) r}) ?w2 b u" by simp
        then obtain V where V: "marked_only V ?w2 u" "V \<subseteq> vr_uid ` {r \<in> set (vms (wdb ?w2)). abandoned (leases (wdb ?w2)) r}"
          "if fst b = None then vr_uid ` {r \<in> set (vms (wdb ?w2)). abandoned (leases (wdb ?w2)) r} \<subseteq> V else \<exists>n. e_cancelled E n"
          unfolding recovers_def by blast
        have "recovered (wdb w) (wdb u) \<and> wconns u = wconns w \<and> wmgr u = wmgr w" if "fst b = None"
        proof -
          have "recovered (wdb ?w2) (wdb u)" by (rule recovered_marks [OF V(1)]) (use V that uniq in simp_all)
          then show ?thesis using V(1) by (simp add: recovered_def marked_only_def)
        qed
        then show "wp (ret (map_option FatalRecoverProvisions (fst b))) ?Q u"
          using V(3) by (cases "fst b") (simp_all add: wp_return)
      qed
    next
      case (2 e)
      then show ?case using U(3) by (simp add: wp_return)
    qed
  qed
  then show ?thesis using E
    by (auto simp: recover_def clearStalePlacements_def RecoverAbandonedClaims_def ClearPlacements_def ListLeases_def
        wp_bind wp_return wp_storeCall_undisturbed Let_def ctx_ok_def image_image simp del: recover_phases.simps)
qed


section \<open>Connections and reconcilers\<close>

lemma dial_hosts_dom:
  "dom (dial_hosts D hs p) = dom p \<union> {h_Name h | h. h \<in> set hs \<and> is_ok (Dial D (Some h))}"
proof (induction hs arbitrary: p)
  case (Cons h hs)
  show ?case
  proof (cases "Dial D (Some h)")
    case (Inl e)
    then show ?thesis using Cons by auto
  next
    case (Inr c)
    then have "c_name c = h_Name h" by (auto simp: Dial_def split: option.splits sum.splits if_splits)
    then show ?thesis using Cons [of "snd (Pool_Add c p)"] Inr
      by (auto simp: Pool_Add_def split: if_splits)
  qed
qed auto

lemma Seed_handles:
  "Seed specs m = (None, m') \<Longrightarrow> dom (mg_handles m') = dom (mg_handles m) \<union> spec_key ` set specs"
proof (induction specs arbitrary: m)
  case (Cons s specs)
  then obtain m1 where m1: "StartReconciler s m = Inr m1" "Seed specs m1 = (None, m')"
    by (auto split: sum.splits)
  have "dom (mg_handles m1) = insert (spec_key s) (dom (mg_handles m))"
    using m1(1) by (auto simp: StartReconciler_def Let_def split: if_splits sum.splits)
  then show ?case using Cons.IH [OF m1(2)] by auto
qed simp

lemma Seed_succeeds:
  "\<lbrakk>list_all (\<lambda>s. is_ok (NewStrategy (ps_ReplenishmentStrategy s))) specs; distinct (map spec_key specs);
    \<not> mg_stopped m; spec_key ` set specs \<inter> dom (mg_handles m) = {}\<rbrakk> \<Longrightarrow> fst (Seed specs m) = None"
proof (induction specs arbitrary: m)
  case (Cons s specs)
  then obtain st where st: "NewStrategy (ps_ReplenishmentStrategy s) = Inr st" by (auto elim: is_okE)
  then obtain m1 where m1: "StartReconciler s m = Inr m1" "\<not> mg_stopped m1"
      "dom (mg_handles m1) = insert (spec_key s) (dom (mg_handles m))"
    using Cons.prems(3,4) by (auto simp: StartReconciler_def Let_def)
  have "fst (Seed specs m1) = None" by (rule Cons.IH) (use Cons.prems m1 in auto)
  then show ?case using m1(1) by simp
qed simp

lemma rowsToPools_keys:
  "rowsToPools C rows = Inr specs \<Longrightarrow> map spec_key specs = map (\<lambda>r. PoolKey (pr_name r) (pr_namespace r)) rows"
proof (induction rows arbitrary: specs)
  case (Cons r rows)
  then obtain p ps where p: "rowToPool C r = Inr p" "rowsToPools C rows = Inr ps" "specs = p # ps"
    by (auto split: sum.splits)
  have "spec_key p = PoolKey (pr_name r) (pr_namespace r)"
    using p(1) by (auto simp: rowToPool_def spec_key_def split: sum.splits option.splits)
  then show ?case using p Cons.IH by simp
qed simp

lemma ListPools_keys:
  assumes "ListPools C d = Inr (specs, d')"
  shows "spec_key ` set specs = (\<lambda>r. PoolKey (pr_name r) (pr_namespace r)) ` set (pools d)"
    and "distinct (map pool_key (pools d)) \<Longrightarrow> distinct (map spec_key specs)" and "d' = d"
proof -
  have "rowsToPools C (sort_key (\<lambda>r. (pr_namespace r, pr_name r)) (pools d)) = Inr specs" and d': "d' = d"
    using assms by (auto simp: ListPools_def split: sum.splits)
  then have keys: "map spec_key specs = map (\<lambda>r. PoolKey (pr_name r) (pr_namespace r)) (sort_key (\<lambda>r. (pr_namespace r, pr_name r)) (pools d))"
    by (intro rowsToPools_keys)
  show "spec_key ` set specs = (\<lambda>r. PoolKey (pr_name r) (pr_namespace r)) ` set (pools d)"
    using arg_cong [OF keys, of set] by simp
  show "d' = d" by (rule d')
  show "distinct (map spec_key specs)" if "distinct (map pool_key (pools d))"
    unfolding keys using that by (auto simp: distinct_map inj_on_def)
qed


section \<open>Start-up\<close>

lemma wp_startup:
  assumes E: "undisturbed E" and wf: "wf_db (wdb w)"
  shows "wp (startup E) (\<lambda>res u. case res of
      None \<Rightarrow> recovered (wdb w) (wdb u) \<and>
        dom (wconns u) = {h_Name h | h. h \<in> rowToHost ` set (hosts (wdb w)) \<and> is_ok (Dial (e_dialer E) (Some h))} \<and>
        dom (mg_handles (wmgr u)) = (\<lambda>r. PoolKey (pr_name r) (pr_namespace r)) ` set (pools (wdb w))
    | Some e \<Rightarrow> (\<exists>n. e_cancelled E n) \<or> \<not> is_ok (ListPools (e_codec E) (wdb w)) \<or>
        (\<exists>specs. ListPools (e_codec E) (wdb w) = Inr (specs, wdb w) \<and>
           \<not> list_all (\<lambda>s. is_ok (NewStrategy (ps_ReplenishmentStrategy s))) specs)) w"
    (is "wp _ ?Q w")
proof -
  have uniq: "distinct (map vr_uid (vms (wdb w)))" using wf by (simp add: wf_db_def)
  show ?thesis unfolding startup_def
  proof (rule wp_seq [OF wp_recover [OF E uniq]], rule wp_option, goal_cases)
    case (1 r u)
    then have rec: "recovered (wdb w) (wdb u)" by simp
    then have u: "hosts (wdb u) = hosts (wdb w)" "pools (wdb u) = pools (wdb w)"
      unfolding recovered_def by (metis db.select_convs db.surjective db.update_convs(2,7))+
    have LP: "ListPools (e_codec E) (wdb u) = (case ListPools (e_codec E) (wdb w) of Inl e \<Rightarrow> Inl e | Inr (specs, _) \<Rightarrow> Inr (specs, wdb u))"
      by (simp add: ListPools_def u split: sum.split)
    have dom: "dom (buildFlintlockPool (e_dialer E) (map rowToHost (sort_key hr_name (hosts (wdb w))))) =
        {h_Name h | h. h \<in> rowToHost ` set (hosts (wdb w)) \<and> is_ok (Dial (e_dialer E) (Some h))}"
      by (simp add: buildFlintlockPool_def dial_hosts_dom)
    have seeded: "?Q (map_option FatalSeed err) (v\<lparr>wmgr := m\<rparr>)"
      if LPw: "ListPools (e_codec E) (wdb w) = Inr (specs, d)" and run: "Seed specs new_manager = (err, m)"
        and v: "wdb v = wdb u" "wconns v = buildFlintlockPool (e_dialer E) (map rowToHost (sort_key hr_name (hosts (wdb w))))"
      for specs err m d v
    proof (cases err)
      case None
      have "dom (mg_handles m) = spec_key ` set specs" using Seed_handles [of specs new_manager m] run None by (simp add: new_manager_def)
      then show ?thesis using None rec v dom ListPools_keys(1) [OF LPw] by simp
    next
      case (Some e)
      have "\<not> list_all (\<lambda>s. is_ok (NewStrategy (ps_ReplenishmentStrategy s))) specs"
      proof
        assume "list_all (\<lambda>s. is_ok (NewStrategy (ps_ReplenishmentStrategy s))) specs"
        then have "fst (Seed specs new_manager) = None"
          by (rule Seed_succeeds) (use wf ListPools_keys(2) [OF LPw] in \<open>simp_all add: wf_db_def new_manager_def\<close>)
        then show False using run Some by simp
      qed
      then show ?thesis using Some LPw ListPools_keys(3) [OF LPw] by auto
    qed
    show ?case
    proof (cases "ListPools (e_codec E) (wdb w)")
      case (Inl e)
      then show ?thesis using E LP
        by (auto simp: Seed_M_def wp_simps wp_storeCall_undisturbed ListHosts_def Let_def ctx_ok_def)
    next
      case (Inr p)
      obtain specs d err m where p: "p = (specs, d)" "Seed specs new_manager = (err, m)" by (metis surj_pair)
      show ?thesis using E LP Inr p seeded [of specs d err m]
        by (auto simp: Seed_M_def wp_simps wp_storeCall_undisturbed ListHosts_def Let_def ctx_ok_def u)
    qed
  next
    case (2 r u e)
    then show ?case by (simp add: wp_return)
  qed
qed


section \<open>Properties\<close>

text \<open>A database as a crashed process leaves it: a VM half provisioned, one claimed whose lease
  was never written, one leased, and a placement.\<close>

definition sample_crashed :: db where
  "sample_crashed = sample_pool_db\<lparr>vms := [sample_vm ''v1'' CREATE_HOOK_RUNNING, sample_vm ''v2'' AVAILABLE,
       (sample_vm ''v3'' LEASED)\<lparr>vr_leaseID := Some ''l''\<rparr>, (sample_vm ''v4'' LEASED)\<lparr>vr_leaseID := Some ''lost''\<rparr>],
     placements := [\<lparr>pl_id = ''pl'', pl_host = ''h'', pl_poolName = ''p'', pl_poolNamespace = ''ns'', pl_createdAt = 0\<rparr>]\<rparr>"

text \<open>C9: after a successful start-up nothing of the previous process is left half done. In a
  working store, no placement is reserved; every VM that was being provisioned, or was claimed
  without a committed lease, is marked for deletion; every other VM, and every lease, pool, host
  and event, is as it was. So a VM is LEASED only under a lease, and none is mid-provisioning.
  A connection exists for exactly the registered hosts that dial, and a reconciler runs for
  exactly the stored pools.\<close>

theorem startup_recovers:
  assumes "undisturbed E" and "wf_db (wdb w)" and "run_state (startup E) w = (None, w')"
  shows "list_all2 (\<lambda>r r'. if abandoned (leases (wdb w)) r then \<exists>t. r' = r\<lparr>vr_phase := DELETING, vr_updatedAt := t\<rparr> else r' = r)
       (vms (wdb w)) (vms (wdb w')) \<and>
     wdb w' = (wdb w)\<lparr>vms := vms (wdb w'), placements := []\<rparr> \<and>
     (\<forall>r \<in> set (vms (wdb w')). vr_phase r \<notin> {PROVISIONING, CREATE_HOOK_RUNNING} \<and>
        (vr_phase r \<in> {PRE_LEASE_HOOK_RUNNING, LEASED} \<longrightarrow> GetLeaseId (rowToVM r) \<in> lr_leaseID ` set (leases (wdb w')))) \<and>
     dom (wconns w') = {h_Name h | h. h \<in> rowToHost ` set (hosts (wdb w)) \<and> is_ok (Dial (e_dialer E) (Some h))} \<and>
     dom (mg_handles (wmgr w')) = (\<lambda>r. PoolKey (pr_name r) (pr_namespace r)) ` set (pools (wdb w))"
proof -
  have post: "recovered (wdb w) (wdb w') \<and>
        dom (wconns w') = {h_Name h | h. h \<in> rowToHost ` set (hosts (wdb w)) \<and> is_ok (Dial (e_dialer E) (Some h))} \<and>
        dom (mg_handles (wmgr w')) = (\<lambda>r. PoolKey (pr_name r) (pr_namespace r)) ` set (pools (wdb w))"
    using wp_startup [OF assms(1,2)] by (simp add: wp_def assms(3))
  then have marks: "list_all2 (\<lambda>r r'. if abandoned (leases (wdb w)) r then \<exists>t. r' = mark t r else r' = r) (vms (wdb w)) (vms (wdb w'))"
    and rest: "wdb w' = (wdb w)\<lparr>vms := vms (wdb w'), placements := []\<rparr>" by (simp_all add: recovered_def)
  from rest have ls: "leases (wdb w') = leases (wdb w)" by (metis db.select_convs(3) db.surjective db.update_convs(2,7))
  have "\<not> abandoned (leases (wdb w)) r'" if "r' \<in> set (vms (wdb w'))" for r'
    using marks that by (induction rule: list_all2_induct) (auto simp: abandoned_def split: if_splits)
  then show ?thesis using post marks rest ls unfolding mark_def abandoned_def by auto
qed

theorem startup_recovers_witness:
  "\<exists>w'. run_state (startup sample_env) (sample_world sample_crashed) = (None, w') \<and>
     map vr_phase (vms (wdb w')) = [DELETING, AVAILABLE, LEASED, DELETING] \<and> placements (wdb w') = [] \<and>
     dom (wconns w') = {''h''} \<and> dom (mg_handles (wmgr w')) = {PoolKey ''p'' ''ns''}"
proof -
  have db: "wdb (sample_world sample_crashed) = sample_crashed" by (simp add: sample_world_def)
  have "fst (run_state (startup sample_env) (sample_world sample_crashed)) = None" by code_simp
  then obtain w' where run: "run_state (startup sample_env) (sample_world sample_crashed) = (None, w')" by (metis prod.collapse)
  have wf: "wf_db sample_crashed" by code_simp
  have facts: "vms sample_crashed = [sample_vm ''v1'' CREATE_HOOK_RUNNING, sample_vm ''v2'' AVAILABLE,
      (sample_vm ''v3'' LEASED)\<lparr>vr_leaseID := Some ''l''\<rparr>, (sample_vm ''v4'' LEASED)\<lparr>vr_leaseID := Some ''lost''\<rparr>]"
    "leases sample_crashed = [sample_lease]" "hosts sample_crashed = [sample_host]"
    "map (\<lambda>r. PoolKey (pr_name r) (pr_namespace r)) (pools sample_crashed) = [PoolKey ''p'' ''ns'']"
    "is_ok (Dial (e_dialer sample_env) (Some (rowToHost sample_host)))" "h_Name (rowToHost sample_host) = ''h''"
    by code_simp+
  from arg_cong [OF facts(4), of set] have pools: "(\<lambda>r. PoolKey (pr_name r) (pr_namespace r)) ` set (pools sample_crashed) = {PoolKey ''p'' ''ns''}"
    by simp
  have ab: "abandoned [sample_lease] (sample_vm ''v1'' CREATE_HOOK_RUNNING)" "\<not> abandoned [sample_lease] (sample_vm ''v2'' AVAILABLE)"
    "\<not> abandoned [sample_lease] ((sample_vm ''v3'' LEASED)\<lparr>vr_leaseID := Some ''l''\<rparr>)"
    "abandoned [sample_lease] ((sample_vm ''v4'' LEASED)\<lparr>vr_leaseID := Some ''lost''\<rparr>)" by code_simp+
  have phase: "vr_phase (sample_vm u p) = p" for u p by (simp add: sample_vm_def)
  note post = startup_recovers [OF undisturbed_sample _ run, unfolded db, OF wf, unfolded facts pools]
  have "map vr_phase (vms (wdb w')) = [DELETING, AVAILABLE, LEASED, DELETING]"
    using conjunct1 [OF post] phase by (auto simp: ab list_all2_Cons1)
  moreover have "placements (wdb w') = []" using post by (metis db.select_convs(7) db.surjective db.update_convs(7))
  ultimately show ?thesis using run post facts(5,6) by auto
qed




end
