(* ===== verification/Sweeper.thy ===== *)
theory Sweeper
  imports Reconciler
begin

text \<open>
  Model of \<^verbatim>\<open>src/internal/reconciler/sweeper.go\<close>: one tick of the sweeper, which retries pending
  deletions, deletes what is left on draining hosts, expires leases and warns of leases about
  to expire. Its memory of the warnings sent, \<open>warned\<close>, is passed through.
\<close>

section \<open>Definitions\<close>

definition DefaultWarningWindow :: Duration where "DefaultWarningWindow = 30 * second"

type_synonym warned = "string \<Rightarrow> int option"

text \<open>The map \<open>draining[name]\<close> built from the registry: later entries overwrite earlier
  ones.\<close>

fun draining_map :: "Host list \<Rightarrow> string \<Rightarrow> bool" where
  "draining_map [] name = False"
| "draining_map (h # hs) name =
     (if name \<in> set (map h_Name hs) then draining_map hs name else h_Name h = name \<and> h_Draining h)"

definition retryOne :: "env \<Rightarrow> (string \<Rightarrow> bool) \<Rightarrow> VMRecord \<Rightarrow> unit M" where
  "retryOne E draining vm = do {
     err \<leftarrow> EnsureVMDeleted E Ctx vm;
     (if err \<noteq> None then ret ()
      else do {
        p \<leftarrow> storeCall E Ctx (\<lambda>_. GetPool (e_codec E) (vm_PoolName vm) (vm_PoolNamespace vm));
        case p of Inl _ \<Rightarrow> ret ()
        | Inr pool \<Rightarrow>
          if GetLeaseId vm = [] \<and> draining (vm_FlintlockHost vm)
          then act (A_NotifyVMDeleted (ps_Name pool) (ps_Namespace pool))
          else FinishVMDeletion E Ctx pool vm True True }) }"

definition retryPendingDeletions :: "env \<Rightarrow> unit M" where
  "retryPendingDeletions E = do {
     r \<leftarrow> storeCall E Ctx (\<lambda>_. ListVMsByPhase DELETING);
     case r of Inl _ \<Rightarrow> ret ()
     | Inr vs \<Rightarrow>
       if vs = [] then ret ()
       else do {
         h \<leftarrow> storeCall E Ctx (\<lambda>_. ListHosts);
         case h of Inl _ \<Rightarrow> ret ()
         | Inr hs \<Rightarrow> for_each (retryOne E (draining_map hs)) vs } }"

definition drainHosts :: "env \<Rightarrow> unit M" where
  "drainHosts E = do {
     r \<leftarrow> storeCall E Ctx (\<lambda>n. MarkDrainingHostsVMsDeleting (e_clock E n));
     case r of Inl _ \<Rightarrow> ret () | Inr vs \<Rightarrow> DeleteDrainedVMs E True vs True }"

definition warnExpiringSoon :: "env \<Rightarrow> LeaseRecord \<Rightarrow> unit M" where
  "warnExpiringSoon E l = do {
     p \<leftarrow> storeCall E Ctx (\<lambda>_. GetPool (e_codec E) (l_PoolName l) (l_PoolNamespace l));
     case p of Inl _ \<Rightarrow> ret () | Inr pool \<Rightarrow> EmitEvent E Ctx pool (l_VmUid l) VM_EXPIRING_SOON }"

definition beginExpiry :: "env \<Rightarrow> LeaseRecord \<Rightarrow> Timestamp \<Rightarrow> unit M" where
  "beginExpiry E l now = do {
     x \<leftarrow> storeCall E Ctx (\<lambda>_. DeleteLeaseIfExpired (l_LeaseId l) now);
     case x of Inl _ \<Rightarrow> ret ()
     | Inr expiredLease \<Rightarrow> do {
     act (A_Metric (M_VMRelease (l_PoolName expiredLease) (l_PoolNamespace expiredLease) ''expiry''));
     act (A_Metric (M_LeaseDuration (l_PoolName expiredLease) (l_PoolNamespace expiredLease)));
     v \<leftarrow> storeCall E Ctx (\<lambda>_. GetVM (l_VmUid l));
     case v of Inl _ \<Rightarrow> ret ()
     | Inr vm \<Rightarrow>
       if vm_Phase vm \<noteq> LEASED then ret ()
       else do {
         p \<leftarrow> storeCall E Ctx (\<lambda>_. GetPool (e_codec E) (l_PoolName l) (l_PoolNamespace l));
         case p of Inl _ \<Rightarrow> ret ()
         | Inr pool \<Rightarrow> do {
             err \<leftarrow> EnsureVMDeleted E Ctx vm;
             (if err \<noteq> None then ret () else FinishVMDeletion E Ctx pool vm True True) } } } }"

text \<open>\<open>l.GetExpiresAt().AsTime()\<close>; a nil timestamp is the epoch.\<close>

definition expiresAt :: "LeaseRecord \<Rightarrow> Timestamp" where
  "expiresAt l = (case l_ExpiresAt l of None \<Rightarrow> 0 | Some t \<Rightarrow> t)"

fun tick_leases :: "env \<Rightarrow> Timestamp \<Rightarrow> LeaseRecord list \<Rightarrow> warned \<Rightarrow> warned M" where
  "tick_leases E now [] w = ret w"
| "tick_leases E now (l # ls) w =
     (if \<not> expiresAt l > now then do {
        beginExpiry E l now;
        tick_leases E now ls (w(l_LeaseId l := None)) }
      else if w (l_LeaseId l) = None \<or> w (l_LeaseId l) \<noteq> Some (UnixNano (expiresAt l)) then do {
        warnExpiringSoon E l;
        tick_leases E now ls (w(l_LeaseId l \<mapsto> UnixNano (expiresAt l))) }
      else tick_leases E now ls w)"

definition Tick :: "env \<Rightarrow> Duration \<Rightarrow> Timestamp \<Rightarrow> warned \<Rightarrow> warned M" where
  "Tick E warningWindow now w = do {
     retryPendingDeletions E;
     drainHosts E;
     r \<leftarrow> storeCall E Ctx (\<lambda>_. ListExpiredLeases (now + warningWindow));
     case r of Inl _ \<Rightarrow> ret w
     | Inr ls \<Rightarrow> do {
         w' \<leftarrow> tick_leases E now ls w;
         ret (\<lambda>i. if i \<in> set (map l_LeaseId ls) then w' i else None) } }"

text \<open>\<open>Run\<close>: a tick at each of the times the ticker fires, until the context is done.\<close>

fun Sweeper_Run :: "env \<Rightarrow> Duration \<Rightarrow> Timestamp list \<Rightarrow> warned \<Rightarrow> warned M" where
  "Sweeper_Run E warningWindow [] w = ret w"
| "Sweeper_Run E warningWindow (now # ticks) w = do {
     w' \<leftarrow> Tick E warningWindow now w;
     Sweeper_Run E warningWindow ticks w' }"

section \<open>Facts\<close>

lemma keeps_retryOne [keeps_intros]: "honest E \<Longrightarrow> keeps (runs_store (e_codec E)) (retryOne E dr vm)"
  unfolding retryOne_def by (intro keeps_intros tx_intros; assumption)

lemma keeps_retryPendingDeletions [keeps_intros]: "honest E \<Longrightarrow> keeps (runs_store (e_codec E)) (retryPendingDeletions E)"
  unfolding retryPendingDeletions_def by (intro keeps_intros tx_intros; assumption)

lemma keeps_drainHosts [keeps_intros]: "honest E \<Longrightarrow> keeps (runs_store (e_codec E)) (drainHosts E)"
  unfolding drainHosts_def by (intro keeps_intros tx_intros; assumption)

lemma keeps_warnExpiringSoon [keeps_intros]: "honest E \<Longrightarrow> keeps (runs_store (e_codec E)) (warnExpiringSoon E l)"
  unfolding warnExpiringSoon_def by (intro keeps_intros tx_intros; assumption)

lemma keeps_beginExpiry [keeps_intros]: "honest E \<Longrightarrow> keeps (runs_store (e_codec E)) (beginExpiry E l now)"
  unfolding beginExpiry_def by (intro keeps_intros tx_intros; assumption)

lemma keeps_tick_leases [keeps_intros]: "honest E \<Longrightarrow> keeps (runs_store (e_codec E)) (tick_leases E now ls w)"
  by (induction ls arbitrary: w) (auto intro!: keeps_intros)

lemma keeps_Tick [keeps_intros]: "honest E \<Longrightarrow> keeps (runs_store (e_codec E)) (Tick E win now w)"
  unfolding Tick_def by (intro keeps_intros tx_intros; assumption)

lemma keeps_Sweeper_Run [keeps_intros]: "honest E \<Longrightarrow> keeps (runs_store (e_codec E)) (Sweeper_Run E win ticks w)"
  by (induction ticks arbitrary: w) (auto intro!: keeps_intros)

end
