(* ===== verification/Lease_API.thy ===== *)
theory Lease_API
  imports Provision_Inv
begin

text \<open>
  Model of \<^verbatim>\<open>src/internal/api/lease.go\<close>: the Lease service. A handler returns a gRPC code
  or its response; the text of the error message is not modelled. The parts of \<open>ClaimVM\<close> keep
  the source's functions.
\<close>

section \<open>Definitions\<close>

record ClaimVMRequest =
  cr_PoolName :: string
  cr_PoolNamespace :: string
  cr_RequestId :: string

record ClaimVMResponse =
  cl_LeaseId :: string
  cl_VmUid :: string
  cl_NetworkInterfaces :: NetIfaces
  cl_HostName :: string
  cl_HostAddress :: string

text \<open>The configuration of the service; \<open>NewLeaseServer\<close> replaces a missing cleanup timeout.\<close>

record HookExecConfig =
  he_ExecTimeoutSeconds :: int
  he_CleanupTimeout :: Duration

definition DefaultCleanupTimeout :: Duration where "DefaultCleanupTimeout = 30 * second"

definition NewLeaseServer_cfg :: "HookExecConfig \<Rightarrow> HookExecConfig" where
  "NewLeaseServer_cfg cfg =
     (if he_CleanupTimeout cfg \<le> 0 then cfg\<lparr>he_CleanupTimeout := DefaultCleanupTimeout\<rparr> else cfg)"

definition maxRequestIDLength :: nat where "maxRequestIDLength = 255"

fun vmDeleted :: "StoreErr \<Rightarrow> bool" where
  "vmDeleted ErrVMDeleting = True"
| "vmDeleted ErrNotFound = True"
| "vmDeleted _ = False"

definition LeaseServer_applyHookFailurePolicy :: "env \<Rightarrow> PoolSpec \<Rightarrow> VMRecord \<Rightarrow> unit M" where
  "LeaseServer_applyHookFailurePolicy E pool vm = do {
     ApplyHookFailurePolicy E pool vm hookPreLease True;
     (if ps_HookFailurePolicy pool \<noteq> QUARANTINE
      then act (A_NotifyVMDeleted (ps_Name pool) (ps_Namespace pool)) else ret ()) }"

datatype HookErr = errVMDeleted | HookErrOther

fun run_pre_lease_commands :: "env \<Rightarrow> PoolSpec \<Rightarrow> VMRecord \<Rightarrow> string list \<Rightarrow> HookErr option M" where
  "run_pre_lease_commands E pool vm [] = ret None"
| "run_pre_lease_commands E pool vm (cmd # cmds) = do {
     r \<leftarrow> Exec_M E Ctx (vm_FlintlockHost vm) (vm_Uid vm) cmd;
     (case r of
        Inl _ \<Rightarrow> do { LeaseServer_applyHookFailurePolicy E pool vm; ret (Some HookErrOther) }
      | Inr result \<Rightarrow>
        if er_ExitCode result \<noteq> 0
        then do { LeaseServer_applyHookFailurePolicy E pool vm; ret (Some HookErrOther) }
        else run_pre_lease_commands E pool vm cmds) }"

definition runPreLeaseHooks :: "env \<Rightarrow> PoolSpec \<Rightarrow> VMRecord \<Rightarrow> (HookErr + VMRecord) M" where
  "runPreLeaseHooks E pool vm0 = do {
     now \<leftarrow> Now E;
     let vm = vm0\<lparr>vm_Phase := PRE_LEASE_HOOK_RUNNING, vm_UpdatedAt := Some now\<rparr>;
     u \<leftarrow> UpdateVM E Ctx vm;
     case u of
       Inl e \<Rightarrow> (if vmDeleted e then ret (Inl errVMDeleted)
                 else do { LeaseServer_applyHookFailurePolicy E pool vm; ret (Inl HookErrOther) })
     | Inr _ \<Rightarrow> do {
     ec \<leftarrow> flint_conn (vm_FlintlockHost vm);
     case ec of Inl _ \<Rightarrow> do { LeaseServer_applyHookFailurePolicy E pool vm; ret (Inl HookErrOther) }
     | Inr _ \<Rightarrow> do {
     h \<leftarrow> run_pre_lease_commands E pool vm (ps_PreLeaseCommands pool);
     case h of Some e \<Rightarrow> ret (Inl e)
     | None \<Rightarrow> do {
     act (A_Metric (M_HookDuration hookPreLease (ps_Name pool) (ps_Namespace pool)));
     ret (Inr vm) } } } }"

definition claimResponse :: "env \<Rightarrow> string \<Rightarrow> VMRecord \<Rightarrow> ClaimVMResponse M" where
  "claimResponse E leaseID vm = do {
     client \<leftarrow> flint_conn (vm_FlintlockHost vm);
     nets \<leftarrow> (case client of Inl _ \<Rightarrow> ret []
              | Inr _ \<Rightarrow> do {
                  r \<leftarrow> GetMicroVM E Ctx (vm_FlintlockHost vm) (vm_Uid vm);
                  ret (case r of Inl _ \<Rightarrow> [] | Inr (_, n) \<Rightarrow> n) });
     p \<leftarrow> getConns;
     ret \<lparr>cl_LeaseId = leaseID, cl_VmUid = vm_Uid vm, cl_NetworkInterfaces = nets,
          cl_HostName = vm_FlintlockHost vm,
          cl_HostAddress = (case Pool_Address (vm_FlintlockHost vm) p of Inl _ \<Rightarrow> [] | Inr a \<Rightarrow> a)\<rparr> }"

definition replayClaim :: "env \<Rightarrow> LeaseRecord \<Rightarrow> string \<Rightarrow> string \<Rightarrow> (Code + ClaimVMResponse) M" where
  "replayClaim E lease poolName poolNS =
     (if l_PoolName lease \<noteq> poolName \<or> l_PoolNamespace lease \<noteq> poolNS then ret (Inl InvalidArgument)
      else do {
        v \<leftarrow> storeCall E Ctx (\<lambda>_. GetVM (l_VmUid lease));
        case v of
          Inl e \<Rightarrow> ret (Inl (if e = ErrNotFound then Aborted else Internal))
        | Inr vm \<Rightarrow>
          if vm_Phase vm = DELETING then ret (Inl Aborted)
          else do {
            act (A_Metric (M_VMClaim poolName poolNS True));
            resp \<leftarrow> claimResponse E (l_LeaseId lease) vm;
            ret (Inr resp) } })"

definition yieldClaim :: "env \<Rightarrow> PoolSpec \<Rightarrow> VMRecord \<Rightarrow> string \<Rightarrow> (Code + ClaimVMResponse) M" where
  "yieldClaim E pool vm requestID = do {
     now \<leftarrow> Now E;
     let vm' = vm\<lparr>vm_Phase := AVAILABLE, vm_LeaseId := None, vm_UpdatedAt := Some now\<rparr>;
     u \<leftarrow> UpdateVM E Detached vm';
     case u of
       Inl e \<Rightarrow> (if vmDeleted e then ret (Inl Aborted)
                 else do { LeaseServer_applyHookFailurePolicy E pool vm'; ret (Inl Internal) })
     | Inr _ \<Rightarrow> do {
     l \<leftarrow> storeCall E Ctx (\<lambda>_. GetLeaseByRequestID requestID);
     case l of
       Inl e \<Rightarrow> ret (Inl (if e = ErrNotFound then Aborted else Internal))
     | Inr lease \<Rightarrow> replayClaim E lease (ps_Name pool) (ps_Namespace pool) } }"

text \<open>The end of \<open>ClaimVM\<close>: a VM has been taken and its hooks have run.\<close>

definition commit_claim :: "env \<Rightarrow> PoolSpec \<Rightarrow> VMRecord \<Rightarrow> ClaimVMRequest \<Rightarrow> (Code + ClaimVMResponse) M" where
  "commit_claim E pool vm0 req = do {
     leaseID \<leftarrow> NewString E;
     now \<leftarrow> Now E;
     let vm = vm0\<lparr>vm_Phase := LEASED, vm_LeaseId := Some leaseID, vm_UpdatedAt := Some now\<rparr>;
     let lease = \<lparr>l_LeaseId = leaseID, l_VmUid = vm_Uid vm, l_PoolName = cr_PoolName req, l_ClaimedAt = Some now,
           l_LastHeartbeatAt = Some now, l_ExpiresAt = Some (now + AsDuration (ps_HeartbeatExpiryThreshold pool)),
           l_PoolNamespace = cr_PoolNamespace req, l_RequestId = cr_RequestId req\<rparr>;
     r \<leftarrow> storeCall E Ctx (\<lambda>_. LeaseVM vm lease);
     case r of
       Inl e \<Rightarrow>
         (if e = ErrDuplicateRequestID then yieldClaim E pool vm (cr_RequestId req)
          else if vmDeleted e then ret (Inl Aborted)
          else do { LeaseServer_applyHookFailurePolicy E pool vm; ret (Inl Internal) })
     | Inr _ \<Rightarrow> do {
         EmitEvent E Ctx pool (vm_Uid vm) VM_CLAIMED;
         act (A_Metric (M_VMClaim (cr_PoolName req) (cr_PoolNamespace req) False));
         act (A_NotifyVMClaimed (cr_PoolName req) (cr_PoolNamespace req));
         resp \<leftarrow> claimResponse E leaseID vm;
         ret (Inr resp) } }"

definition fresh_claim :: "env \<Rightarrow> PoolSpec \<Rightarrow> ClaimVMRequest \<Rightarrow> (Code + ClaimVMResponse) M" where
  "fresh_claim E pool req = do {
     v \<leftarrow> storeCall E Ctx (\<lambda>n. ClaimAvailableVM (e_pick E n) (e_clock E n) (cr_PoolName req) (cr_PoolNamespace req));
     case v of
       Inl e \<Rightarrow> ret (Inl (if e = ErrNoAvailableVM then ResourceExhausted else Internal))
     | Inr vm \<Rightarrow> do {
     h \<leftarrow> runPreLeaseHooks E pool vm;
     case h of
       Inl e \<Rightarrow> ret (Inl (if e = errVMDeleted then Aborted else Internal))
     | Inr vm' \<Rightarrow> commit_claim E pool vm' req } }"

definition ClaimVM :: "env \<Rightarrow> ClaimVMRequest \<Rightarrow> (Code + ClaimVMResponse) M" where
  "ClaimVM E req =
     (if length (cr_RequestId req) > maxRequestIDLength then ret (Inl InvalidArgument)
      else do {
        p \<leftarrow> storeCall E Ctx (\<lambda>_. GetPool (e_codec E) (cr_PoolName req) (cr_PoolNamespace req));
        case p of
          Inl e \<Rightarrow> ret (Inl (if e = ErrNotFound then NotFound else Internal))
        | Inr pool \<Rightarrow>
          if cr_RequestId req \<noteq> [] then do {
            l \<leftarrow> storeCall E Ctx (\<lambda>_. GetLeaseByRequestID (cr_RequestId req));
            case l of
              Inr lease \<Rightarrow> replayClaim E lease (cr_PoolName req) (cr_PoolNamespace req)
            | Inl e \<Rightarrow> if e \<noteq> ErrNotFound then ret (Inl Internal) else fresh_claim E pool req }
          else fresh_claim E pool req })"

definition Heartbeat :: "env \<Rightarrow> string \<Rightarrow> (Code + Timestamp) M" where
  "Heartbeat E leaseID = do {
     l \<leftarrow> storeCall E Ctx (\<lambda>_. GetLease leaseID);
     case l of
       Inl e \<Rightarrow> ret (Inl (if e = ErrNotFound then NotFound else Internal))
     | Inr lease \<Rightarrow> do {
     p \<leftarrow> storeCall E Ctx (\<lambda>_. GetPool (e_codec E) (l_PoolName lease) (l_PoolNamespace lease));
     case p of
       Inl e \<Rightarrow> ret (Inl (if e = ErrNotFound then NotFound else Internal))
     | Inr pool \<Rightarrow> do {
     now \<leftarrow> Now E;
     let ex = now + AsDuration (ps_HeartbeatExpiryThreshold pool);
     u \<leftarrow> storeCall E Ctx (\<lambda>_. UpdateLeaseHeartbeat leaseID now ex);
     case u of
       Inl e \<Rightarrow> ret (Inl (if e = ErrNotFound then NotFound else Internal))
     | Inr _ \<Rightarrow> ret (Inr ex) } } }"

definition release_orphan_lease :: "env \<Rightarrow> LeaseRecord \<Rightarrow> string \<Rightarrow> (Code + unit) M" where
  "release_orphan_lease E lease leaseID = do {
     d \<leftarrow> storeCall E Ctx (\<lambda>_. DeleteLease leaseID);
     (case d of
        Inl e \<Rightarrow> if e \<noteq> ErrNotFound then ret (Inl Internal)
                 else do { act (A_NotifyVMDeleted (l_PoolName lease) (l_PoolNamespace lease)); ret (Inr ()) }
      | Inr _ \<Rightarrow> do { act (A_NotifyVMDeleted (l_PoolName lease) (l_PoolNamespace lease)); ret (Inr ()) }) }"

definition ReleaseVM :: "env \<Rightarrow> string \<Rightarrow> (Code + unit) M" where
  "ReleaseVM E leaseID = do {
     l \<leftarrow> storeCall E Ctx (\<lambda>_. GetLease leaseID);
     case l of
       Inl e \<Rightarrow> ret (Inl (if e = ErrNotFound then NotFound else Internal))
     | Inr lease \<Rightarrow> do {
     v \<leftarrow> storeCall E Ctx (\<lambda>_. GetVM (l_VmUid lease));
     case v of
       Inl e \<Rightarrow> if e \<noteq> ErrNotFound then ret (Inl Internal) else release_orphan_lease E lease leaseID
     | Inr vm \<Rightarrow> do {
     r \<leftarrow> EnsureVMDeletedCheckingPool E Ctx vm;
     case r of
       Inl e \<Rightarrow>
         if e = EStore ErrNotFound then do {
           p \<leftarrow> storeCall E Ctx (\<lambda>_. GetPool (e_codec E) (l_PoolName lease) (l_PoolNamespace lease));
           (case p of
              Inr _ \<Rightarrow> ret (Inr ())
            | Inl perr \<Rightarrow> if perr \<noteq> ErrNotFound then ret (Inl Internal) else release_orphan_lease E lease leaseID) }
         else ret (Inl Unavailable)
     | Inr poolExists \<Rightarrow>
         if poolExists then do {
           FinishVMRelease E Ctx ((vmPool vm)\<lparr>ps_Name := l_PoolName lease, ps_Namespace := l_PoolNamespace lease\<rparr>)
             vm lease True True;
           ret (Inr ()) }
         else release_orphan_lease E lease leaseID } } }"

definition API_ListLeases :: "env \<Rightarrow> PoolRef option \<Rightarrow> (Code + LeaseRecord list) M" where
  "API_ListLeases E poolRef = do {
     r \<leftarrow> storeCall E Ctx (\<lambda>_. ListLeases poolRef);
     case r of Inl _ \<Rightarrow> ret (Inl Internal) | Inr ls \<Rightarrow> ret (Inr ls) }"

section \<open>Every step is a store transaction\<close>

lemma cleanup_bounded: "0 < he_CleanupTimeout (NewLeaseServer_cfg cfg)"
  by (simp add: NewLeaseServer_cfg_def DefaultCleanupTimeout_def second_def)

lemma keeps_LeaseServer_applyHookFailurePolicy [keeps_intros]: "honest E \<Longrightarrow> keeps (runs_store (e_codec E)) (LeaseServer_applyHookFailurePolicy E pool vm)"
  unfolding LeaseServer_applyHookFailurePolicy_def by (intro keeps_intros tx_intros; assumption)

lemma keeps_run_pre_lease_commands [keeps_intros]:
  "honest E \<Longrightarrow> keeps (runs_store (e_codec E)) (run_pre_lease_commands E pool vm cmds)"
proof (induction cmds)
  case (Cons cmd cmds)
  then show ?case unfolding run_pre_lease_commands.simps by (intro keeps_intros; simp)
qed (simp add: keeps_intros)

lemma keeps_runPreLeaseHooks [keeps_intros]: "honest E \<Longrightarrow> keeps (runs_store (e_codec E)) (runPreLeaseHooks E pool vm)"
  unfolding runPreLeaseHooks_def by (intro keeps_intros tx_intros; assumption)

lemma keeps_claimResponse [keeps_intros]: "honest E \<Longrightarrow> keeps (runs_store (e_codec E)) (claimResponse E i vm)"
  unfolding claimResponse_def by (intro keeps_intros tx_intros; assumption)

lemma keeps_replayClaim [keeps_intros]: "honest E \<Longrightarrow> keeps (runs_store (e_codec E)) (replayClaim E l n ns)"
  unfolding replayClaim_def by (intro keeps_intros tx_intros; assumption)

lemma keeps_yieldClaim [keeps_intros]: "honest E \<Longrightarrow> keeps (runs_store (e_codec E)) (yieldClaim E pool vm i)"
  unfolding yieldClaim_def by (intro keeps_intros tx_intros; assumption)

lemma keeps_commit_claim [keeps_intros]: "honest E \<Longrightarrow> keeps (runs_store (e_codec E)) (commit_claim E pool vm req)"
  unfolding commit_claim_def by (intro keeps_intros tx_intros; assumption)

lemma keeps_fresh_claim [keeps_intros]: "honest E \<Longrightarrow> keeps (runs_store (e_codec E)) (fresh_claim E pool req)"
  unfolding fresh_claim_def by (intro keeps_intros tx_intros; assumption)

lemma keeps_ClaimVM [keeps_intros]: "honest E \<Longrightarrow> keeps (runs_store (e_codec E)) (ClaimVM E req)"
  unfolding ClaimVM_def by (intro keeps_intros tx_intros; assumption)

lemma keeps_Heartbeat [keeps_intros]: "honest E \<Longrightarrow> keeps (runs_store (e_codec E)) (Heartbeat E i)"
  unfolding Heartbeat_def by (intro keeps_intros tx_intros; assumption)

lemma keeps_release_orphan_lease [keeps_intros]: "honest E \<Longrightarrow> keeps (runs_store (e_codec E)) (release_orphan_lease E l i)"
  unfolding release_orphan_lease_def by (intro keeps_intros tx_intros; assumption)

lemma keeps_ReleaseVM [keeps_intros]: "honest E \<Longrightarrow> keeps (runs_store (e_codec E)) (ReleaseVM E i)"
  unfolding ReleaseVM_def by (intro keeps_intros tx_intros; assumption)

lemma keeps_API_ListLeases [keeps_intros]: "honest E \<Longrightarrow> keeps (runs_store (e_codec E)) (API_ListLeases E r)"
  unfolding API_ListLeases_def by (intro keeps_intros tx_intros; assumption)

end
