(* ===== verification/Lease_Props.thy ===== *)
theory Lease_Props
  imports Lease_API Cleanup
begin

text \<open>
  What the Lease service leaves behind in an undisturbed environment: a claim either hands out
  one VM together with its lease, or leaves no VM claimed; a release and a heartbeat do what
  they answer.
\<close>

section \<open>Definitions\<close>

text \<open>What a claim leaves: on success the VM LEASED with the lease the answer names; on failure
  the VM cleaned up and no lease.\<close>

definition claim_done ::
  "frame \<Rightarrow> VMRecord \<Rightarrow> ClaimVMRequest \<Rightarrow> Code + ClaimVMResponse \<Rightarrow> world \<Rightarrow> bool" where
  "claim_done d0 vm req res w \<longleftrightarrow> (case res of
      Inl _ \<Rightarrow> failed d0 vm [] w
    | Inr resp \<Rightarrow> (\<exists>r l. at (d0\<lparr>leases := leases d0 @ [l]\<rparr>) [r] [] w \<and> own vm r \<and> vr_phase r = LEASED \<and>
        vr_leaseID r = Some (cl_LeaseId resp) \<and> vr_uid r = cl_VmUid resp \<and>
        lr_leaseID l = cl_LeaseId resp \<and> lr_vmUID l = cl_VmUid resp \<and>
        lr_poolName l = cr_PoolName req \<and> lr_poolNamespace l = cr_PoolNamespace req \<and>
        lr_requestID l = (if cr_RequestId req = [] then None else Some (cr_RequestId req))))"

text \<open>A request.\<close>

definition sample_claim :: ClaimVMRequest where
  "sample_claim = \<lparr>cr_PoolName = ''p'', cr_PoolNamespace = ''ns'', cr_RequestId = ''q''\<rparr>"

section \<open>The hooks of a claim\<close>

lemma wp_LeaseServer_policy:
  assumes "undisturbed E" "fresh_uid d0 (vm_Uid vm)" "vm_CreatedAt vm \<noteq> None" "in_progress d0 vm pls w"
  shows "wp (LeaseServer_applyHookFailurePolicy E pool vm) (\<lambda>_ w'. failed d0 vm pls w') w"
  unfolding LeaseServer_applyHookFailurePolicy_def
proof (rule wp_seq [OF wp_ApplyHookFailurePolicy [OF assms]])
  fix a u assume "failed d0 vm pls u"
  then show "wp (if ps_HookFailurePolicy pool \<noteq> QUARANTINE
      then act (A_NotifyVMDeleted (ps_Name pool) (ps_Namespace pool)) else ret ()) (\<lambda>_ w'. failed d0 vm pls w') u"
    by (rule wp_core_failed [rotated]) (intro core_intros)
qed

lemma wp_claim_policy_then:
  assumes "undisturbed E" "fresh_uid d0 (vm_Uid vm)" "vm_CreatedAt vm \<noteq> None" "in_progress d0 vm pls w"
    and "\<And>w'. failed d0 vm pls w' \<Longrightarrow> Q x w'"
  shows "wp (State_Monad.bind (LeaseServer_applyHookFailurePolicy E pool vm) (\<lambda>_. ret x)) Q w"
  by (rule wp_seq [OF wp_LeaseServer_policy [OF assms(1-4)]]) (simp add: wp_return assms(5))

lemma wp_run_pre_lease_commands:
  assumes E: "undisturbed E" and fr: "fresh_uid d0 (vm_Uid vm)" and vm: "vm_CreatedAt vm \<noteq> None"
  shows "in_progress d0 vm pls w \<Longrightarrow> wp (run_pre_lease_commands E pool vm cmds)
    (\<lambda>res w'. case res of None \<Rightarrow> in_progress d0 vm pls w' | Some _ \<Rightarrow> failed d0 vm pls w') w"
proof (induction cmds arbitrary: w)
  case Nil
  then show ?case by (simp add: wp_return)
next
  case (Cons cmd cmds)
  let ?Q = "\<lambda>res w'. case res of None \<Rightarrow> in_progress d0 vm pls w' | Some _ \<Rightarrow> failed d0 vm pls w'"
  let ?stop = "State_Monad.bind (LeaseServer_applyHookFailurePolicy E pool vm) (\<lambda>_. ret (Some HookErrOther))"
  show ?case unfolding run_pre_lease_commands.simps
  proof (rule wp_core_in_progress [OF core_flint(6) Cons.prems])
    fix a u assume u: "in_progress d0 vm pls u"
    have "wp ?stop ?Q u" by (rule wp_claim_policy_then [OF E fr vm u]) simp
    then show "wp (case a of Inl x \<Rightarrow> ?stop
      | Inr result \<Rightarrow> if er_ExitCode result \<noteq> 0 then ?stop else run_pre_lease_commands E pool vm cmds) ?Q u"
      using Cons.IH [OF u] by (simp split: sum.split)
  qed
qed

text \<open>What the hooks leave: the VM still claimed, or cleaned up.\<close>

definition hooks_ran :: "frame \<Rightarrow> VMRecord \<Rightarrow> HookErr + VMRecord \<Rightarrow> world \<Rightarrow> bool" where
  "hooks_ran d0 vm res w \<longleftrightarrow> (case res of
      Inl _ \<Rightarrow> failed d0 vm [] w
    | Inr vm' \<Rightarrow> (\<exists>t. vm' = vm\<lparr>vm_Phase := PRE_LEASE_HOOK_RUNNING, vm_UpdatedAt := Some t\<rparr>) \<and> in_progress d0 vm [] w)"

lemma wp_run_hooks:
  assumes E: "undisturbed E" and fr: "fresh_uid d0 (vm_Uid vm)" and vm: "vm_CreatedAt vm \<noteq> None"
    and p: "in_progress d0 vm [] w" and t: "vm1 = vm\<lparr>vm_Phase := PRE_LEASE_HOOK_RUNNING, vm_UpdatedAt := Some now\<rparr>"
  shows "wp (State_Monad.bind (flint_conn (vm_FlintlockHost vm1)) (\<lambda>ec. case ec of
       Inl _ \<Rightarrow> State_Monad.bind (LeaseServer_applyHookFailurePolicy E pool vm1) (\<lambda>_. ret (Inl HookErrOther))
     | Inr _ \<Rightarrow> State_Monad.bind (run_pre_lease_commands E pool vm1 (ps_PreLeaseCommands pool)) (\<lambda>h. case h of
         Some e \<Rightarrow> ret (Inl e)
       | None \<Rightarrow> State_Monad.bind (act (A_Metric (M_HookDuration hookPreLease (ps_Name pool) (ps_Namespace pool))))
           (\<lambda>_. ret (Inr vm1))))) (hooks_ran d0 vm) w"
proof -
  have p1: "in_progress d0 vm1 [] w" using p by (simp add: t)
  have fr1: "fresh_uid d0 (vm_Uid vm1)" and vm1: "vm_CreatedAt vm1 \<noteq> None" using fr vm by (simp_all add: t)
  have stop: "hooks_ran d0 vm (Inl e) u" if "failed d0 vm1 [] u" for e u
    using that by (simp add: hooks_ran_def t)
  show ?thesis
  proof (rule wp_core_in_progress [OF core_flint(1) p1], rule wp_sum, rule wp_claim_policy_then [OF E fr1 vm1], assumption,
      erule stop, rule wp_seq [OF wp_run_pre_lease_commands [OF E fr1 vm1]], assumption, rule wp_option)
    fix h u assume "case h of None \<Rightarrow> in_progress d0 vm1 [] u | Some _ \<Rightarrow> failed d0 vm1 [] u" "h = None"
    then have "in_progress d0 vm1 [] u" by simp
    then show "wp (State_Monad.bind (act (A_Metric (M_HookDuration hookPreLease (ps_Name pool) (ps_Namespace pool))))
        (\<lambda>_. ret (Inr vm1))) (hooks_ran d0 vm) u"
      by (rule wp_core_in_progress [OF core_act]) (auto simp: wp_return hooks_ran_def t)
  next
    fix h :: "HookErr option" and e u assume "case h of None \<Rightarrow> in_progress d0 vm1 [] u | Some _ \<Rightarrow> failed d0 vm1 [] u" "h = Some e"
    then show "wp (ret (Inl e)) (hooks_ran d0 vm) u" by (simp add: wp_return stop)
  qed
qed

lemma wp_runPreLeaseHooks:
  assumes E: "undisturbed E" and fr: "fresh_uid d0 (vm_Uid vm)" and vm: "vm_CreatedAt vm \<noteq> None"
    and p: "in_progress d0 vm [] w"
  shows "wp (runPreLeaseHooks E pool vm) (hooks_ran d0 vm) w"
  unfolding runPreLeaseHooks_def Let_def
proof (rule wp_core_in_progress [OF core_Now p])
  fix now w' assume "in_progress d0 vm [] w'"
  then obtain r where r: "at d0 [r] [] w'" "own vm r" "vr_phase r \<noteq> DELETING" unfolding in_progress_def by blast
  let ?vm = "vm\<lparr>vm_Phase := PRE_LEASE_HOOK_RUNNING, vm_UpdatedAt := Some now\<rparr>"
  let ?rest = "State_Monad.bind (flint_conn (vm_FlintlockHost ?vm)) (\<lambda>ec. case ec of
       Inl _ \<Rightarrow> State_Monad.bind (LeaseServer_applyHookFailurePolicy E pool ?vm) (\<lambda>_. ret (Inl HookErrOther))
     | Inr _ \<Rightarrow> State_Monad.bind (run_pre_lease_commands E pool ?vm (ps_PreLeaseCommands pool)) (\<lambda>h. case h of
         Some e \<Rightarrow> ret (Inl e)
       | None \<Rightarrow> State_Monad.bind (act (A_Metric (M_HookDuration hookPreLease (ps_Name pool) (ps_Namespace pool))))
           (\<lambda>_. ret (Inr ?vm))))"
  let ?stop = "State_Monad.bind (LeaseServer_applyHookFailurePolicy E pool ?vm) (\<lambda>_. ret (Inl HookErrOther))"
  have "wp (UpdateVM E Ctx ?vm)
    (\<lambda>res w'. res = Inr () \<and> (\<exists>r'. at d0 [r'] [] w' \<and> own ?vm r' \<and> vr_phase r' = vm_Phase ?vm) \<or>
       res = Inl ErrDB \<and> Ctx = Ctx \<and> at d0 [r] [] w') w'"
    by (rule wp_UpdateVM_at [OF E r(1)]) (use fr vm r in \<open>simp_all add: own_def writable_def\<close>)
  then show "wp (State_Monad.bind (UpdateVM E Ctx ?vm) (\<lambda>u. case u of
      Inl e \<Rightarrow> if vmDeleted e then ret (Inl errVMDeleted) else ?stop
    | Inr _ \<Rightarrow> ?rest)) (hooks_ran d0 vm) w'"
  proof (rule wp_seq, elim disjE conjE exE)
    fix a :: "StoreErr + unit" and u r' assume a: "a = Inr ()" and "at d0 [r'] [] u" "own ?vm r'" "vr_phase r' = vm_Phase ?vm"
    then have "in_progress d0 vm [] u" unfolding in_progress_def by (auto simp: own_def)
    from wp_run_hooks [OF E fr vm this refl] show "wp (case a of
      Inl e \<Rightarrow> if vmDeleted e then ret (Inl errVMDeleted) else ?stop | Inr _ \<Rightarrow> ?rest) (hooks_ran d0 vm) u"
      by (simp only: a sum.case)
  next
    fix a :: "StoreErr + unit" and u assume a: "a = Inl ErrDB" and "at d0 [r] [] u"
    then have pend: "in_progress d0 ?vm [] u" using r by (auto simp: in_progress_def)
    have "wp ?stop (hooks_ran d0 vm) u"
      by (rule wp_claim_policy_then [OF E _ _ pend]) (use fr vm in \<open>simp_all add: hooks_ran_def\<close>)
    then show "wp (case a of
      Inl e \<Rightarrow> if vmDeleted e then ret (Inl errVMDeleted) else ?stop | Inr _ \<Rightarrow> ?rest) (hooks_ran d0 vm) u"
      by (simp add: a)
  qed
qed

section \<open>The commit of a claim\<close>

lemma updateVM_own:
  assumes "vms d = vms d0 @ [r] @ f_after d0" "fresh_uid d0 (vr_uid r)" "vmToRow v = Inr row" "vr_uid row = vr_uid r"
    and "vr_phase r \<noteq> DELETING"
  shows "updateVM v d = Inr ((), d\<lparr>vms := vms d0 @ [update_row row r] @ f_after d0\<rparr>)"
  using updateVM_exec_own [OF assms(1-4)] assms(5) by (simp add: updateVM_def)

lemma wp_LeaseVM_at:
  assumes E: "undisturbed E" and at: "at d0 [r] pls w" and fr: "fresh_uid d0 (vm_Uid v)"
    and v: "vr_uid r = vm_Uid v" "writable v" "vr_phase r \<noteq> DELETING"
    and l: "leaseToRow l = Inr lrow" "lr_requestID lrow \<noteq> None \<longrightarrow> lr_requestID lrow \<notin> lr_requestID ` set (leases d0)"
  shows "wp (storeCall E c (\<lambda>_. LeaseVM v l)) (\<lambda>res w'. case res of
      Inl e \<Rightarrow> (e = ErrDB \<or> e = ErrConstraint ''leases.lease_id'') \<and> at d0 [r] pls w'
    | Inr _ \<Rightarrow> (\<exists>r'. at (d0\<lparr>leases := leases d0 @ [lrow]\<rparr>) [r'] pls w' \<and> own v r' \<and> vr_phase r' = vm_Phase v \<and>
         vr_leaseID r' = vm_LeaseId v)) w"
proof -
  obtain row where rowv: "vmToRow v = Inr row" using vmToRow_ok [OF v(2)] by blast
  note row = vmToRow_Inr [OF rowv]
  let ?r = "update_row row r"
  let ?d = "(wdb w)\<lparr>vms := vms d0 @ [?r] @ f_after d0\<rparr>"
  have same: "at d0 [r] pls (w\<lparr>wstep := Suc (wstep w)\<rparr>)" using at by (simp add: at_def)
  have "vms (wdb w) = vms d0 @ [r] @ f_after d0" using at by (simp add: at_def)
  then have upd: "updateVM v (wdb w) = Inr ((), ?d)"
    by (rule updateVM_own) (use fr v rowv row in simp_all)
  have ls: "leases (wdb w) = leases d0" using at by (simp add: at_def)
  have nodup: "\<not> (lr_requestID lrow \<noteq> None \<and> (\<exists>r \<in> set (leases d0). lr_requestID r = lr_requestID lrow))"
    using l(2) by (metis image_eqI)
  let ?w = "w\<lparr>wstep := Suc (wstep w), wdb := ?d\<lparr>leases := leases d0 @ [lrow]\<rparr>\<rparr>"
  have "at (d0\<lparr>leases := leases d0 @ [lrow]\<rparr>) [?r] pls ?w" using at by (simp add: at_def)
  moreover have "own v ?r" "vr_phase ?r = vm_Phase v" "vr_leaseID ?r = vm_LeaseId v"
    using row v(1) by (simp_all add: own_def)
  ultimately have new: "\<exists>r'. at (d0\<lparr>leases := leases d0 @ [lrow]\<rparr>) [r'] pls ?w \<and> own v r' \<and> vr_phase r' = vm_Phase v \<and>
      vr_leaseID r' = vm_LeaseId v" by blast
  have ins: "LeaseVM v l (wdb w) = (if find_key lr_leaseID (lr_leaseID lrow) (leases d0) \<noteq> None
      then Inl (ErrConstraint ''leases.lease_id'') else Inr ((), ?d\<lparr>leases := leases d0 @ [lrow]\<rparr>))"
    using nodup by (auto simp: LeaseVM_def upd insertLease_def l(1) ls)
  show ?thesis using E same new
    by (simp add: wp_storeCall_undisturbed Let_def ins del: not_None_eq)
qed

lemma core_claimResponse [core_intros]: "keeps same_core (claimResponse E i vm)"
  unfolding claimResponse_def by (intro core_intros)

lemma claimResponse_fields:
  "wp (claimResponse E i vm) (\<lambda>resp _. cl_LeaseId resp = i \<and> cl_VmUid resp = vm_Uid vm) w"
  unfolding claimResponse_def
  by (simp add: wp_bind wp_return wp_getConns flint_conn_def GetMicroVM_def wp_fresh wp_act split: sum.split)

lemma wp_claimResponse:
  "at d0 rows pls w \<Longrightarrow> wp (claimResponse E i vm)
     (\<lambda>resp w'. at d0 rows pls w' \<and> cl_LeaseId resp = i \<and> cl_VmUid resp = vm_Uid vm) w"
  using wp_core [OF core_claimResponse] claimResponse_fields by (simp add: wp_conj)

lemma wp_commit_claim:
  assumes E: "undisturbed E" and fr: "fresh_uid d0 (vm_Uid vm)" and vm: "vm_CreatedAt vm \<noteq> None"
    and p: "in_progress d0 vm [] w"
    and new: "cr_RequestId req \<noteq> [] \<longrightarrow> Some (cr_RequestId req) \<notin> lr_requestID ` set (leases d0)"
  shows "wp (commit_claim E pool vm req) (claim_done d0 vm req) w"
  unfolding commit_claim_def Let_def
proof (rule wp_core_in_progress [OF _ p], (unfold NewString_def, intro core_intros)[1],
    rule wp_core_in_progress [OF core_Now], assumption)
  fix i now w' assume "in_progress d0 vm [] w'"
  then obtain r where r: "at d0 [r] [] w'" "own vm r" "vr_phase r \<noteq> DELETING" unfolding in_progress_def by blast
  let ?vm = "vm\<lparr>vm_Phase := LEASED, vm_LeaseId := Some i, vm_UpdatedAt := Some now\<rparr>"
  let ?l = "\<lparr>l_LeaseId = i, l_VmUid = vm_Uid ?vm, l_PoolName = cr_PoolName req, l_ClaimedAt = Some now,
       l_LastHeartbeatAt = Some now, l_ExpiresAt = Some (now + AsDuration (ps_HeartbeatExpiryThreshold pool)),
       l_PoolNamespace = cr_PoolNamespace req, l_RequestId = cr_RequestId req\<rparr>"
  let ?stop = "State_Monad.bind (LeaseServer_applyHookFailurePolicy E pool ?vm) (\<lambda>_. ret (Inl Internal))"
  obtain lrow where lrow: "leaseToRow ?l = Inr lrow" by (simp add: leaseToRow_def requireTimestamp_def)
  then have lf: "lr_leaseID lrow = i" "lr_vmUID lrow = vm_Uid vm" "lr_poolName lrow = cr_PoolName req"
    "lr_poolNamespace lrow = cr_PoolNamespace req"
    "lr_requestID lrow = (if cr_RequestId req = [] then None else Some (cr_RequestId req))"
    by (auto simp: leaseToRow_def requireTimestamp_def)
  have "wp (storeCall E Ctx (\<lambda>_. LeaseVM ?vm ?l)) (\<lambda>res w'. case res of
      Inl e \<Rightarrow> (e = ErrDB \<or> e = ErrConstraint ''leases.lease_id'') \<and> at d0 [r] [] w'
    | Inr _ \<Rightarrow> (\<exists>r'. at (d0\<lparr>leases := leases d0 @ [lrow]\<rparr>) [r'] [] w' \<and> own ?vm r' \<and> vr_phase r' = vm_Phase ?vm \<and>
         vr_leaseID r' = vm_LeaseId ?vm)) w'"
    by (rule wp_LeaseVM_at [OF E r(1) _ _ _ r(3) lrow]) (use fr vm r(2) new lf in \<open>simp_all add: own_def writable_def\<close>)
  then show "wp (State_Monad.bind (storeCall E Ctx (\<lambda>_. LeaseVM ?vm ?l)) (\<lambda>res. case res of
      Inl e \<Rightarrow> if e = ErrDuplicateRequestID then yieldClaim E pool ?vm (cr_RequestId req)
        else if vmDeleted e then ret (Inl Aborted) else ?stop
    | Inr _ \<Rightarrow> State_Monad.bind (EmitEvent E Ctx pool (vm_Uid ?vm) VM_CLAIMED) (\<lambda>_.
        State_Monad.bind (act (A_Metric (M_VMClaim (cr_PoolName req) (cr_PoolNamespace req) False))) (\<lambda>_.
        State_Monad.bind (act (A_NotifyVMClaimed (cr_PoolName req) (cr_PoolNamespace req))) (\<lambda>_.
        State_Monad.bind (claimResponse E i ?vm) (\<lambda>resp. ret (Inr resp))))))) (claim_done d0 vm req) w'"
  proof (rule wp_seq, intro wp_sum)
    fix res e u assume "case res of Inl e \<Rightarrow> (e = ErrDB \<or> e = ErrConstraint ''leases.lease_id'') \<and> at d0 [r] [] u
      | Inr (x::unit) \<Rightarrow> (\<exists>r'. at (d0\<lparr>leases := leases d0 @ [lrow]\<rparr>) [r'] [] u \<and> own ?vm r' \<and> vr_phase r' = vm_Phase ?vm \<and>
         vr_leaseID r' = vm_LeaseId ?vm)" "res = Inl e"
    then have e: "e \<noteq> ErrDuplicateRequestID" "\<not> vmDeleted e" and "at d0 [r] [] u" by auto
    then have pend: "in_progress d0 ?vm [] u" using r by (auto simp: in_progress_def own_def)
    have "wp ?stop (claim_done d0 vm req) u"
      by (rule wp_claim_policy_then [OF E _ _ pend]) (use fr vm in \<open>simp_all add: claim_done_def\<close>)
    then show "wp (if e = ErrDuplicateRequestID then yieldClaim E pool ?vm (cr_RequestId req)
        else if vmDeleted e then ret (Inl Aborted) else ?stop) (claim_done d0 vm req) u" using e by simp
  next
    fix res x u assume "case res of Inl e \<Rightarrow> (e = ErrDB \<or> e = ErrConstraint ''leases.lease_id'') \<and> at d0 [r] [] u
      | Inr (x::unit) \<Rightarrow> (\<exists>r'. at (d0\<lparr>leases := leases d0 @ [lrow]\<rparr>) [r'] [] u \<and> own ?vm r' \<and> vr_phase r' = vm_Phase ?vm \<and>
         vr_leaseID r' = vm_LeaseId ?vm)" "res = Inr x"
    then obtain r' where r': "at (d0\<lparr>leases := leases d0 @ [lrow]\<rparr>) [r'] [] u" "own ?vm r'" "vr_phase r' = LEASED"
      "vr_leaseID r' = Some i" by auto
    show "wp (State_Monad.bind (EmitEvent E Ctx pool (vm_Uid ?vm) VM_CLAIMED) (\<lambda>_.
        State_Monad.bind (act (A_Metric (M_VMClaim (cr_PoolName req) (cr_PoolNamespace req) False))) (\<lambda>_.
        State_Monad.bind (act (A_NotifyVMClaimed (cr_PoolName req) (cr_PoolNamespace req))) (\<lambda>_.
        State_Monad.bind (claimResponse E i ?vm) (\<lambda>resp. ret (Inr resp)))))) (claim_done d0 vm req) u"
    proof (rule wp_core_seq [OF core_EmitEvent [OF E] r'(1)], rule wp_core_seq [OF core_act], assumption,
        rule wp_core_seq [OF core_act], assumption, rule wp_seq, erule wp_claimResponse)
      fix resp :: ClaimVMResponse and x assume "at (d0\<lparr>leases := leases d0 @ [lrow]\<rparr>) [r'] [] x \<and> cl_LeaseId resp = i \<and> cl_VmUid resp = vm_Uid ?vm"
      then show "wp (ret (Inr resp)) (claim_done d0 vm req) x"
        using r'(2-4) lf unfolding wp_return claim_done_def sum.case by (intro exI [of _ r'] exI [of _ lrow]) (simp add: own_def)
    qed
  qed
qed

section \<open>The whole of \<open>ClaimVM\<close>\<close>

lemma wf_vms_split:
  assumes "wf_db d" "row \<in> set (vms d)"
  obtains pre post where "vms d = pre @ row # post" "\<forall>r \<in> set pre \<union> set post. vr_uid r \<noteq> vr_uid row"
proof -
  obtain pre post where s: "vms d = pre @ row # post" using assms(2) by (meson split_list)
  have "distinct (map vr_uid (vms d))" using assms(1) by (simp add: wf_db_def)
  then have "\<forall>r \<in> set pre \<union> set post. vr_uid r \<noteq> vr_uid row" unfolding s by (auto dest: sym)
  then show thesis using s that by blast
qed

text \<open>Taking a VM: the frame is the rest of the database.\<close>

definition claim_frame :: "world \<Rightarrow> vmRow list \<Rightarrow> vmRow list \<Rightarrow> frame" where
  "claim_frame w pre post = db.extend ((wdb w)\<lparr>vms := pre\<rparr>) \<lparr>f_after = post\<rparr>"

lemma claim_frame_simps [simp]:
  "vms (claim_frame w pre post) = pre" "f_after (claim_frame w pre post) = post"
  "leases (claim_frame w pre post) = leases (wdb w)" "placements (claim_frame w pre post) = placements (wdb w)"
  "pools (claim_frame w pre post) = pools (wdb w)" "hosts (claim_frame w pre post) = hosts (wdb w)"
  by (simp_all add: claim_frame_def db.defs)

text \<open>What \<open>fresh_claim\<close> leaves.\<close>

definition fresh_done :: "world \<Rightarrow> ClaimVMRequest \<Rightarrow> Code + ClaimVMResponse \<Rightarrow> world \<Rightarrow> bool" where
  "fresh_done w req res w' \<longleftrightarrow>
     (same_core w w' \<and> (\<exists>e. res = Inl e)) \<or>
     (\<exists>pre row post vm. vms (wdb w) = pre @ row # post \<and> vm_in_pool (cr_PoolName req) (cr_PoolNamespace req) row \<and>
        vr_phase row = AVAILABLE \<and> vm_Uid vm = vr_uid row \<and> claim_done (claim_frame w pre post) vm req res w')"

lemma claim_done_cong:
  "claim_done d0 (vm\<lparr>vm_Phase := p, vm_UpdatedAt := t\<rparr>) = claim_done d0 vm"
  by (rule ext)+ (simp add: claim_done_def own_def split: sum.split)

lemma wp_claimed:
  assumes E: "undisturbed E" and fr: "fresh_uid d0 (vm_Uid vm)" and vm: "vm_CreatedAt vm \<noteq> None"
    and p: "in_progress d0 vm [] w"
    and new: "cr_RequestId req \<noteq> [] \<longrightarrow> Some (cr_RequestId req) \<notin> lr_requestID ` set (leases d0)"
  shows "wp (State_Monad.bind (runPreLeaseHooks E pool vm) (\<lambda>h. case h of
      Inl e \<Rightarrow> ret (Inl (if e = errVMDeleted then Aborted else Internal))
    | Inr vm' \<Rightarrow> commit_claim E pool vm' req)) (claim_done d0 vm req) w"
proof (rule wp_seq [OF wp_runPreLeaseHooks [OF E fr vm p]], rule wp_sum)
  fix h e u assume "hooks_ran d0 vm h u" "h = Inl e"
  then show "wp (ret (Inl (if e = errVMDeleted then Aborted else Internal))) (claim_done d0 vm req) u"
    by (simp add: wp_return hooks_ran_def claim_done_def)
next
  fix h vm' u assume "hooks_ran d0 vm h u" "h = Inr vm'"
  then obtain t where vm': "vm' = vm\<lparr>vm_Phase := PRE_LEASE_HOOK_RUNNING, vm_UpdatedAt := Some t\<rparr>"
    and u: "in_progress d0 vm [] u" by (auto simp: hooks_ran_def)
  have "wp (commit_claim E pool vm' req) (claim_done d0 vm' req) u"
    by (rule wp_commit_claim [OF E _ _ _ new]) (use vm' fr vm u in simp_all)
  then show "wp (commit_claim E pool vm' req) (claim_done d0 vm req) u" unfolding vm' claim_done_cong .
qed

lemma wp_fresh_claim:
  assumes E: "undisturbed E" and wf: "wf_db (wdb w)"
    and new: "cr_RequestId req \<noteq> [] \<longrightarrow> Some (cr_RequestId req) \<notin> lr_requestID ` set (leases (wdb w))"
  shows "wp (fresh_claim E pool req) (fresh_done w req) w"
proof -
  let ?w = "w\<lparr>wstep := Suc (wstep w)\<rparr>"
  have same: "same_core w ?w" by (simp add: same_core_def)
  let ?claim = "ClaimAvailableVM (e_pick E (wstep w)) (e_clock E (wstep w)) (cr_PoolName req) (cr_PoolNamespace req) (wdb w)"
  let ?rest = "\<lambda>vm. State_Monad.bind (runPreLeaseHooks E pool vm) (\<lambda>h. case h of
      Inl e \<Rightarrow> ret (Inl (if e = errVMDeleted then Aborted else Internal)) | Inr vm' \<Rightarrow> commit_claim E pool vm' req)"
  have unfold: "wp (fresh_claim E pool req) Q w = (if \<not> ctx_ok E Ctx (wstep w) then Q (Inl Internal) ?w
    else case ?claim of Inl e \<Rightarrow> Q (Inl (if e = ErrNoAvailableVM then ResourceExhausted else Internal)) ?w
      | Inr (vm, d) \<Rightarrow> wp (?rest vm) Q (?w\<lparr>wdb := d\<rparr>))" for Q
    using E by (simp add: fresh_claim_def wp_bind wp_storeCall_undisturbed wp_return Let_def split: sum.split)
  from claim_cases [OF wf, of "e_pick E (wstep w)" "e_clock E (wstep w)" "cr_PoolName req" "cr_PoolNamespace req"]
  show ?thesis
  proof (elim disjE conjE bexE)
    assume c: "?claim = Inl ErrNoAvailableVM"
    show ?thesis unfolding unfold c using same by (simp add: fresh_done_def)
  next
    fix row assume row: "row \<in> set (vms (wdb w))" "vm_in_pool (cr_PoolName req) (cr_PoolNamespace req) row"
        "vr_phase row = AVAILABLE"
      and c: "?claim = Inr (rowToVM (leased_row (e_clock E (wstep w)) row),
         (wdb w)\<lparr>vms := sql_update (\<lambda>r. vr_uid r = vr_uid row) (leased_row (e_clock E (wstep w))) (vms (wdb w))\<rparr>)"
    obtain pre post where s: "vms (wdb w) = pre @ row # post" and u: "\<forall>r \<in> set pre \<union> set post. vr_uid r \<noteq> vr_uid row"
      using wf_vms_split [OF wf row(1)] by blast
    let ?r = "leased_row (e_clock E (wstep w)) row" and ?d0 = "claim_frame w pre post"
    have "sql_update (\<lambda>r. vr_uid r = vr_uid row) (leased_row (e_clock E (wstep w))) (vms (wdb w)) = pre @ [?r] @ post"
      using sql_update_own [of ?d0 row "\<lambda>r. vr_uid r = vr_uid row" "leased_row (e_clock E (wstep w))"] u
      unfolding s by (simp add: fresh_uid_def)
    then have at: "at ?d0 [?r] [] (?w\<lparr>wdb := (wdb w)\<lparr>vms := sql_update (\<lambda>r. vr_uid r = vr_uid row)
        (leased_row (e_clock E (wstep w))) (vms (wdb w))\<rparr>\<rparr>)" (is "at _ _ _ ?w2") by (simp add: at_def)
    have "in_progress ?d0 (rowToVM ?r) [] ?w2" unfolding in_progress_def
      by (rule exI [of _ ?r]) (use at in \<open>simp add: own_def\<close>)
    then have "wp (?rest (rowToVM ?r)) (claim_done ?d0 (rowToVM ?r) req) ?w2"
      by (intro wp_claimed [OF E]) (use u new in \<open>simp_all add: fresh_uid_def\<close>)
    then have "wp (?rest (rowToVM ?r)) (fresh_done w req) ?w2"
    proof (rule wp_mono)
      fix res t assume "claim_done ?d0 (rowToVM ?r) req res t"
      then show "fresh_done w req res t" unfolding fresh_done_def using s row(2,3)
        by (intro disjI2 exI [of _ pre] exI [of _ row] exI [of _ post] exI [of _ "rowToVM ?r"]) simp
    qed
    then show ?thesis unfolding unfold c using same by (auto simp: fresh_done_def)
  qed
qed

lemma GetPool_read: "GetPool C n ns d = Inr (a, d') \<Longrightarrow> d' = d"
  by (auto simp: GetPool_def split: option.splits sum.splits)

lemma GetVM_read: "GetVM u d = Inr (a, d') \<Longrightarrow> d' = d"
  by (auto simp: GetVM_def split: option.splits)

lemma GetLease_read: "GetLease i d = Inr (a, d') \<Longrightarrow> d' = d"
  by (auto simp: GetLease_def split: option.splits)

lemma GetLeaseByRequestID_read: "GetLeaseByRequestID i d = Inr (a, d') \<Longrightarrow> d' = d"
  by (auto simp: GetLeaseByRequestID_def split: option.splits)

text \<open>A replay answers with the lease it was given and changes nothing.\<close>

definition replay_done :: "world \<Rightarrow> LeaseRecord \<Rightarrow> string \<Rightarrow> string \<Rightarrow> Code + ClaimVMResponse \<Rightarrow> world \<Rightarrow> bool" where
  "replay_done w lease name ns res w' \<longleftrightarrow> same_core w w' \<and>
     (\<forall>resp. res = Inr resp \<longrightarrow> cl_LeaseId resp = l_LeaseId lease \<and> cl_VmUid resp = l_VmUid lease \<and>
        l_PoolName lease = name \<and> l_PoolNamespace lease = ns)"

lemma wp_replayClaim:
  assumes E: "undisturbed E"
  shows "wp (replayClaim E lease name ns) (replay_done w lease name ns) w"
  unfolding replayClaim_def
proof (rule wp_if)
  show "wp (ret (Inl InvalidArgument)) (replay_done w lease name ns) w"
    by (simp add: wp_return replay_done_def sc.refl)
next
  assume pool: "\<not> (l_PoolName lease \<noteq> name \<or> l_PoolNamespace lease \<noteq> ns)"
  let ?w = "w\<lparr>wstep := Suc (wstep w)\<rparr>"
  have w1: "same_core w ?w" by (simp add: same_core_def)
  show "wp (State_Monad.bind (storeCall E Ctx (\<lambda>_. GetVM (l_VmUid lease))) (\<lambda>v. case v of
      Inl e \<Rightarrow> ret (Inl (if e = ErrNotFound then Aborted else Internal))
    | Inr vm \<Rightarrow> if vm_Phase vm = DELETING then ret (Inl Aborted)
        else State_Monad.bind (act (A_Metric (M_VMClaim name ns True))) (\<lambda>_.
          State_Monad.bind (claimResponse E (l_LeaseId lease) vm) (\<lambda>resp. ret (Inr resp))))) (replay_done w lease name ns) w"
  proof (rule wp_seq [OF wp_read [OF E GetVM_read]], assumption, elim conjE, hypsubst, rule wp_sum, goal_cases)
    case (1 v w' e)
    then show ?case using w1 by (simp add: wp_return replay_done_def)
  next
    case (2 v w' vm)
    then have uid: "vm_Uid vm = l_VmUid lease"
      by (auto simp: GetVM_def split: option.splits dest: find_key_SomeD)
    let ?m = "State_Monad.bind (act (A_Metric (M_VMClaim name ns True))) (\<lambda>_. claimResponse E (l_LeaseId lease) vm)"
    have "keeps same_core ?m" by (intro core_intros)
    then have "wp ?m (\<lambda>_ t. same_core ?w t) ?w" unfolding keeps_def by blast
    moreover have "wp ?m (\<lambda>resp _. cl_LeaseId resp = l_LeaseId lease \<and> cl_VmUid resp = vm_Uid vm) ?w"
      unfolding wp_bind wp_act by (rule claimResponse_fields)
    ultimately have "wp ?m (\<lambda>resp t. same_core ?w t \<and> cl_LeaseId resp = l_LeaseId lease \<and> cl_VmUid resp = vm_Uid vm) ?w"
      unfolding wp_conj by blast
    then have "wp (State_Monad.bind ?m (\<lambda>resp. ret (Inr resp))) (replay_done w lease name ns) ?w"
      by (rule wp_seq) (use w1 uid pool sc.trans in \<open>auto simp: wp_return replay_done_def\<close>)
    then show ?case using w1 by (simp add: wp_return replay_done_def wp_bind)
  qed
qed

lemma rowToLease_request:
  "find (\<lambda>r. lr_requestID r = Some i) ls = Some row \<Longrightarrow> row \<in> set ls \<and> lr_requestID row = Some i"
  by (auto simp: find_Some_iff)

text \<open>What \<open>ClaimVM\<close> leaves: a replay of a lease with the same request id, or a fresh claim.\<close>

definition claimVM_done :: "world \<Rightarrow> ClaimVMRequest \<Rightarrow> Code + ClaimVMResponse \<Rightarrow> world \<Rightarrow> bool" where
  "claimVM_done w req res w' \<longleftrightarrow> fresh_done w req res w' \<or>
     (\<exists>l \<in> set (leases (wdb w)). lr_requestID l = Some (cr_RequestId req) \<and>
        replay_done w (rowToLease l) (cr_PoolName req) (cr_PoolNamespace req) res w')"

lemma claimVM_done_step: "claimVM_done (w\<lparr>wstep := n\<rparr>) = claimVM_done w"
  by (rule ext)+ (simp add: claimVM_done_def fresh_done_def replay_done_def claim_frame_def same_core_def)

lemma claimVM_done_error: "same_core w w' \<Longrightarrow> claimVM_done w req (Inl e) w'"
  by (simp add: claimVM_done_def fresh_done_def)

lemma wp_looked_up:
  assumes E: "undisturbed E" and wf: "wf_db (wdb w)" and req: "cr_RequestId req \<noteq> []"
  shows "wp (State_Monad.bind (storeCall E Ctx (\<lambda>_. GetLeaseByRequestID (cr_RequestId req))) (\<lambda>l. case l of
      Inr lease \<Rightarrow> replayClaim E lease (cr_PoolName req) (cr_PoolNamespace req)
    | Inl e \<Rightarrow> if e \<noteq> ErrNotFound then ret (Inl Internal) else fresh_claim E pool req)) (claimVM_done w req) w"
proof (rule wp_seq [OF wp_read [OF E GetLeaseByRequestID_read]], assumption, elim conjE, hypsubst, rule wp_sum, goal_cases)
  case (1 l w' e)
  let ?w = "w\<lparr>wstep := Suc (wstep w)\<rparr>"
  show ?case
  proof (rule wp_if)
    show "wp (ret (Inl Internal)) (claimVM_done w req) ?w"
      unfolding wp_return by (rule claimVM_done_error) (simp add: same_core_def)
  next
    assume "\<not> e \<noteq> ErrNotFound"
    then have "find (\<lambda>r. lr_requestID r = Some (cr_RequestId req)) (leases (wdb w)) = None"
      using 1 by (auto simp: GetLeaseByRequestID_def split: option.splits)
    then have "cr_RequestId req \<noteq> [] \<longrightarrow> Some (cr_RequestId req) \<notin> lr_requestID ` set (leases (wdb ?w))"
      by (auto simp: find_None_iff)
    then have "wp (fresh_claim E pool req) (fresh_done ?w req) ?w"
      by (intro wp_fresh_claim [OF E]) (use wf in simp_all)
    then have "wp (fresh_claim E pool req) (claimVM_done ?w req) ?w" by (rule wp_mono) (simp add: claimVM_done_def)
    then show "wp (fresh_claim E pool req) (claimVM_done w req) ?w" by (simp only: claimVM_done_step)
  qed
next
  case (2 l w' lease)
  let ?w = "w\<lparr>wstep := Suc (wstep w)\<rparr>"
  from 2 obtain row where row: "row \<in> set (leases (wdb w))" "lr_requestID row = Some (cr_RequestId req)"
      "lease = rowToLease row"
    by (auto simp: GetLeaseByRequestID_def split: option.splits dest: rowToLease_request)
  have "wp (replayClaim E lease (cr_PoolName req) (cr_PoolNamespace req)) (claimVM_done ?w req) ?w"
    by (rule wp_mono [OF wp_replayClaim [OF E]]) (use row in \<open>auto simp: claimVM_done_def\<close>)
  then show ?case by (simp only: claimVM_done_step)
qed

lemma wp_ClaimVM:
  assumes E: "undisturbed E" and wf: "wf_db (wdb w)"
  shows "wp (ClaimVM E req) (claimVM_done w req) w"
  unfolding ClaimVM_def
proof (rule wp_if, goal_cases)
  case 1
  show ?case unfolding wp_return by (rule claimVM_done_error [OF sc.refl])
next
  case 2
  show ?case
  proof (rule wp_seq [OF wp_read [OF E GetPool_read]], assumption, elim conjE, hypsubst, rule wp_sum, goal_cases)
    case (1 p w' e)
    show ?case unfolding wp_return by (rule claimVM_done_error) (simp add: same_core_def)
  next
    case (2 p w' pool)
    let ?w = "w\<lparr>wstep := Suc (wstep w)\<rparr>"
    show ?case
    proof (rule wp_if, goal_cases)
      case 1
      have "wf_db (wdb ?w)" using wf by simp
      from wp_looked_up [OF E this 1] show ?case by (simp only: claimVM_done_step)
    next
      case 2
      then have "wp (fresh_claim E pool req) (fresh_done ?w req) ?w"
        by (intro wp_fresh_claim [OF E]) (use wf in simp_all)
      then have "wp (fresh_claim E pool req) (claimVM_done ?w req) ?w" by (rule wp_mono) (simp add: claimVM_done_def)
      then show ?case by (simp only: claimVM_done_step)
    qed
  qed
qed


lemma sample_claimed:
  "\<exists>resp w'. run_state (ClaimVM sample_env sample_claim) (sample_world sample_pool_db) = (Inr resp, w') \<and>
     leases (wdb w') \<noteq> leases sample_pool_db"
proof -
  let ?r = "run_state (ClaimVM sample_env sample_claim) (sample_world sample_pool_db)"
  have "(case fst ?r of Inr _ \<Rightarrow> True | Inl _ \<Rightarrow> False) \<and> length (leases (wdb (snd ?r))) = 2 \<and> length (leases sample_pool_db) = 1"
    by code_simp
  then show ?thesis by (cases ?r) (auto split: sum.splits)
qed


end
