(* ===== verification/Release_Props.thy ===== *)
theory Release_Props
  imports Lease_Props
begin

text \<open>
  What deleting a VM and releasing a lease leave behind in an undisturbed environment: a VM's
  record goes only after flintlock confirmed that the microvm is gone, and until then the
  lease stays.
\<close>

section \<open>Deleting one VM\<close>

text \<open>What \<open>EnsureVMDeletedCheckingPool\<close> leaves of the VM's row.\<close>

definition deletion_done ::
  "frame \<Rightarrow> VMRecord \<Rightarrow> vmRow \<Rightarrow> placementRow list \<Rightarrow> Err + bool \<Rightarrow> world \<Rightarrow> bool" where
  "deletion_done d0 v r pls res w \<longleftrightarrow> (case res of
      Inl e \<Rightarrow> e \<noteq> EStore ErrNotFound \<and>
        (\<exists>r'. at d0 [r'] pls w \<and> vr_uid r' = vr_uid r \<and> (vr_phase r' = DELETING \<or> r' = r))
    | Inr poolExists \<Rightarrow> at d0 [] pls w \<and>
        (poolExists \<longleftrightarrow> find_key pool_key (vm_PoolName v, vm_PoolNamespace v) (pools d0) \<noteq> None) \<and>
        (\<exists>c. A_DeleteMicroVM (vm_FlintlockHost v) (vm_Uid v) c \<in> set (wtrace w) \<and> (c = None \<or> c = Some NotFound)))"

lemma wp_DeleteVMCheckingPool_at:
  assumes E: "undisturbed E" and at: "at d0 [r] pls w" and fr: "fresh_uid d0 (vr_uid r)"
  shows "wp (storeCall E c (\<lambda>_. DeleteVMCheckingPool (vr_uid r))) (\<lambda>res w'. wtrace w' = wtrace w \<and> (case res of
      Inl e \<Rightarrow> e = ErrDB \<and> at d0 [r] pls w'
    | Inr b \<Rightarrow> at d0 [] pls w' \<and> (b \<longleftrightarrow> find_key pool_key (vr_poolName r, vr_poolNamespace r) (pools d0) \<noteq> None))) w"
proof -
  have vms: "vms (wdb w) = vms d0 @ [r] @ f_after d0" and ps: "pools (wdb w) = pools d0" using at by (simp_all add: at_def)
  have none: "find_key vr_uid (vr_uid r) (vms d0) = None" by (rule fresh_find_key [OF fr])
  obtain b where b: "DeleteVMCheckingPool (vr_uid r) (wdb w) = Inr (b, (wdb w)\<lparr>vms := vms d0 @ f_after d0\<rparr>)"
    using DeleteVMCheckingPool_own [OF vms fr] by blast
  then have "b \<longleftrightarrow> find_key pool_key (vr_poolName r, vr_poolNamespace r) (pools d0) \<noteq> None"
    using none by (auto simp: DeleteVMCheckingPool_def vms find_key_append ps Let_def)
  then show ?thesis using E at b by (simp add: wp_storeCall_undisturbed Let_def at_def)
qed

text \<open>From the marked row on: ask flintlock, then remove the row.\<close>

lemma wp_delete_marked:
  assumes E: "undisturbed E" and at: "at d0 [r'] pls w" and r': "own v r'" "vr_phase r' = DELETING" "vr_uid r' = vr_uid r"
    and fr: "fresh_uid d0 (vm_Uid v)"
  shows "wp (State_Monad.bind (flint_conn (vm_FlintlockHost v)) (\<lambda>client. case client of Inl e \<Rightarrow> ret (Inl (EFlint e))
       | Inr x \<Rightarrow> State_Monad.bind (DeleteMicroVM E c (vm_FlintlockHost v) (vm_Uid v)) (\<lambda>a.
        if a \<noteq> None \<and> a \<noteq> Some NotFound then ret (Inl (ERpc (the a)))
        else State_Monad.bind (storeCall E c (\<lambda>_. DeleteVMCheckingPool (vm_Uid v)))
          (\<lambda>d. case d of Inl e \<Rightarrow> ret (Inl (EStore e)) | Inr poolExists \<Rightarrow> ret (Inr poolExists))))) (deletion_done d0 v r pls) w"
proof (rule wp_core_seq [OF core_flint(1) at], rule wp_sum)
  fix e u assume "at d0 [r'] pls u"
  then show "wp (ret (Inl (EFlint e))) (deletion_done d0 v r pls) u" using r' by (auto simp: wp_return deletion_done_def)
next
  fix u assume u: "at d0 [r'] pls u"
  define u' where "u' a = u\<lparr>wstep := Suc (wstep u), wtrace := wtrace u @ [A_DeleteMicroVM (vm_FlintlockHost v) (vm_Uid v) a]\<rparr>" for a
  let ?rest = "\<lambda>a. if a \<noteq> None \<and> a \<noteq> Some NotFound then ret (Inl (ERpc (the a)))
        else State_Monad.bind (storeCall E c (\<lambda>_. DeleteVMCheckingPool (vm_Uid v)))
          (\<lambda>d. case d of Inl e \<Rightarrow> ret (Inl (EStore e)) | Inr poolExists \<Rightarrow> ret (Inr poolExists))"
  have "wp (?rest a) (deletion_done d0 v r pls) (u' a)" for a
  proof (rule wp_if)
    have "at d0 [r'] pls (u' a)" using u by (simp add: u'_def at_def)
    then show "wp (ret (Inl (ERpc (the a)))) (deletion_done d0 v r pls) (u' a)" using r' by (auto simp: wp_return deletion_done_def)
    have uid: "vm_Uid v = vr_uid r'" using r'(1) by (simp add: own_def)
    assume a: "\<not> (a \<noteq> None \<and> a \<noteq> Some NotFound)"
    have at': "at d0 [r'] pls (u' a)" using u by (simp add: u'_def at_def)
    show "wp (State_Monad.bind (storeCall E c (\<lambda>_. DeleteVMCheckingPool (vm_Uid v)))
          (\<lambda>d. case d of Inl e \<Rightarrow> ret (Inl (EStore e)) | Inr poolExists \<Rightarrow> ret (Inr poolExists))) (deletion_done d0 v r pls) (u' a)"
      unfolding uid
    proof (rule wp_seq [OF wp_DeleteVMCheckingPool_at [OF E at']])
      show "fresh_uid d0 (vr_uid r')" using fr uid by simp
      fix d t assume d: "wtrace t = wtrace (u' a) \<and> (case d of Inl e \<Rightarrow> e = ErrDB \<and> at d0 [r'] pls t
        | Inr b \<Rightarrow> at d0 [] pls t \<and> (b \<longleftrightarrow> find_key pool_key (vr_poolName r', vr_poolNamespace r') (pools d0) \<noteq> None))"
      have "A_DeleteMicroVM (vm_FlintlockHost v) (vm_Uid v) a \<in> set (wtrace (u' a))" by (simp add: u'_def)
      then show "wp (case d of Inl e \<Rightarrow> ret (Inl (EStore e)) | Inr poolExists \<Rightarrow> ret (Inr poolExists)) (deletion_done d0 v r pls) t"
        using d a r' by (cases d) (auto simp: wp_return deletion_done_def own_def)
    qed
  qed
  then show "wp (State_Monad.bind (DeleteMicroVM E c (vm_FlintlockHost v) (vm_Uid v)) ?rest) (deletion_done d0 v r pls) u"
    by (simp add: DeleteMicroVM_def wp_bind wp_fresh wp_act wp_return u'_def Let_def)
qed

lemma wp_EnsureVMDeletedCheckingPool:
  assumes E: "undisturbed E" and at: "at d0 [r] pls w" and r: "own v r" "vm_Phase v = vr_phase r"
    and fr: "fresh_uid d0 (vm_Uid v)" and v: "vm_CreatedAt v \<noteq> None"
  shows "wp (EnsureVMDeletedCheckingPool E c v) (deletion_done d0 v r pls) w"
proof (cases "vr_phase r = DELETING")
  case True
  show ?thesis unfolding EnsureVMDeletedCheckingPool_def r(2) True not_True_eq_False not_False_eq_True simp_thms if_False
      State_Monad.bind_left_identity sum.case
    by (rule wp_delete_marked [OF E at r(1) True refl fr])
next
  case False
  have "wp (State_Monad.bind (Now E) (\<lambda>now. UpdateVM E c (v\<lparr>vm_Phase := DELETING, vm_UpdatedAt := Some now\<rparr>)))
    (\<lambda>res w'. res = Inr () \<and> (\<exists>r'. at d0 [r'] pls w' \<and> own v r' \<and> vr_phase r' = DELETING) \<or>
       res = Inl ErrDB \<and> at d0 [r] pls w') w"
  proof (rule wp_core_seq [OF core_Now at], rule wp_mono)
    fix now u assume u: "at d0 [r] pls u"
    let ?v = "v\<lparr>vm_Phase := DELETING, vm_UpdatedAt := Some now\<rparr>"
    show "wp (UpdateVM E c ?v) (\<lambda>res w'. res = Inr () \<and> (\<exists>r'. at d0 [r'] pls w' \<and> own ?v r' \<and> vr_phase r' = vm_Phase ?v) \<or>
       res = Inl ErrDB \<and> c = Ctx \<and> at d0 [r] pls w') u"
      by (rule wp_UpdateVM_at [OF E u]) (use fr r v in \<open>simp_all add: own_def writable_def\<close>)
  qed (auto simp: own_def)
  then have mark: "wp (State_Monad.bind (markDeleting E v) (UpdateVM E c))
    (\<lambda>res w'. res = Inr () \<and> (\<exists>r'. at d0 [r'] pls w' \<and> own v r' \<and> vr_phase r' = DELETING) \<or>
       res = Inl ErrDB \<and> at d0 [r] pls w') w" by (simp add: markDeleting_def wp_bind wp_return)
  show ?thesis unfolding EnsureVMDeletedCheckingPool_def r(2) if_P [OF False]
  proof (rule wp_seq [OF mark], elim disjE conjE exE, goal_cases)
    case (1 a w' r')
    then show ?case using wp_delete_marked [OF E 1(2,3,4) _ fr, of r c] r(1) by (simp add: own_def)
  next
    case (2 a w')
    then show ?case using r by (auto simp: wp_return deletion_done_def)
  qed
qed


lemma sample_deleted:
  "fst (run_state (EnsureVMDeletedCheckingPool sample_env Ctx (rowToVM (sample_vm ''v1'' AVAILABLE))) (sample_world sample_pool_db)) =
     Inr True"
  by code_simp


section \<open>Releasing a lease\<close>

text \<open>The lease's row is gone, or the caller went away before it could be deleted.\<close>

definition lease_ended :: "env \<Rightarrow> string \<Rightarrow> vmRow list \<Rightarrow> leaseRow list \<Rightarrow> world \<Rightarrow> bool" where
  "lease_ended E i vs ls w \<longleftrightarrow> vms (wdb w) = vs \<and>
     (leases (wdb w) = sql_delete (\<lambda>r. lr_leaseID r = i) ls \<or> leases (wdb w) = ls \<and> (\<exists>n. e_cancelled E n))"

lemma lease_ended_core:
  "keeps same_core m \<Longrightarrow> lease_ended E i vs ls w \<Longrightarrow> wp m (\<lambda>_ w'. lease_ended E i vs ls w') w"
proof -
  assume "keeps same_core m" and l: "lease_ended E i vs ls w"
  then have "wp m (\<lambda>_ t. same_core w t) w" unfolding keeps_def by blast
  then show ?thesis by (rule wp_mono) (use l in \<open>simp add: lease_ended_def same_core_def\<close>)
qed

lemma wp_DeleteLease:
  assumes E: "undisturbed E" and l: "find_key lr_leaseID i (leases (wdb w)) \<noteq> None"
  shows "wp (storeCall E Ctx (\<lambda>_. DeleteLease i)) (\<lambda>res w'. vms (wdb w') = vms (wdb w) \<and> (
      res = Inl ErrDB \<and> (\<exists>n. e_cancelled E n) \<and> leases (wdb w') = leases (wdb w) \<or>
      res = Inr () \<and> leases (wdb w') = sql_delete (\<lambda>r. lr_leaseID r = i) (leases (wdb w)))) w"
proof -
  have "sql_count (\<lambda>r. lr_leaseID r = i) (leases (wdb w)) \<noteq> 0" using l by (simp add: sql_count_key)
  then show ?thesis using E
    by (auto simp: wp_storeCall_undisturbed Let_def DeleteLease_def checkRowsAffected_def ctx_ok_def)
qed

lemma wp_FinishVMRelease:
  assumes E: "undisturbed E" and l: "find_key lr_leaseID (l_LeaseId lease) (leases (wdb w)) \<noteq> None"
  shows "wp (FinishVMRelease E Ctx pool vm lease True True)
    (\<lambda>_ w'. lease_ended E (l_LeaseId lease) (vms (wdb w)) (leases (wdb w)) w') w"
proof -
  let ?P = "\<lambda>w'. lease_ended E (l_LeaseId lease) (vms (wdb w)) (leases (wdb w)) w'"
  let ?m = "State_Monad.bind (act (A_Metric (M_VMRelease (ps_Name pool) (ps_Namespace pool) ''api''))) (\<lambda>_.
      State_Monad.bind (Now E) (\<lambda>_. act (A_Metric (M_LeaseDuration (ps_Name pool) (ps_Namespace pool)))))"
  have "keeps same_core ?m" by (intro core_intros)
  then have "wp ?m (\<lambda>_ t. same_core w t) w" unfolding keeps_def by blast
  then show ?thesis unfolding FinishVMRelease_def if_True
  proof (rule wp_seq)
    fix a u assume u: "same_core w u"
    then have l': "find_key lr_leaseID (l_LeaseId lease) (leases (wdb u)) \<noteq> None" using l by (simp add: same_core_def)
    show "wp (State_Monad.bind (storeCall E Ctx (\<lambda>_. DeleteLease (l_LeaseId lease))) (\<lambda>_.
        State_Monad.bind (EmitEvent E Ctx pool (vm_Uid vm) VM_DELETED_ON_RELEASE) (\<lambda>_.
          act (A_NotifyVMDeleted (ps_Name pool) (ps_Namespace pool))))) (\<lambda>_ w'. ?P w') u"
    proof (rule wp_seq [OF wp_DeleteLease [OF E l']])
      fix res and t :: world assume "vms (wdb t) = vms (wdb u) \<and> (res = Inl ErrDB \<and> (\<exists>n. e_cancelled E n) \<and> leases (wdb t) = leases (wdb u) \<or>
        res = Inr () \<and> leases (wdb t) = sql_delete (\<lambda>r. lr_leaseID r = l_LeaseId lease) (leases (wdb u)))"
      then have "?P t" using u by (auto simp: lease_ended_def same_core_def)
      then show "wp (State_Monad.bind (EmitEvent E Ctx pool (vm_Uid vm) VM_DELETED_ON_RELEASE) (\<lambda>_.
          act (A_NotifyVMDeleted (ps_Name pool) (ps_Namespace pool)))) (\<lambda>_ w'. ?P w') t"
        by (rule lease_ended_core [rotated]) (intro core_intros E)
    qed
  qed
qed

text \<open>What \<open>ReleaseVM\<close> of the lease \<open>l\<close> leaves.\<close>

definition release_done :: "env \<Rightarrow> leaseRow \<Rightarrow> vmRow list \<Rightarrow> leaseRow list \<Rightarrow> Code + unit \<Rightarrow> world \<Rightarrow> bool" where
  "release_done E l vs ls res w \<longleftrightarrow> (case res of
      Inr _ \<Rightarrow> lease_ended E (lr_leaseID l) (filter (\<lambda>r. vr_uid r \<noteq> lr_vmUID l) vs) ls w
    | Inl code \<Rightarrow> leases (wdb w) = ls \<and>
        (code = Unavailable \<and> (\<exists>pre row post row'. vs = pre @ row # post \<and> vms (wdb w) = pre @ row' # post \<and>
            vr_uid row = lr_vmUID l \<and> vr_uid row' = lr_vmUID l \<and> (vr_phase row' = DELETING \<or> row' = row)) \<or>
         code = Internal \<and> (\<exists>n. e_cancelled E n) \<and>
           (vms (wdb w) = vs \<or> vms (wdb w) = filter (\<lambda>r. vr_uid r \<noteq> lr_vmUID l) vs)))"

lemma wp_release_orphan_lease:
  assumes E: "undisturbed E" and l: "find_key lr_leaseID (lr_leaseID l) (leases (wdb w)) \<noteq> None"
    and gone: "vms (wdb w) = filter (\<lambda>r. vr_uid r \<noteq> lr_vmUID l) vs"
  shows "wp (release_orphan_lease E lease (lr_leaseID l)) (release_done E l vs (leases (wdb w))) w"
  unfolding release_orphan_lease_def
proof (rule wp_seq [OF wp_DeleteLease [OF E l]], elim conjE disjE, goal_cases)
  case (1 res t)
  then show ?case using gone by (simp add: wp_return release_done_def)
next
  case (2 res t)
  then show ?case using gone by (simp add: wp_return wp_bind wp_act release_done_def lease_ended_def)
qed

lemma release_done_step: "release_done E l vs ls res (w\<lparr>wstep := n\<rparr>) = release_done E l vs ls res w"
  by (simp add: release_done_def lease_ended_def split: sum.split)

lemma wp_release_stored:
  assumes E: "undisturbed E" and wf: "wf_db (wdb w)" and l: "l \<in> set (leases (wdb w))"
    and row: "vms (wdb w) = pre @ row # post" "vr_uid row = lr_vmUID l"
  shows "wp (State_Monad.bind (EnsureVMDeletedCheckingPool E Ctx (rowToVM row)) (\<lambda>r. case r of
       Inl e \<Rightarrow>
         if e = EStore ErrNotFound then State_Monad.bind
           (storeCall E Ctx (\<lambda>_. GetPool (e_codec E) (l_PoolName (rowToLease l)) (l_PoolNamespace (rowToLease l)))) (\<lambda>p. case p of
              Inr _ \<Rightarrow> ret (Inr ())
            | Inl perr \<Rightarrow> if perr \<noteq> ErrNotFound then ret (Inl Internal) else release_orphan_lease E (rowToLease l) (lr_leaseID l))
         else ret (Inl Unavailable)
     | Inr poolExists \<Rightarrow>
         if poolExists then State_Monad.bind
           (FinishVMRelease E Ctx ((vmPool (rowToVM row))\<lparr>ps_Name := l_PoolName (rowToLease l), ps_Namespace := l_PoolNamespace (rowToLease l)\<rparr>)
             (rowToVM row) (rowToLease l) True True) (\<lambda>_. ret (Inr ()))
         else release_orphan_lease E (rowToLease l) (lr_leaseID l)))
     (release_done E l (vms (wdb w)) (leases (wdb w))) w"
proof -
  let ?d0 = "claim_frame w pre post" and ?v = "rowToVM row"
  have at: "at ?d0 [row] [] w" by (simp add: at_def row(1))
  have "distinct (map vr_uid (vms (wdb w)))" using wf by (simp add: wf_db_def)
  then have others: "\<forall>r \<in> set pre \<union> set post. vr_uid r \<noteq> vr_uid row" unfolding row(1) by (auto dest: sym)
  then have fr: "fresh_uid ?d0 (vm_Uid ?v)" by (simp add: fresh_uid_def)
  have gone: "filter (\<lambda>r. vr_uid r \<noteq> lr_vmUID l) (vms (wdb w)) = pre @ post"
    using others row by simp
  have some: "find_key lr_leaseID (lr_leaseID l) (leases (wdb w)) \<noteq> None" using l by (auto simp: find_key_None)
  have "wp (EnsureVMDeletedCheckingPool E Ctx ?v) (deletion_done ?d0 ?v row []) w"
    by (rule wp_EnsureVMDeletedCheckingPool [OF E at _ _ fr]) (simp_all add: own_def)
  then show ?thesis
  proof (rule wp_seq, intro wp_sum, goal_cases)
    case (1 r u e)
    then have "e \<noteq> EStore ErrNotFound" by (auto simp: deletion_done_def)
    moreover obtain row' where "vms (wdb u) = pre @ row' # post" "leases (wdb u) = leases (wdb w)" "vr_uid row' = vr_uid row"
        "vr_phase row' = DELETING \<or> row' = row"
      using 1 by (auto simp: deletion_done_def at_def)
    ultimately show ?case using row by (auto simp: wp_return release_done_def)
  next
    case (2 r u ex)
    then have u: "vms (wdb u) = filter (\<lambda>r. vr_uid r \<noteq> lr_vmUID l) (vms (wdb w))" "leases (wdb u) = leases (wdb w)"
      using gone by (auto simp: deletion_done_def at_def)
    have some': "find_key lr_leaseID (l_LeaseId (rowToLease l)) (leases (wdb u)) \<noteq> None" using some u by simp
    have "wp (release_orphan_lease E (rowToLease l) (lr_leaseID l)) (release_done E l (vms (wdb w)) (leases (wdb u))) u"
      by (rule wp_release_orphan_lease [OF E]) (use some u in simp_all)
    moreover have "wp (State_Monad.bind (FinishVMRelease E Ctx pool vm (rowToLease l) True True) (\<lambda>_. ret (Inr ())))
        (release_done E l (vms (wdb w)) (leases (wdb u))) u" for pool vm
      by (rule wp_seq [OF wp_FinishVMRelease [OF E some']]) (use u in \<open>simp add: wp_return release_done_def\<close>)
    ultimately show ?case using u by simp
  qed
qed

lemma wp_ReleaseVM:
  assumes E: "undisturbed E" and wf: "wf_db (wdb w)" and l: "l \<in> set (leases (wdb w))"
  shows "wp (ReleaseVM E (lr_leaseID l)) (release_done E l (vms (wdb w)) (leases (wdb w))) w"
proof -
  have find: "find_key lr_leaseID (lr_leaseID l) (leases (wdb w)) = Some l"
    using wf l by (simp add: wf_db_def find_key_Some)
  have cancelled: "release_done E l (vms (wdb w)) (leases (wdb w)) (Inl Internal) (w\<lparr>wstep := n\<rparr>)"
    if "\<not> ctx_ok E Ctx k" for k n
    using that by (auto simp: release_done_def ctx_ok_def)
  let ?w1 = "w\<lparr>wstep := Suc (wstep w)\<rparr>"
  let ?w2 = "?w1\<lparr>wstep := Suc (wstep ?w1)\<rparr>"
  show ?thesis
  proof (cases "ctx_ok E Ctx (wstep w) \<and> ctx_ok E Ctx (Suc (wstep w))")
    case False
    then show ?thesis using cancelled [of "wstep w" "Suc (wstep w)"] cancelled [of "Suc (wstep w)" "Suc (Suc (wstep w))"] E
      by (auto simp: ReleaseVM_def wp_bind wp_return wp_storeCall_undisturbed Let_def GetLease_def find)
  next
    case True
    show ?thesis
    proof (cases "find_key vr_uid (lr_vmUID l) (vms (wdb w))")
      case None
      then have gone: "filter (\<lambda>r. vr_uid r \<noteq> lr_vmUID l) (vms (wdb w)) = vms (wdb w)"
        unfolding find_key_None by (intro filter_True ballI) (metis image_eqI)
      have "wp (release_orphan_lease E (rowToLease l) (lr_leaseID l)) (release_done E l (vms (wdb w)) (leases (wdb ?w2))) ?w2"
        by (rule wp_release_orphan_lease [OF E]) (use find gone in simp_all)
      then show ?thesis using True E None
        by (simp add: ReleaseVM_def wp_bind wp_return wp_storeCall_undisturbed Let_def GetLease_def find GetVM_def)
    next
      case (Some row)
      then have row: "row \<in> set (vms (wdb w))" "vr_uid row = lr_vmUID l" by (auto dest: find_key_SomeD)
      then obtain pre post where split: "vms (wdb ?w2) = pre @ row # post" using split_list by fastforce
      show ?thesis using wp_release_stored [OF E _ _ split row(2)] True E Some wf l
        by (simp add: ReleaseVM_def wp_bind wp_return wp_storeCall_undisturbed Let_def GetLease_def find GetVM_def)
    qed
  qed
qed


lemma sample_released:
  "fst (run_state (ReleaseVM sample_env (lr_leaseID sample_lease)) (sample_world sample_pool_db)) = Inr ()"
  by code_simp


end
