(* ===== verification/Pool_Admin.thy ===== *)
theory Pool_Admin
  imports Reconciler
begin

text \<open>
  Model of \<^verbatim>\<open>src/internal/api/pooladmin.go\<close>: the PoolAdmin service. A request carries the spec
  or the reference its handler reads; a nil spec reads as the empty one. The per-pool lock and
  \<open>hostRefsMu\<close> restrict which other handlers run meanwhile (\<open>e_others\<close>) and have no other
  effect here.
\<close>

section \<open>Definitions\<close>

text \<open>\<open>validateTemplateNetwork\<close>: an address or MAC fixed in the template is only allowed when
  the pool can never have two VMs at a time.\<close>

definition validateTemplateNetwork :: "PoolSpec \<Rightarrow> Code option" where
  "validateTemplateNetwork spec =
     (if ps_Size spec \<le> 1 \<and> rs_GetType (ps_ReplenishmentStrategy spec) \<noteq> IMMEDIATE_ON_LEASE \<and>
         ps_HookFailurePolicy spec \<noteq> QUARANTINE
      then None
      else if list_ex (\<lambda>i. ni_GuestMac i \<noteq> [] \<or> ni_Address i \<noteq> None) (mv_GetInterfaces (ps_MicrovmTemplate spec))
      then Some InvalidArgument else None)"

text \<open>\<open>validatePoolSpec\<close>: the error, or the spec with the guest agent allowed.\<close>

definition validatePoolSpec :: "PoolSpec \<Rightarrow> Code + PoolSpec" where
  "validatePoolSpec spec =
     (if ps_Name spec = [] then Inl InvalidArgument
      else if ps_Namespace spec = [] then Inl InvalidArgument
      else
        (case NewStrategy (ps_ReplenishmentStrategy spec) of
           Inl _ \<Rightarrow> Inl InvalidArgument
         | Inr _ \<Rightarrow>
           if ps_HookFailurePolicy spec \<noteq> DELETE_AND_REPLACE \<and> ps_HookFailurePolicy spec \<noteq> QUARANTINE
           then Inl InvalidArgument
           else
             (case ps_MicrovmTemplate spec of
                None \<Rightarrow> Inl InvalidArgument
              | Some t \<Rightarrow>
                (case validateTemplateNetwork spec of
                   Some e \<Rightarrow> Inl e
                 | None \<Rightarrow> Inr (spec\<lparr>ps_MicrovmTemplate := Some (t\<lparr>mv_AllowGuestAgent := True\<rparr>)\<rparr>)))))"

text \<open>The names no registered host has, each once, in the order of the spec.\<close>

fun unknown_hosts :: "string set \<Rightarrow> string list \<Rightarrow> string list \<Rightarrow> string list" where
  "unknown_hosts known [] unknown = unknown"
| "unknown_hosts known (n # ns) unknown =
     (if n \<notin> known \<and> n \<notin> set unknown then unknown_hosts known ns (unknown @ [n])
      else unknown_hosts known ns unknown)"

definition checkFlintlockHosts :: "env \<Rightarrow> PoolSpec \<Rightarrow> Code option M" where
  "checkFlintlockHosts E spec = do {
     r \<leftarrow> storeCall E Ctx (\<lambda>_. ListHosts);
     ret (case r of Inl _ \<Rightarrow> Some Internal
          | Inr hs \<Rightarrow> if unknown_hosts (set (map h_Name hs)) (ps_FlintlockHosts spec) [] \<noteq> []
                      then Some InvalidArgument else None) }"

definition countsToStatus :: "VMCounts \<Rightarrow> PoolStatus" where
  "countsToStatus c = \<lparr>pst_AvailableCount = to_int32 (Available c), pst_LeasedCount = to_int32 (Claiming c + Leased c),
     pst_ProvisioningCount = to_int32 (Provisioning c), pst_QuarantinedCount = to_int32 (Quarantined c)\<rparr>"

definition zero_status :: PoolStatus where
  "zero_status = \<lparr>pst_AvailableCount = 0, pst_LeasedCount = 0, pst_ProvisioningCount = 0, pst_QuarantinedCount = 0\<rparr>"

definition API_CreatePool :: "env \<Rightarrow> PoolSpec \<Rightarrow> (Code + Pool) M" where
  "API_CreatePool E req =
     (case validatePoolSpec req of Inl e \<Rightarrow> ret (Inl e)
      | Inr spec \<Rightarrow> do {
          hostErr \<leftarrow> checkFlintlockHosts E spec;
          case hostErr of Some e \<Rightarrow> ret (Inl e)
          | None \<Rightarrow> do {
          p \<leftarrow> storeCall E Ctx (\<lambda>_. GetPool (e_codec E) (ps_Name spec) (ps_Namespace spec));
          case p of Inr _ \<Rightarrow> ret (Inl AlreadyExists)
          | Inl e \<Rightarrow>
            if e \<noteq> ErrNotFound then ret (Inl Internal)
            else do {
              w \<leftarrow> storeCall E Ctx (\<lambda>_. CreatePool (e_codec E) spec);
              case w of Inl _ \<Rightarrow> ret (Inl Internal)
              | Inr _ \<Rightarrow> do {
                  _ \<leftarrow> StartReconciler_M spec;
                  ret (Inr \<lparr>pool_Spec = spec, pool_Status = zero_status\<rparr>) } } } })"

definition API_getPool :: "env \<Rightarrow> string \<Rightarrow> string \<Rightarrow> (Code + Pool) M" where
  "API_getPool E name ns = do {
     p \<leftarrow> storeCall E Ctx (\<lambda>_. GetPool (e_codec E) name ns);
     case p of Inl e \<Rightarrow> ret (Inl (if e = ErrNotFound then NotFound else Internal))
     | Inr spec \<Rightarrow> do {
         c \<leftarrow> CountVMs E Ctx name ns;
         ret (case c of Inl _ \<Rightarrow> Inl Internal
              | Inr counts \<Rightarrow> Inr \<lparr>pool_Spec = spec, pool_Status = countsToStatus counts\<rparr>) } }"

fun list_pools :: "env \<Rightarrow> PoolSpec list \<Rightarrow> (Code + Pool list) M" where
  "list_pools E [] = ret (Inr [])"
| "list_pools E (spec # specs) = do {
     c \<leftarrow> CountVMs E Ctx (ps_Name spec) (ps_Namespace spec);
     (case c of Inl _ \<Rightarrow> ret (Inl Internal)
      | Inr counts \<Rightarrow> do {
          r \<leftarrow> list_pools E specs;
          ret (case r of Inl e \<Rightarrow> Inl e
               | Inr ps \<Rightarrow> Inr (\<lparr>pool_Spec = spec, pool_Status = countsToStatus counts\<rparr> # ps)) }) }"

definition API_ListPools :: "env \<Rightarrow> string option \<Rightarrow> (Code + Pool list) M" where
  "API_ListPools E namespace = do {
     r \<leftarrow> storeCall E Ctx (\<lambda>_. ListPools (e_codec E));
     case r of Inl _ \<Rightarrow> ret (Inl Internal)
     | Inr specs \<Rightarrow>
       list_pools E (filter (\<lambda>s. case namespace of None \<Rightarrow> True | Some n \<Rightarrow> ps_Namespace s = n) specs) }"

definition API_UpdatePool :: "env \<Rightarrow> PoolSpec \<Rightarrow> (Code + Pool) M" where
  "API_UpdatePool E req =
     (case validatePoolSpec req of Inl e \<Rightarrow> ret (Inl e)
      | Inr spec \<Rightarrow> do {
          hostErr \<leftarrow> checkFlintlockHosts E spec;
          case hostErr of Some e \<Rightarrow> ret (Inl e)
          | None \<Rightarrow> do {
          p \<leftarrow> storeCall E Ctx (\<lambda>_. GetPool (e_codec E) (ps_Name spec) (ps_Namespace spec));
          case p of Inl e \<Rightarrow> ret (Inl (if e = ErrNotFound then NotFound else Internal))
          | Inr _ \<Rightarrow> do {
          w \<leftarrow> storeCall E Ctx (\<lambda>_. UpdatePool (e_codec E) spec);
          case w of Inl _ \<Rightarrow> ret (Inl Internal)
          | Inr _ \<Rightarrow> do {
              StopReconciler_M (ps_Name spec) (ps_Namespace spec);
              _ \<leftarrow> StartReconciler_M spec;
              c \<leftarrow> CountVMs E Ctx (ps_Name spec) (ps_Namespace spec);
              ret (case c of Inl _ \<Rightarrow> Inl Internal
                   | Inr counts \<Rightarrow> Inr \<lparr>pool_Spec = spec, pool_Status = countsToStatus counts\<rparr>) } } } })"

definition countLeased :: "VMRecord list \<Rightarrow> int" where
  "countLeased vs = sql_count (\<lambda>v. vm_Phase v = LEASED \<or> vm_Phase v = PRE_LEASE_HOOK_RUNNING) vs"

definition deletePoolVMs :: "env \<Rightarrow> bool \<Rightarrow> PoolSpec \<Rightarrow> VMRecord list \<Rightarrow> unit M" where
  "deletePoolVMs E flint spec vs = do {
     for_each (\<lambda>vm. EmitEvent E Detached spec (vm_Uid vm) VM_DELETED_ON_POOL_DELETE) vs;
     (if \<not> flint then ret ()
      else for_each (\<lambda>vm. do { _ \<leftarrow> EnsureVMDeleted E Detached vm; ret () }) vs) }"

text \<open>The last part of \<open>DeletePool\<close>, from the stop of the reconciler on. An error after the
  caller has gone away is the context's error, \<open>Canceled\<close>.\<close>

definition delete_stopped_pool :: "env \<Rightarrow> bool \<Rightarrow> string \<Rightarrow> string \<Rightarrow> bool \<Rightarrow> PoolSpec \<Rightarrow> (Code + unit) M" where
  "delete_stopped_pool E flint name ns force spec = do {
     stopped \<leftarrow> StopReconcilerAndWait E name ns;
     (if \<not> stopped then do { _ \<leftarrow> StartReconciler_M spec; ret (Inl Canceled) }
      else do {
        r \<leftarrow> storeCall E Ctx (\<lambda>n. DeletePoolAndMarkVMs (e_clock E n) name ns force);
        case r of
          Inl e \<Rightarrow>
            if e = ErrPoolHasLeasedVMs then do { _ \<leftarrow> StartReconciler_M spec; ret (Inl FailedPrecondition) }
            else if e = ErrNotFound then ret (Inl NotFound)
            else do {
              n \<leftarrow> fresh;
              _ \<leftarrow> StartReconciler_M spec;
              ret (Inl (if ctx_ok E Ctx n then Internal else Canceled)) }
        | Inr vs \<Rightarrow> do { deletePoolVMs E flint spec vs; ret (Inr ()) } }) }"

definition API_DeletePool :: "env \<Rightarrow> bool \<Rightarrow> string \<Rightarrow> string \<Rightarrow> bool \<Rightarrow> (Code + unit) M" where
  "API_DeletePool E flint name ns force = do {
     p \<leftarrow> storeCall E Ctx (\<lambda>_. GetPool (e_codec E) name ns);
     case p of Inl e \<Rightarrow> ret (Inl (if e = ErrNotFound then NotFound else Internal))
     | Inr spec \<Rightarrow>
       if \<not> force then do {
         v \<leftarrow> storeCall E Ctx (\<lambda>_. ListVMsByPool name ns None);
         case v of Inl _ \<Rightarrow> ret (Inl Internal)
         | Inr vs \<Rightarrow> if countLeased vs > 0 then ret (Inl FailedPrecondition)
                     else delete_stopped_pool E flint name ns force spec }
       else delete_stopped_pool E flint name ns force spec }"

section \<open>Every step is a store transaction\<close>

lemma keeps_checkFlintlockHosts [keeps_intros]: "honest E \<Longrightarrow> keeps (runs_store (e_codec E)) (checkFlintlockHosts E spec)"
  unfolding checkFlintlockHosts_def by (intro keeps_intros tx_intros; assumption)

lemma keeps_API_CreatePool [keeps_intros]: "honest E \<Longrightarrow> keeps (runs_store (e_codec E)) (API_CreatePool E req)"
  unfolding API_CreatePool_def by (intro keeps_intros tx_intros; assumption)

lemma keeps_API_getPool [keeps_intros]: "honest E \<Longrightarrow> keeps (runs_store (e_codec E)) (API_getPool E n ns)"
  unfolding API_getPool_def by (intro keeps_intros tx_intros; assumption)

lemma keeps_list_pools [keeps_intros]: "honest E \<Longrightarrow> keeps (runs_store (e_codec E)) (list_pools E specs)"
proof (induction specs)
  case (Cons s specs)
  then show ?case unfolding list_pools.simps by (intro keeps_intros; simp)
qed (simp add: keeps_intros)

lemma keeps_API_ListPools [keeps_intros]: "honest E \<Longrightarrow> keeps (runs_store (e_codec E)) (API_ListPools E n)"
  unfolding API_ListPools_def by (intro keeps_intros tx_intros; assumption)

lemma keeps_API_UpdatePool [keeps_intros]: "honest E \<Longrightarrow> keeps (runs_store (e_codec E)) (API_UpdatePool E req)"
  unfolding API_UpdatePool_def by (intro keeps_intros tx_intros; assumption)

lemma keeps_deletePoolVMs [keeps_intros]: "honest E \<Longrightarrow> keeps (runs_store (e_codec E)) (deletePoolVMs E fl spec vs)"
  unfolding deletePoolVMs_def by (intro keeps_intros tx_intros; assumption)

lemma keeps_delete_stopped_pool [keeps_intros]: "honest E \<Longrightarrow> keeps (runs_store (e_codec E)) (delete_stopped_pool E fl n ns b spec)"
  unfolding delete_stopped_pool_def by (intro keeps_intros tx_intros; assumption)

lemma keeps_API_DeletePool [keeps_intros]: "honest E \<Longrightarrow> keeps (runs_store (e_codec E)) (API_DeletePool E fl n ns b)"
  unfolding API_DeletePool_def by (intro keeps_intros tx_intros; assumption)

end
