(* ===== verification/Host_Admin.thy ===== *)
theory Host_Admin
  imports Provision_Inv
begin

text \<open>
  Model of \<^verbatim>\<open>src/internal/api/hostadmin.go\<close>: the HostAdmin service. The per-host lock and
  \<open>hostRefsMu\<close> restrict which other handlers run meanwhile (\<open>e_others\<close>) and have no other
  effect here.
\<close>

section \<open>Definitions\<close>

definition CordonHost :: "env \<Rightarrow> string \<Rightarrow> string \<Rightarrow> (Code + Host) M" where
  "CordonHost E name reason =
     (if name = [] then ret (Inl InvalidArgument)
      else do {
        r \<leftarrow> SetHostCordoned E Ctx name True reason;
        ret (case r of Inl e \<Rightarrow> Inl (if e = ErrNotFound then FailedPrecondition else Internal) | Inr h \<Rightarrow> Inr h) })"

definition UncordonHost :: "env \<Rightarrow> string \<Rightarrow> (Code + Host) M" where
  "UncordonHost E name =
     (if name = [] then ret (Inl InvalidArgument)
      else do {
        r \<leftarrow> SetHostCordoned E Ctx name False [];
        ret (case r of Inl e \<Rightarrow> Inl (if e = ErrNotFound then FailedPrecondition else Internal) | Inr h \<Rightarrow> Inr h) })"

definition API_DrainHost :: "env \<Rightarrow> bool \<Rightarrow> bool \<Rightarrow> string \<Rightarrow> string \<Rightarrow> (Code + Host) M" where
  "API_DrainHost E flint notifier name reason =
     (if name = [] then ret (Inl InvalidArgument)
      else do {
        n \<leftarrow> fresh;
        r \<leftarrow> storeCall E Ctx (\<lambda>n'. DrainHost (e_clock E n) (e_clock E n') name reason);
        case r of
          Inl e \<Rightarrow>
            if e = ErrNotFound then ret (Inl NotFound)
            else do { k \<leftarrow> fresh; ret (Inl (if ctx_ok E Ctx k then Internal else Canceled)) }
        | Inr (host, vs) \<Rightarrow> do { DeleteDrainedVMs E flint vs notifier; ret (Inr host) } })"

definition hostStatus :: "env \<Rightarrow> Host \<Rightarrow> (Code + HostStatus) M" where
  "hostStatus E host = do {
     c \<leftarrow> storeCall E Ctx (\<lambda>_. CountVMsByHost (h_Name host));
     case c of Inl _ \<Rightarrow> ret (Inl Internal)
     | Inr count \<Rightarrow> do {
         p \<leftarrow> getConns;
         ret (Inr \<lparr>hs_Host = host, hs_VmCount = count,
                   hs_FlintlockVersion = fst (Pool_FlintlockVersion (h_Name host) p)\<rparr>) } }"

fun host_statuses :: "env \<Rightarrow> Host list \<Rightarrow> (Code + HostStatus list) M" where
  "host_statuses E [] = ret (Inr [])"
| "host_statuses E (h # hs) = do {
     s \<leftarrow> hostStatus E h;
     (case s of Inl e \<Rightarrow> ret (Inl e)
      | Inr st \<Rightarrow> do { r \<leftarrow> host_statuses E hs; ret (case r of Inl e \<Rightarrow> Inl e | Inr sts \<Rightarrow> Inr (st # sts)) }) }"

definition API_ListHosts :: "env \<Rightarrow> (Code + HostStatus list) M" where
  "API_ListHosts E = do {
     r \<leftarrow> storeCall E Ctx (\<lambda>_. ListHosts);
     case r of Inl _ \<Rightarrow> ret (Inl Internal) | Inr hs \<Rightarrow> host_statuses E hs }"

definition API_GetHost :: "env \<Rightarrow> string \<Rightarrow> (Code + HostStatus) M" where
  "API_GetHost E name =
     (if name = [] then ret (Inl InvalidArgument)
      else do {
        r \<leftarrow> storeCall E Ctx (\<lambda>_. GetHost name);
        case r of Inl e \<Rightarrow> ret (Inl (if e = ErrNotFound then NotFound else Internal))
        | Inr host \<Rightarrow> hostStatus E host })"

definition dialHost :: "env \<Rightarrow> Host \<Rightarrow> bool \<Rightarrow> (Code + Conn) M" where
  "dialHost E host skipValidation =
     (case Dial (e_dialer E) (Some host) of
        Inl e \<Rightarrow> ret (Inl (case e of ErrInvalidHost _ \<Rightarrow> InvalidArgument | _ \<Rightarrow> FailedPrecondition))
      | Inr conn \<Rightarrow>
        if skipValidation then ret (Inr conn)
        else do {
          n \<leftarrow> fresh;
          let (res, conn') = Conn_CheckVersion (e_semver E) (if ctx_ok E Ctx n then e_ServerInfo E n else Inl Canceled) conn;
          ret (case res of Some _ \<Rightarrow> Inl FailedPrecondition | None \<Rightarrow> Inr conn') })"

definition install :: "env \<Rightarrow> Conn \<Rightarrow> FlintErr option M" where
  "install E conn = do {
     n \<leftarrow> fresh;
     p \<leftarrow> getConns;
     let (err, p1) = Pool_Update (e_closeErr E n) conn p;
     (if err = Some ErrUnknownHost
      then (let (err2, p2) = Pool_Add conn p1 in do { putConns p2; ret err2 })
      else do { putConns p1; ret None }) }"

definition API_AddHost :: "env \<Rightarrow> string \<Rightarrow> string \<Rightarrow> HostTLS option \<Rightarrow> bool \<Rightarrow> (Code + Host) M" where
  "API_AddHost E name address tls skipValidation = do {
     now \<leftarrow> Now E;
     let host = \<lparr>h_Name = name, h_Address = address, h_Cordoned = False, h_CordonedReason = [], h_CordonedAt = None,
                 h_UpdatedAt = Some now, h_Tls = tls, h_Draining = False, h_DrainingAt = None\<rparr>;
     (if name = [] then ret (Inl InvalidArgument)
      else do {
        g \<leftarrow> storeCall E Ctx (\<lambda>_. GetHost name);
        (if is_ok g then ret (Inl AlreadyExists)
         else if g \<noteq> Inl ErrNotFound then ret (Inl Internal)
         else do {
           d \<leftarrow> dialHost E host skipValidation;
           case d of Inl e \<Rightarrow> ret (Inl e)
           | Inr conn \<Rightarrow> do {
           w \<leftarrow> storeCall E Ctx (\<lambda>_. CreateHost host);
           case w of Inl e \<Rightarrow> ret (Inl (if e = ErrHostExists then AlreadyExists else Internal))
           | Inr _ \<Rightarrow> do {
           i \<leftarrow> install E conn;
           ret (case i of Some _ \<Rightarrow> Inl Internal | None \<Rightarrow> Inr host) } } }) }) }"

definition API_UpdateHost :: "env \<Rightarrow> string \<Rightarrow> string \<Rightarrow> HostTLS option \<Rightarrow> bool \<Rightarrow> (Code + Host) M" where
  "API_UpdateHost E name address tls skipValidation =
     (let host = \<lparr>h_Name = name, h_Address = address, h_Cordoned = False, h_CordonedReason = [], h_CordonedAt = None,
                 h_UpdatedAt = None, h_Tls = tls, h_Draining = False, h_DrainingAt = None\<rparr> in
      if name = [] then ret (Inl InvalidArgument)
      else do {
        g \<leftarrow> storeCall E Ctx (\<lambda>_. GetHost name);
        case g of Inl e \<Rightarrow> ret (Inl (if e = ErrNotFound then NotFound else Internal))
        | Inr _ \<Rightarrow> do {
        d \<leftarrow> dialHost E host skipValidation;
        case d of Inl e \<Rightarrow> ret (Inl e)
        | Inr conn \<Rightarrow> do {
        u \<leftarrow> UpdateHost_M E Ctx host;
        case u of Inl e \<Rightarrow> ret (Inl (if e = ErrNotFound then NotFound else Internal))
        | Inr updated \<Rightarrow> do {
        i \<leftarrow> install E conn;
        ret (case i of Some _ \<Rightarrow> Inl Internal | None \<Rightarrow> Inr updated) } } } })"

definition API_RemoveHost :: "env \<Rightarrow> string \<Rightarrow> (Code + unit) M" where
  "API_RemoveHost E name =
     (if name = [] then ret (Inl InvalidArgument)
      else do {
        r \<leftarrow> storeCall E Ctx (\<lambda>_. DeleteHost name);
        case r of
          Inl e \<Rightarrow> ret (Inl (case e of ErrNotFound \<Rightarrow> NotFound | HostInUseError _ _ \<Rightarrow> FailedPrecondition | _ \<Rightarrow> Internal))
        | Inr _ \<Rightarrow> do {
            n \<leftarrow> fresh;
            p \<leftarrow> getConns;
            putConns (snd (Pool_Remove (e_closeErr E n) name p));
            ret (Inr ()) } })"

section \<open>Every step is a store transaction\<close>

lemma keeps_CordonHost [keeps_intros]: "honest E \<Longrightarrow> keeps (runs_store (e_codec E)) (CordonHost E n r)"
  unfolding CordonHost_def by (intro keeps_intros tx_intros; assumption?)

lemma keeps_UncordonHost [keeps_intros]: "honest E \<Longrightarrow> keeps (runs_store (e_codec E)) (UncordonHost E n)"
  unfolding UncordonHost_def by (intro keeps_intros tx_intros; assumption?)

lemma keeps_API_DrainHost [keeps_intros]: "honest E \<Longrightarrow> keeps (runs_store (e_codec E)) (API_DrainHost E fl nt n r)"
  unfolding API_DrainHost_def by (intro keeps_intros tx_intros; assumption?)

lemma keeps_hostStatus [keeps_intros]: "honest E \<Longrightarrow> keeps (runs_store (e_codec E)) (hostStatus E h)"
  unfolding hostStatus_def by (intro keeps_intros tx_intros; assumption?)

lemma keeps_host_statuses [keeps_intros]: "honest E \<Longrightarrow> keeps (runs_store (e_codec E)) (host_statuses E hs)"
proof (induction hs)
  case (Cons h hs)
  then show ?case unfolding host_statuses.simps by (intro keeps_intros; simp)
qed (simp add: keeps_intros)

lemma keeps_API_ListHosts [keeps_intros]: "honest E \<Longrightarrow> keeps (runs_store (e_codec E)) (API_ListHosts E)"
  unfolding API_ListHosts_def by (intro keeps_intros tx_intros; assumption?)

lemma keeps_API_GetHost [keeps_intros]: "honest E \<Longrightarrow> keeps (runs_store (e_codec E)) (API_GetHost E n)"
  unfolding API_GetHost_def by (intro keeps_intros tx_intros; assumption?)

lemma keeps_dialHost [keeps_intros]: "keeps (runs_store C) (dialHost E h b)"
  unfolding dialHost_def by (intro keeps_intros tx_intros; assumption?)

lemma keeps_install [keeps_intros]: "keeps (runs_store C) (install E conn)"
  unfolding install_def by (intro keeps_intros tx_intros; assumption?)

lemma keeps_API_AddHost [keeps_intros]: "honest E \<Longrightarrow> keeps (runs_store (e_codec E)) (API_AddHost E n a t b)"
  unfolding API_AddHost_def by (intro keeps_intros tx_intros; assumption?)

lemma keeps_API_UpdateHost [keeps_intros]: "honest E \<Longrightarrow> keeps (runs_store (e_codec E)) (API_UpdateHost E n a t b)"
  unfolding API_UpdateHost_def by (intro keeps_intros tx_intros; assumption?)

lemma keeps_API_RemoveHost [keeps_intros]: "honest E \<Longrightarrow> keeps (runs_store (e_codec E)) (API_RemoveHost E n)"
  unfolding API_RemoveHost_def by (intro keeps_intros tx_intros; assumption?)

end
