(* ===== verification/Events_API.thy ===== *)
theory Events_API
  imports World
begin

text \<open>
  Model of \<^verbatim>\<open>src/internal/api/events.go\<close>: the subscription to the events outbox. The stream is
  what \<open>Subscribe\<close> has sent; the loop runs until the client goes away, a send or the store
  fails, or, here, for a number of rounds: the properties hold for every number.
\<close>

section \<open>Definitions\<close>

definition DefaultEventsBatchSize :: int where "DefaultEventsBatchSize = 100"

definition NewEventsServer_batch :: "int \<Rightarrow> int" where
  "NewEventsServer_batch batchSize = (if batchSize \<le> 0 then DefaultEventsBatchSize else batchSize)"

definition listEventsSince :: "env \<Rightarrow> PoolRef option \<Rightarrow> int \<Rightarrow> nat \<Rightarrow> (StoreErr + Event list) M" where
  "listEventsSince E ref sinceID limit =
     (case ref of
        None \<Rightarrow> storeCall E Ctx (\<lambda>_. ListAllEventsSince sinceID limit)
      | Some r \<Rightarrow> storeCall E Ctx (\<lambda>_. ListEventsSince (pref_Name r) (pref_Namespace r) sinceID limit))"

text \<open>Sending a batch: whether every send succeeded, the id reached, and what was sent.\<close>

fun send_events :: "env \<Rightarrow> Event list \<Rightarrow> int \<Rightarrow> (bool \<times> int \<times> Event list) M" where
  "send_events E [] sinceID = ret (True, sinceID, [])"
| "send_events E (e # es) sinceID = do {
     n \<leftarrow> fresh;
     (if e_sendErr E n then ret (False, sinceID, [])
      else do {
        r \<leftarrow> send_events E es (e_Id e);
        (case r of (ok, s, sent) \<Rightarrow> ret (ok, s, e # sent)) }) }"

text \<open>The rest of a round once a batch has been read: send it, then go on at once if it was full
  and after the next tick otherwise, unless the client has gone away. \<open>again\<close> is the next round.\<close>

definition deliver :: "env \<Rightarrow> nat \<Rightarrow> Event list \<Rightarrow> int \<Rightarrow> (int \<Rightarrow> (Code option \<times> Event list) M) \<Rightarrow> (Code option \<times> Event list) M" where
  "deliver E batchSize es sinceID again = do {
     s \<leftarrow> send_events E es sinceID;
     (case s of (ok, sinceID', sent) \<Rightarrow>
        if \<not> ok then ret (Some Unknown, sent)
        else do {
          go \<leftarrow> (if length es = batchSize then ret True
                 else do { k \<leftarrow> fresh; ret (ctx_ok E Ctx k) });
          (if \<not> go then ret (None, sent)
           else do {
             t \<leftarrow> again sinceID';
             (case t of (c, sent') \<Rightarrow> ret (c, sent @ sent')) }) }) }"

fun Subscribe :: "env \<Rightarrow> PoolRef option \<Rightarrow> nat \<Rightarrow> nat \<Rightarrow> int \<Rightarrow> (Code option \<times> Event list) M" where
  "Subscribe E ref batchSize 0 sinceID = ret (None, [])"
| "Subscribe E ref batchSize (Suc rounds) sinceID = do {
     n \<leftarrow> fresh;
     (if \<not> ctx_ok E Ctx n then ret (None, [])
      else do {
        r \<leftarrow> listEventsSince E ref sinceID batchSize;
        (case r of
           Inl _ \<Rightarrow> ret (Some Internal, [])
         | Inr es \<Rightarrow> deliver E batchSize es sinceID (Subscribe E ref batchSize rounds)) }) }"

text \<open>The rows a subscription selects, and the events of a range of ids, in order.\<close>

definition selects :: "PoolRef option \<Rightarrow> eventRow \<Rightarrow> bool" where
  "selects ref r \<longleftrightarrow>
     (case ref of None \<Rightarrow> True
      | Some p \<Rightarrow> er_poolName r = pref_Name p \<and> er_poolNamespace r = pref_Namespace p)"

definition outbox :: "PoolRef option \<Rightarrow> int \<Rightarrow> int \<Rightarrow> db \<Rightarrow> Event list" where
  "outbox ref lo hi d = map scanEvent (filter (\<lambda>r. selects ref r \<and> lo < er_id r \<and> er_id r \<le> hi) (events d))"

text \<open>An outbox of three events of two pools, for the examples.\<close>

definition sample_event :: "int \<Rightarrow> string \<Rightarrow> eventRow" where
  "sample_event i pool = \<lparr>er_id = i, er_poolName = pool, er_poolNamespace = ''ns'', er_vmUID = ''v'',
     er_type = VM_AVAILABLE, er_createdAt = 1, er_payloadJson = []\<rparr>"

definition sample_outbox :: db where
  "sample_outbox = empty_db\<lparr>events := [sample_event 1 ''p'', sample_event 2 ''q'', sample_event 3 ''p''], event_seq := 3\<rparr>"

section \<open>The outbox only grows\<close>

definition grows :: "db \<Rightarrow> db \<Rightarrow> bool" where
  "grows d d' \<longleftrightarrow> (\<exists>new. events d' = events d @ new \<and> (\<forall>r \<in> set new. event_seq d < er_id r)) \<and> event_seq d \<le> event_seq d'"

lemma grows_same: "events d' = events d \<and> event_seq d' = event_seq d \<Longrightarrow> grows d d'"
  by (simp add: grows_def)

lemma grows_AppendEvent: "AppendEvent e d = Inr (i, d') \<Longrightarrow> grows d d'"
  by (auto simp: AppendEvent_def grows_def Let_def split: sum.splits)

lemma same_pools:
  "CreatePool C p d = Inr (u, d') \<Longrightarrow> events d' = events d \<and> event_seq d' = event_seq d"
  "UpdatePool C p d = Inr (u, d') \<Longrightarrow> events d' = events d \<and> event_seq d' = event_seq d"
  "DeletePool name ns d = Inr (u, d') \<Longrightarrow> events d' = events d \<and> event_seq d' = event_seq d"
  by (auto simp: CreatePool_def UpdatePool_def DeletePool_def checkRowsAffected_def Let_def
      split: sum.splits if_splits)

lemma same_delete_pool:
  "DeletePoolAndMarkVMs now name ns force d = Inr (marked, d') \<Longrightarrow> events d' = events d \<and> event_seq d' = event_seq d"
  by (auto simp: DeletePoolAndMarkVMs_def Let_def split: sum.splits if_splits dest!: same_pools(3))

lemma same_vms:
  "CreateVM v d = Inr (u, d') \<Longrightarrow> events d' = events d \<and> event_seq d' = event_seq d"
  "updateVM_exec v d = Inr (n, d') \<Longrightarrow> events d' = events d \<and> event_seq d' = event_seq d"
  "DeleteVM uid d = Inr (u, d') \<Longrightarrow> events d' = events d \<and> event_seq d' = event_seq d"
  "DeleteVMCheckingPool uid d = Inr (b, d') \<Longrightarrow> events d' = events d \<and> event_seq d' = event_seq d"
  "ClaimAvailableVM pick now name ns d = Inr (v', d') \<Longrightarrow> events d' = events d \<and> event_seq d' = event_seq d"
  by (auto simp: CreateVM_def updateVM_exec_def DeleteVM_def DeleteVMCheckingPool_def ClaimAvailableVM_def
      checkRowsAffected_def Let_def split: sum.splits if_splits option.splits)

lemma same_leases:
  "insertLease l d = Inr (u, d') \<Longrightarrow> events d' = events d \<and> event_seq d' = event_seq d"
  "UpdateLeaseHeartbeat i at ex d = Inr (u, d') \<Longrightarrow> events d' = events d \<and> event_seq d' = event_seq d"
  "DeleteLease i d = Inr (u, d') \<Longrightarrow> events d' = events d \<and> event_seq d' = event_seq d"
  "DeleteLeaseIfExpired i now d = Inr (l', d') \<Longrightarrow> events d' = events d \<and> event_seq d' = event_seq d"
  by (auto simp: insertLease_def UpdateLeaseHeartbeat_def DeleteLease_def DeleteLeaseIfExpired_def
      checkRowsAffected_def Let_def split: sum.splits if_splits option.splits)

lemma same_LeaseVM: "LeaseVM v l d = Inr (u, d') \<Longrightarrow> events d' = events d \<and> event_seq d' = event_seq d"
  by (auto simp: LeaseVM_def split: sum.splits dest!: updateVM_InrD same_vms(2) same_leases(1))

lemma same_hosts:
  "CreateHost h d = Inr (u, d') \<Longrightarrow> events d' = events d \<and> event_seq d' = event_seq d"
  "UpdateHost_exec now h d = Inr (u, d') \<Longrightarrow> events d' = events d \<and> event_seq d' = event_seq d"
  "DeleteHost name d = Inr (u, d') \<Longrightarrow> events d' = events d \<and> event_seq d' = event_seq d"
  "SetHostCordoned_exec now name b reason d = Inr (u, d') \<Longrightarrow> events d' = events d \<and> event_seq d' = event_seq d"
  by (auto simp: CreateHost_def UpdateHost_exec_def DeleteHost_def SetHostCordoned_exec_def
      checkRowsAffected_def Let_def split: sum.splits if_splits)

lemma same_drain:
  "DrainHost now now' name reason d = Inr (r, d') \<Longrightarrow> events d' = events d \<and> event_seq d' = event_seq d"
  "MarkDrainingHostsVMsDeleting now d = Inr (marked, d') \<Longrightarrow> events d' = events d \<and> event_seq d' = event_seq d"
  by (auto simp: DrainHost_eq MarkDrainingHostsVMsDeleting_def markUnleasedVMsDeleting_def Let_def
      split: option.splits)

lemma same_placements:
  "ReservePlacement now i host name ns d = Inr (u, d') \<Longrightarrow> events d' = events d \<and> event_seq d' = event_seq d"
  "ReleasePlacement i d = Inr (u, d') \<Longrightarrow> events d' = events d \<and> event_seq d' = event_seq d"
  "ClearPlacements d = Inr (u, d') \<Longrightarrow> events d' = events d \<and> event_seq d' = event_seq d"
  by (auto simp: ReservePlacement_def ReleasePlacement_def ClearPlacements_def split: option.splits if_splits)

lemmas same_outbox = same_pools same_delete_pool same_vms same_leases same_LeaseVM same_hosts same_drain same_placements

lemma store_step_grows: "store_step C d d' \<Longrightarrow> grows d d'"
  by (induction rule: store_step.induct)
    (simp_all add: CreateLease_def, (blast intro: grows_same grows_AppendEvent dest: same_outbox)+)

lemma grows_trans: "grows a b \<Longrightarrow> grows b c \<Longrightarrow> grows a c"
  unfolding grows_def by (elim conjE exE) (auto intro: order_trans)

lemma store_steps_grows: "store_steps C d d' \<Longrightarrow> grows d d'"
  by (induction rule: rtranclp_induct) (auto intro: grows_same grows_trans store_step_grows)

section \<open>Batches\<close>

abbreviation pending :: "PoolRef option \<Rightarrow> int \<Rightarrow> db \<Rightarrow> eventRow list" where
  "pending ref since d \<equiv> filter (\<lambda>r. selects ref r \<and> since < er_id r) (events d)"

lemma sorted_filter_ids: "sorted_wrt (<) (map er_id rows) \<Longrightarrow> sorted_wrt (<) (map er_id (filter p rows))"
  by (induction rows) auto

lemma sort_key_ids: "sorted_wrt (<) (map er_id rows) \<Longrightarrow> sort_key er_id rows = rows"
  by (rule sort_key_id_if_sorted) (auto simp: sorted_wrt_map intro: sorted_wrt_mono_rel [rotated])

lemma wf_events: "wf_db d \<Longrightarrow> sorted_wrt (<) (map er_id (events d))"
  by (simp add: wf_db_def)

lemma query_pending:
  assumes "wf_db d"
  shows "(case ref of None \<Rightarrow> ListAllEventsSince since lim d
          | Some r \<Rightarrow> ListEventsSince (pref_Name r) (pref_Namespace r) since lim d) =
         Inr (map scanEvent (take lim (pending ref since d)), d)"
proof -
  have "sort_key er_id (pending ref since d) = pending ref since d"
    using sort_key_ids sorted_filter_ids wf_events [OF assms] by blast
  then show ?thesis
    by (cases ref) (simp_all add: ListAllEventsSince_def ListEventsSince_def scanEvents_def selects_def conj_ac)
qed

lemma take_is_filter:
  "sorted_wrt (<) (map er_id xs) \<Longrightarrow> 0 < k \<Longrightarrow> k \<le> length xs \<Longrightarrow>
   take k xs = filter (\<lambda>r. er_id r \<le> er_id (xs ! (k - 1))) xs"
proof (induction xs arbitrary: k)
  case (Cons x xs)
  obtain j where j: "k = Suc j" using Cons.prems(2) by (cases k) auto
  have later: "\<forall>r \<in> set xs. er_id x < er_id r" using Cons.prems(1) by simp
  show ?case
  proof (cases j)
    case 0
    have "filter (\<lambda>r. er_id r \<le> er_id x) xs = []" using later by (auto simp: filter_empty_conv)
    then show ?thesis using j 0 by simp
  next
    case (Suc i)
    then have "take j xs = filter (\<lambda>r. er_id r \<le> er_id (xs ! (j - 1))) xs"
      using Cons.IH [of j] Cons.prems j by simp
    moreover have "er_id x \<le> er_id (xs ! (j - 1))" using later Suc j Cons.prems(3) by (simp add: less_imp_le)
    ultimately show ?thesis using j Suc by simp
  qed
qed simp

lemma filter_conj_id: "filter (\<lambda>r. er_id r \<le> hi) (pending ref lo d) = filter (\<lambda>r. selects ref r \<and> lo < er_id r \<and> er_id r \<le> hi) (events d)"
  by (simp add: conj_ac)

lemma outbox_empty: "outbox ref lo lo d = []"
  by (auto simp: outbox_def filter_empty_conv)

text \<open>A prefix of what is pending is the outbox up to the last id in it.\<close>

lemma outbox_take:
  assumes "wf_db d" "k \<le> length (pending ref lo d)"
    and "hi = (if k = 0 then lo else er_id (pending ref lo d ! (k - 1)))"
  shows "map scanEvent (take k (pending ref lo d)) = outbox ref lo hi d"
proof (cases "k = 0")
  case True
  then show ?thesis using assms(3) by (simp add: outbox_empty)
next
  case False
  have "take k (pending ref lo d) = filter (\<lambda>r. er_id r \<le> hi) (pending ref lo d)"
    using take_is_filter [OF sorted_filter_ids [OF wf_events [OF assms(1)]], of k "\<lambda>r. selects ref r \<and> lo < er_id r"]
      False assms(2,3) by simp
  then show ?thesis by (simp add: outbox_def filter_conj_id)
qed

lemma outbox_split:
  assumes "wf_db d" "lo \<le> mid" "mid \<le> hi"
  shows "outbox ref lo mid d @ outbox ref mid hi d = outbox ref lo hi d"
proof -
  have "filter (\<lambda>r. selects ref r \<and> lo < er_id r \<and> er_id r \<le> mid) rows @
        filter (\<lambda>r. selects ref r \<and> mid < er_id r \<and> er_id r \<le> hi) rows =
        filter (\<lambda>r. selects ref r \<and> lo < er_id r \<and> er_id r \<le> hi) rows"
    if "sorted_wrt (<) (map er_id rows)" for rows
    using that
  proof (induction rows)
    case (Cons r rows)
    show ?case
    proof (cases "er_id r \<le> mid")
      case True
      then show ?thesis using Cons assms(2,3) by auto
    next
      case False
      then have "filter (\<lambda>r. selects ref r \<and> lo < er_id r \<and> er_id r \<le> mid) rows = []"
        using Cons.prems by (auto simp: filter_empty_conv)
      then show ?thesis using Cons False assms(2) by auto
    qed
  qed simp
  from this [OF wf_events [OF assms(1)]] show ?thesis by (simp add: outbox_def flip: map_append)
qed

lemma outbox_grows:
  assumes "grows d d'" "hi \<le> event_seq d"
  shows "outbox ref lo hi d' = outbox ref lo hi d"
proof -
  obtain new where "events d' = events d @ new" "\<forall>r \<in> set new. event_seq d < er_id r"
    using assms(1) by (auto simp: grows_def)
  moreover from this(2) have "filter (\<lambda>r. selects ref r \<and> lo < er_id r \<and> er_id r \<le> hi) new = []"
    using assms(2) by (auto simp: filter_empty_conv)
  ultimately show ?thesis by (simp add: outbox_def)
qed

lemma outbox_all: "wf_db d \<Longrightarrow> event_seq d \<le> hi \<Longrightarrow> outbox ref lo hi d = map scanEvent (pending ref lo d)"
  unfolding outbox_def wf_db_def by (intro arg_cong [of _ _ "map scanEvent"] filter_cong) auto

section \<open>Sending\<close>

definition sent_prefix :: "Event list \<Rightarrow> int \<Rightarrow> bool \<times> int \<times> Event list \<Rightarrow> bool" where
  "sent_prefix es s r \<longleftrightarrow>
     (\<exists>k \<le> length es. snd (snd r) = take k es \<and> fst (snd r) = (if k = 0 then s else e_Id (es ! (k - 1))) \<and>
        (fst r \<longrightarrow> k = length es))"

lemma sent_prefix_Cons: "sent_prefix es (e_Id e) (ok, s', sent) \<Longrightarrow> sent_prefix (e # es) s (ok, s', e # sent)"
proof -
  assume "sent_prefix es (e_Id e) (ok, s', sent)"
  then obtain k where "k \<le> length es" "sent = take k es" "s' = (if k = 0 then e_Id e else e_Id (es ! (k - 1)))"
      "ok \<longrightarrow> k = length es" by (auto simp: sent_prefix_def)
  then show ?thesis unfolding sent_prefix_def by (intro exI [of _ "Suc k"]) (simp add: nth_Cons')
qed

lemma sent_prefix_Nil: "sent_prefix [] s (True, s, [])"
  by (simp add: sent_prefix_def)

lemma wp_send_events: "wp (send_events E es s) (\<lambda>r w'. wdb w' = wdb w \<and> sent_prefix es s r) w"
proof (induction es arbitrary: s w)
  case Nil
  show ?case by (simp add: wp_simps sent_prefix_Nil)
next
  case (Cons e es)
  let ?w = "w\<lparr>wstep := Suc (wstep w)\<rparr>"
  show ?case
  proof (cases "e_sendErr E (wstep w)")
    case True
    moreover have "sent_prefix (e # es) s (False, s, [])" unfolding sent_prefix_def by (rule exI [of _ 0]) simp
    ultimately show ?thesis by (simp add: wp_simps)
  next
    case False
    have step: "wp (case r of (ok, s', sent) \<Rightarrow> ret (ok, s', e # sent)) (\<lambda>r w'. wdb w' = wdb w \<and> sent_prefix (e # es) s r) w'"
      if "wdb w' = wdb ?w \<and> sent_prefix es (e_Id e) r" for r w'
      using that by (cases r) (simp add: wp_simps sent_prefix_Cons)
    show ?thesis unfolding send_events.simps wp_bind wp_fresh if_not_P [OF False]
      by (rule wp_mono [OF Cons.IH [of "e_Id e" ?w]]) (rule step)
  qed
qed

section \<open>The stream\<close>

lemma e_Id_scan: "e_Id (scanEvent r) = er_id r"
  by (simp add: scanEvent_def)

text \<open>One query against an honest environment: the others grow the outbox, then the batch is a
  prefix of what is pending.\<close>

lemma wp_listEventsSince:
  assumes "honest E" "wf_db (wdb w)"
  shows "wp (listEventsSince E ref s b)
    (\<lambda>r w'. store_steps (e_codec E) (wdb w) (wdb w') \<and> wf_db (wdb w') \<and>
       (\<forall>es. r = Inr es \<longrightarrow> es = map scanEvent (take b (pending ref s (wdb w'))))) w"
proof -
  let ?d = "e_others E (wstep w) (wdb w)"
  have steps: "store_steps (e_codec E) (wdb w) ?d" using assms(1) by (simp add: honest_def)
  have wf: "wf_db ?d" using store_steps_wf [OF steps assms(2)] .
  show ?thesis using steps wf query_pending [OF wf, where ref = ref and since = s and lim = b]
    by (cases ref) (auto simp: listEventsSince_def storeCall_def wp_def Let_def)
qed

text \<open>A prefix of a batch is the outbox up to the id it reached.\<close>

lemma sent_outbox:
  assumes "wf_db d" "s \<le> event_seq d" "sent_prefix (map scanEvent (take b (pending ref s d))) s (ok, s', sent)"
  shows "s \<le> s' \<and> s' \<le> event_seq d \<and> sent = outbox ref s s' d"
proof -
  let ?p = "pending ref s d"
  let ?es = "map scanEvent (take b ?p)"
  obtain k where k0: "k \<le> length ?es" "sent = take k ?es" "s' = (if k = 0 then s else e_Id (?es ! (k - 1)))"
    using assms(3) unfolding sent_prefix_def by auto
  then have "sent = map scanEvent (take k ?p)" by (simp add: take_map)
  moreover have "k \<noteq> 0 \<Longrightarrow> e_Id (?es ! (k - 1)) = er_id (?p ! (k - 1))" using k0(1) by (simp add: nth_map e_Id_scan less_le_trans [of "k - Suc 0" k])
  ultimately have k: "k \<le> length (take b ?p)" "sent = map scanEvent (take k ?p)" "s' = (if k = 0 then s else er_id (?p ! (k - 1)))"
    using k0 by simp_all
  then have "sent = outbox ref s s' d" using outbox_take [OF assms(1), of k ref s s'] by simp
  moreover have "s \<le> s' \<and> s' \<le> event_seq d"
  proof (cases "k = 0")
    case False
    then have "?p ! (k - 1) \<in> set ?p" using k(1) by (intro nth_mem) auto
    then have "s < er_id (?p ! (k - 1))" "er_id (?p ! (k - 1)) \<le> event_seq d"
      using assms(1) by (auto simp: wf_db_def)
    then show ?thesis using False k(3) by simp
  qed (use k(3) assms(2) in simp)
  ultimately show ?thesis by blast
qed

definition streamed :: "env \<Rightarrow> PoolRef option \<Rightarrow> int \<Rightarrow> world \<Rightarrow> Code option \<times> Event list \<Rightarrow> world \<Rightarrow> bool" where
  "streamed E ref s w r w' \<longleftrightarrow> store_steps (e_codec E) (wdb w) (wdb w') \<and>
     (\<exists>cur. s \<le> cur \<and> cur \<le> event_seq (wdb w') \<and> snd r = outbox ref s cur (wdb w'))"

lemma streamed_append:
  assumes "wf_db (wdb w)" "s \<le> s'" "s' \<le> event_seq (wdb w)" "streamed E ref s' w (c, rest) w'"
  shows "streamed E ref s w (c, outbox ref s s' (wdb w) @ rest) w'"
proof -
  obtain cur where cur: "s' \<le> cur" "cur \<le> event_seq (wdb w')" "rest = outbox ref s' cur (wdb w')"
    and steps: "store_steps (e_codec E) (wdb w) (wdb w')" using assms(4) by (auto simp: streamed_def)
  have "outbox ref s s' (wdb w) = outbox ref s s' (wdb w')"
    using outbox_grows [OF store_steps_grows [OF steps] assms(3)] by simp
  then have "outbox ref s s' (wdb w) @ rest = outbox ref s cur (wdb w')"
    using outbox_split [OF store_steps_wf [OF steps assms(1)] assms(2) cur(1)] cur(3) by simp
  then show ?thesis using steps cur(1,2) assms(2) unfolding streamed_def by (auto intro!: exI [of _ cur])
qed

lemma streamed_start:
  "store_steps (e_codec E) (wdb w) (wdb u) \<Longrightarrow> streamed E ref s u r w' \<Longrightarrow> streamed E ref s w r w'"
  unfolding streamed_def by (auto intro: rtranclp_trans)

lemma streamed_nothing: "s \<le> event_seq (wdb w) \<Longrightarrow> streamed E ref s w (c, []) w"
  unfolding streamed_def by (auto simp: outbox_empty intro!: exI [of _ s])

lemma wp_deliver:
  assumes rec: "\<And>s w. wf_db (wdb w) \<Longrightarrow> s \<le> event_seq (wdb w) \<Longrightarrow> wp (again s) (streamed E ref s w) w"
    and wf: "wf_db (wdb w)" and s: "s \<le> event_seq (wdb w)" and es: "es = map scanEvent (take b (pending ref s (wdb w)))"
  shows "wp (deliver E b es s again) (streamed E ref s w) w"
  unfolding deliver_def
proof (rule wp_seq [OF wp_send_events [of E es s w]])
  fix r :: "bool \<times> int \<times> Event list" and u :: world
  assume r: "wdb u = wdb w \<and> sent_prefix es s r"
  obtain ok s' sent where rr: "r = (ok, s', sent)" by (cases r)
  have out: "s \<le> s'" "s' \<le> event_seq (wdb w)" "sent = outbox ref s s' (wdb w)"
    using sent_outbox [OF wf s, where b = b and ref = ref and ok = ok and s' = s' and sent = sent] r rr es by auto
  have stop: "streamed E ref s w (c, sent) v" if "wdb v = wdb w" for c v
    using that out unfolding streamed_def by (auto intro!: exI [of _ s'])
  have more: "wp (State_Monad.bind (again s') (\<lambda>t. case t of (c, sent') \<Rightarrow> ret (c, sent @ sent'))) (streamed E ref s w) v"
    if v: "wdb v = wdb w" for v
  proof (rule wp_seq [OF rec])
    show "wf_db (wdb v)" "s' \<le> event_seq (wdb v)" using wf out v by simp_all
    fix t v' assume t: "streamed E ref s' v t v'"
    obtain c sent' where tt: "t = (c, sent')" by (cases t)
    have "streamed E ref s v (c, outbox ref s s' (wdb v) @ sent') v'"
      by (rule streamed_append) (use t tt wf out v in simp_all)
    then show "wp (case t of (c, sent') \<Rightarrow> ret (c, sent @ sent')) (streamed E ref s w) v'"
      using tt out(3) v by (simp add: wp_return streamed_def)
  qed
  show "wp (case r of (ok, sinceID', sent) \<Rightarrow>
            if \<not> ok then ret (Some Unknown, sent)
            else State_Monad.bind (if length es = b then ret True else State_Monad.bind fresh (\<lambda>k. ret (ctx_ok E Ctx k)))
              (\<lambda>go. if \<not> go then ret (None, sent)
                else State_Monad.bind (again sinceID') (\<lambda>t. case t of (c, sent') \<Rightarrow> ret (c, sent @ sent'))))
          (streamed E ref s w) u"
    using stop [of u] stop [of "u\<lparr>wstep := Suc (wstep u)\<rparr>"] more [of u] more [of "u\<lparr>wstep := Suc (wstep u)\<rparr>"] rr r
    by (simp add: wp_return wp_bind wp_fresh)
qed

lemma wp_Subscribe:
  assumes "honest E" "wf_db (wdb w)" "s \<le> event_seq (wdb w)"
  shows "wp (Subscribe E ref b rounds s) (streamed E ref s w) w"
  using assms(2,3)
proof (induction rounds arbitrary: s w)
  case 0
  then show ?case using streamed_nothing by (simp add: wp_return)
next
  case (Suc rounds)
  let ?w0 = "w\<lparr>wstep := Suc (wstep w)\<rparr>"
  let ?body = "State_Monad.bind (listEventsSince E ref s b) (\<lambda>r. case r of Inl _ \<Rightarrow> ret (Some Internal, [])
     | Inr es \<Rightarrow> deliver E b es s (Subscribe E ref b rounds))"
  have "wp ?body (streamed E ref s w) ?w0"
  proof (rule wp_seq [OF wp_listEventsSince [OF assms(1), where ref = ref and s = s and b = b]])
    show "wf_db (wdb ?w0)" using Suc.prems by simp
    fix r and u :: world
    assume q: "store_steps (e_codec E) (wdb ?w0) (wdb u) \<and> wf_db (wdb u) \<and>
           (\<forall>es. r = Inr es \<longrightarrow> es = map scanEvent (take b (pending ref s (wdb u))))"
    then have steps: "store_steps (e_codec E) (wdb w) (wdb u)" by simp
    then have s: "s \<le> event_seq (wdb u)" using store_steps_grows Suc.prems(2) by (fastforce simp: grows_def)
    have "wp (case r of Inl _ \<Rightarrow> ret (Some Internal, []) | Inr es \<Rightarrow> deliver E b es s (Subscribe E ref b rounds))
       (streamed E ref s u) u"
      using wp_deliver [OF Suc.IH, where w = u and s = s and b = b] q s streamed_nothing [OF s]
      by (cases r) (auto simp: wp_return)
    then show "wp (case r of Inl _ \<Rightarrow> ret (Some Internal, []) | Inr es \<Rightarrow> deliver E b es s (Subscribe E ref b rounds))
       (streamed E ref s w) u"
      by (rule wp_mono) (rule streamed_start [OF steps])
  qed
  moreover have "streamed E ref s w (None, []) ?w0"
    using streamed_nothing [of s ?w0 E ref None] Suc.prems by (simp add: streamed_def)
  ultimately show ?case by (simp add: wp_return wp_bind wp_fresh)
qed

section \<open>Replaying the backlog\<close>

lemma drop_is_filter:
  "sorted_wrt (<) (map er_id xs) \<Longrightarrow> 0 < k \<Longrightarrow> k \<le> length xs \<Longrightarrow>
   drop k xs = filter (\<lambda>r. er_id (xs ! (k - 1)) < er_id r) xs"
proof (induction xs arbitrary: k)
  case (Cons x xs)
  obtain j where j: "k = Suc j" using Cons.prems(2) by (cases k) auto
  have later: "\<forall>r \<in> set xs. er_id x < er_id r" using Cons.prems(1) by simp
  show ?case
  proof (cases j)
    case 0
    have "filter (\<lambda>r. er_id x < er_id r) xs = xs" using later by simp
    then show ?thesis using j 0 by simp
  next
    case (Suc i)
    then have "drop j xs = filter (\<lambda>r. er_id (xs ! (j - 1)) < er_id r) xs"
      using Cons.IH [of j] Cons.prems j by simp
    moreover have "er_id x \<le> er_id (xs ! (j - 1))" using later Suc j Cons.prems(3) by (simp add: less_imp_le)
    ultimately show ?thesis using j Suc by simp
  qed
qed simp

lemma pending_after:
  assumes "wf_db d" "k \<le> length (pending ref s d)"
  shows "pending ref (if k = 0 then s else er_id (pending ref s d ! (k - 1))) d = drop k (pending ref s d)"
proof (cases "k = 0")
  case False
  let ?p = "pending ref s d"
  have "s < er_id (?p ! (k - 1))" using nth_mem [of "k - 1" ?p] False assms(2) by auto
  then have "filter (\<lambda>r. selects ref r \<and> er_id (?p ! (k - 1)) < er_id r) (events d) =
      filter (\<lambda>r. er_id (?p ! (k - 1)) < er_id r) ?p"
    by (auto intro!: filter_cong)
  then show ?thesis
    using drop_is_filter [OF sorted_filter_ids [OF wf_events [OF assms(1)]], of k "\<lambda>r. selects ref r \<and> s < er_id r"]
      False assms(2) by simp
qed simp

lemma wp_send_all:
  "(\<And>n. \<not> e_sendErr E n) \<Longrightarrow> wp (send_events E es s)
     (\<lambda>r w'. r = (True, if es = [] then s else e_Id (last es), es) \<and> wdb w' = wdb w) w"
proof (induction es arbitrary: s w)
  case (Cons e es)
  let ?w = "w\<lparr>wstep := Suc (wstep w)\<rparr>"
  have "wp (State_Monad.bind (send_events E es (e_Id e)) (\<lambda>r. case r of (ok, s, sent) \<Rightarrow> ret (ok, s, e # sent)))
      (\<lambda>r w'. r = (True, e_Id (last (e # es)), e # es) \<and> wdb w' = wdb w) ?w"
    by (rule wp_seq [OF Cons.IH [OF Cons.prems]]) (auto simp: wp_return)
  then show ?case using Cons.prems by (simp add: wp_bind wp_fresh)
qed (simp add: wp_return)

lemma last_batch:
  assumes "b \<noteq> 0" "xs \<noteq> []"
  shows "e_Id (last (map scanEvent (take b xs))) = er_id (xs ! (min b (length xs) - 1))"
  using assms by (simp add: last_map e_Id_scan last_conv_nth min_def)

lemma wp_Subscribe_undisturbed:
  assumes "undisturbed E" "\<And>n. \<not> e_cancelled E n" "\<And>n. \<not> e_sendErr E n" "0 < b" "wf_db (wdb w)"
  shows "wp (Subscribe E ref b rounds s)
    (\<lambda>r w'. r = (None, map scanEvent (take (rounds * b) (pending ref s (wdb w)))) \<and> wdb w' = wdb w) w"
  using assms(5)
proof (induction rounds arbitrary: s w)
  case 0
  then show ?case by (simp add: wp_return)
next
  case (Suc rounds)
  let ?d = "wdb w" and ?p = "pending ref s (wdb w)"
  let ?es = "map scanEvent (take b ?p)" and ?k = "min b (length ?p)"
  let ?s' = "if ?es = [] then s else e_Id (last ?es)"
  have ok: "ctx_ok E Ctx n" for n using assms(2) by (simp add: ctx_ok_def)
  have next_pending: "pending ref ?s' ?d = drop b ?p"
    using pending_after [OF Suc.prems, of ?k ref s] last_batch [of b ?p] assms(4) by (auto simp: min_def split: if_splits)
  have query: "wp (listEventsSince E ref s b) Q v = Q (Inr ?es) (v\<lparr>wstep := Suc (wstep v)\<rparr>)"
    if "wdb v = ?d" for Q v
    using query_pending [OF Suc.prems, where ref = ref and since = s and lim = b] that assms(1) ok
    by (cases v; cases ref) (simp_all add: listEventsSince_def wp_storeCall_undisturbed)
  have rest: "wp (State_Monad.bind (Subscribe E ref b rounds ?s') (\<lambda>t. case t of (c, sent') \<Rightarrow> ret (c, ?es @ sent')))
      (\<lambda>r w'. r = (None, map scanEvent (take (Suc rounds * b) ?p)) \<and> wdb w' = ?d) u" if u: "wdb u = ?d" for u
    by (rule wp_seq [OF Suc.IH]) (use Suc.prems u next_pending in \<open>auto simp: wp_return take_add [of b] simp flip: map_append\<close>)
  have "wp (deliver E b ?es s (Subscribe E ref b rounds))
      (\<lambda>r w'. r = (None, map scanEvent (take (Suc rounds * b) ?p)) \<and> wdb w' = ?d) v" if v: "wdb v = ?d" for v
    unfolding deliver_def
    by (rule wp_seq [OF wp_send_all [OF assms(3)]])
      (use v rest ok in \<open>auto simp: wp_return wp_bind wp_fresh\<close>)
  then show ?case using ok query by (simp add: wp_bind wp_fresh)
qed

section \<open>Properties\<close>

text \<open>C22: a subscription sends each event once and in order, and skips none: whatever the other
  transactions do, whenever the client goes away or a send fails, what has been sent is exactly
  the selected events of the outbox up to some id, in the order of their ids.\<close>

theorem Subscribe_exactly_once_in_order:
  assumes "honest E" and "wf_db (wdb w)" and "0 \<le> event_seq (wdb w)"
    and "run_state (Subscribe E ref b rounds 0) w = ((c, sent), w')"
  shows "\<exists>cur \<le> event_seq (wdb w').
      sent = map scanEvent (filter (\<lambda>r. selects ref r \<and> 0 < er_id r \<and> er_id r \<le> cur) (events (wdb w'))) \<and>
      sorted_wrt (<) (map e_Id sent)"
proof -
  have "streamed E ref 0 w (c, sent) w'"
    using wp_Subscribe [OF assms(1-3), of ref b rounds] assms(4) by (simp add: wp_def)
  then obtain cur where cur: "cur \<le> event_seq (wdb w')" "sent = outbox ref 0 cur (wdb w')"
    and steps: "store_steps (e_codec E) (wdb w) (wdb w')" by (auto simp: streamed_def)
  have "sorted_wrt (<) (map er_id (filter (\<lambda>r. selects ref r \<and> 0 < er_id r \<and> er_id r \<le> cur) (events (wdb w'))))"
    using sorted_filter_ids [OF wf_events [OF store_steps_wf [OF steps assms(2)]]] .
  then have "sorted_wrt (<) (map e_Id sent)" using cur(2) by (simp add: outbox_def comp_def e_Id_scan)
  then show ?thesis using cur unfolding outbox_def by blast
qed

lemma wf_sample_outbox: "wf_db sample_outbox"
  by (simp add: wf_db_def sample_outbox_def sample_event_def empty_db_def)

theorem Subscribe_exactly_once_in_order_witness:
  "\<exists>c sent w'. run_state (Subscribe sample_env None 2 1 0) (sample_world sample_outbox) = ((c, sent), w') \<and>
     (\<exists>cur \<le> event_seq (wdb w').
        sent = map scanEvent (filter (\<lambda>r. selects None r \<and> 0 < er_id r \<and> er_id r \<le> cur) (events (wdb w'))) \<and>
        sorted_wrt (<) (map e_Id sent))"
proof -
  obtain c sent w' where run: "run_state (Subscribe sample_env None 2 1 0) (sample_world sample_outbox) = ((c, sent), w')"
    by (metis prod.exhaust)
  have "wf_db (wdb (sample_world sample_outbox))" "0 \<le> event_seq (wdb (sample_world sample_outbox))"
    by (simp_all add: sample_world_def wf_sample_outbox) (simp add: sample_outbox_def)
  from Subscribe_exactly_once_in_order [OF undisturbed_honest [OF undisturbed_sample] this run] run show ?thesis by blast
qed

text \<open>With nothing in the way, \<open>k\<close> rounds of a subscription with batch size \<open>b\<close> send the
  first \<open>k * b\<close> selected events after the starting id, so the whole backlog after enough
  rounds, and leave the database alone.\<close>

theorem Subscribe_replays_backlog:
  assumes "undisturbed E" and "\<And>n. \<not> e_cancelled E n" and "\<And>n. \<not> e_sendErr E n" and "0 < b" and "wf_db (wdb w)"
  shows "fst (run_state (Subscribe E ref b rounds s) w) =
           (None, map scanEvent (take (rounds * b) (filter (\<lambda>r. selects ref r \<and> s < er_id r) (events (wdb w))))) \<and>
         wdb (snd (run_state (Subscribe E ref b rounds s) w)) = wdb w"
  using wp_Subscribe_undisturbed [OF assms, of ref rounds s] by (simp add: wp_run)

theorem Subscribe_replays_backlog_witness:
  "fst (run_state (Subscribe sample_env (Some \<lparr>pref_Name = ''p'', pref_Namespace = ''ns''\<rparr>) 1 2 0) (sample_world sample_outbox)) =
     (None, map scanEvent [sample_event 1 ''p'', sample_event 3 ''p''])"
proof -
  have "fst (run_state (Subscribe sample_env (Some \<lparr>pref_Name = ''p'', pref_Namespace = ''ns''\<rparr>) 1 2 0) (sample_world sample_outbox)) =
    (None, map scanEvent (take (2 * 1) (filter (\<lambda>r. selects (Some \<lparr>pref_Name = ''p'', pref_Namespace = ''ns''\<rparr>) r \<and> 0 < er_id r)
       (events (wdb (sample_world sample_outbox))))))"
    by (rule conjunct1 [OF Subscribe_replays_backlog [OF undisturbed_sample]])
      (simp_all add: sample_env_def sample_world_def wf_sample_outbox)
  then show ?thesis by (simp add: sample_world_def sample_outbox_def sample_event_def selects_def)
qed

end
