(* ===== verification/System.thy ===== *)
theory System
  imports Startup Sweeper Release_Props Pool_Admin Host_Admin Events_API
begin

text \<open>
  The whole server. A task is one request to an API handler, one pass of a reconciler, one tick
  of the sweeper or the start-up; a history of the server is a list of tasks, each in an
  environment of its own. The specification a history is held to is the transition system of
  store transactions (\<open>store_step\<close>): whatever the handlers do, the database only ever changes
  by atomic transactions of the \<open>Store\<close> interface, so every invariant of that system holds of
  the server. The environments' interference may itself be made of tasks.
\<close>

section \<open>Definitions\<close>

datatype Task =
    T_Startup
  | T_ClaimVM ClaimVMRequest | T_Heartbeat string | T_ReleaseVM string | T_ListLeases "PoolRef option"
  | T_CreatePool PoolSpec | T_GetPool string string | T_ListPools "string option" | T_UpdatePool PoolSpec
  | T_DeletePool bool string string bool
  | T_CordonHost string string | T_UncordonHost string | T_DrainHost bool bool string string
  | T_ListHosts | T_GetHost string
  | T_AddHost string string "HostTLS option" bool | T_UpdateHost string string "HostTLS option" bool
  | T_RemoveHost string
  | T_Subscribe "PoolRef option" nat nat int
  | T_Reconcile ProvisionConfig PoolSpec "PoolSpec \<Rightarrow> VMCounts \<Rightarrow> int"
  | T_Sweep Duration Timestamp warned

text \<open>What a task does to the world; its answer is dropped.\<close>

fun serve :: "env \<Rightarrow> Task \<Rightarrow> world \<Rightarrow> world" where
  "serve E T_Startup w = snd (run_state (startup E) w)"
| "serve E (T_ClaimVM req) w = snd (run_state (ClaimVM E req) w)"
| "serve E (T_Heartbeat i) w = snd (run_state (Heartbeat E i) w)"
| "serve E (T_ReleaseVM i) w = snd (run_state (ReleaseVM E i) w)"
| "serve E (T_ListLeases r) w = snd (run_state (API_ListLeases E r) w)"
| "serve E (T_CreatePool spec) w = snd (run_state (API_CreatePool E spec) w)"
| "serve E (T_GetPool n ns) w = snd (run_state (API_getPool E n ns) w)"
| "serve E (T_ListPools ns) w = snd (run_state (API_ListPools E ns) w)"
| "serve E (T_UpdatePool spec) w = snd (run_state (API_UpdatePool E spec) w)"
| "serve E (T_DeletePool fl n ns force) w = snd (run_state (API_DeletePool E fl n ns force) w)"
| "serve E (T_CordonHost n r) w = snd (run_state (CordonHost E n r) w)"
| "serve E (T_UncordonHost n) w = snd (run_state (UncordonHost E n) w)"
| "serve E (T_DrainHost fl nt n r) w = snd (run_state (API_DrainHost E fl nt n r) w)"
| "serve E T_ListHosts w = snd (run_state (API_ListHosts E) w)"
| "serve E (T_GetHost n) w = snd (run_state (API_GetHost E n) w)"
| "serve E (T_AddHost n a t s) w = snd (run_state (API_AddHost E n a t s) w)"
| "serve E (T_UpdateHost n a t s) w = snd (run_state (API_UpdateHost E n a t s) w)"
| "serve E (T_RemoveHost n) w = snd (run_state (API_RemoveHost E n) w)"
| "serve E (T_Subscribe ref batch rounds since) w = snd (run_state (Subscribe E ref batch rounds since) w)"
| "serve E (T_Reconcile cfg pool desired) w = snd (run_state (reconcile E cfg pool desired) w)"
| "serve E (T_Sweep window now warned) w = snd (run_state (Tick E window now warned) w)"

definition history :: "(env \<times> Task) list \<Rightarrow> world \<Rightarrow> world" where
  "history ts w = fold (\<lambda>(E, t). serve E t) ts w"

section \<open>Refinement\<close>

lemma keeps_run: "keeps (runs_store C) m \<Longrightarrow> runs_store C w (snd (run_state m w))"
  by (simp add: keeps_def wp_run)

lemma keeps_startup [keeps_intros]: "honest E \<Longrightarrow> keeps (runs_store (e_codec E)) (startup E)"
  unfolding startup_def recover_def clearStalePlacements_def Seed_M_def
  by (intro keeps_intros tx_intros; assumption)

lemma keeps_listEventsSince [keeps_intros]: "honest E \<Longrightarrow> keeps (runs_store (e_codec E)) (listEventsSince E ref since n)"
  unfolding listEventsSince_def by (intro keeps_intros tx_intros; assumption)

lemma keeps_send_events [keeps_intros]: "keeps (runs_store C) (send_events E es since)"
  by (induction es arbitrary: since) (auto intro!: keeps_intros)

lemma keeps_deliver [keeps_intros]:
  "(\<And>s. keeps (runs_store C) (again s)) \<Longrightarrow> keeps (runs_store C) (deliver E n es since again)"
  unfolding deliver_def by (intro keeps_intros)

lemma keeps_Subscribe [keeps_intros]: "honest E \<Longrightarrow> keeps (runs_store (e_codec E)) (Subscribe E ref n k since)"
  by (induction k arbitrary: since) (auto intro!: keeps_intros)

lemmas keeps_tasks = keeps_startup keeps_ClaimVM keeps_Heartbeat keeps_ReleaseVM keeps_API_ListLeases
  keeps_API_CreatePool keeps_API_getPool keeps_API_ListPools keeps_API_UpdatePool keeps_API_DeletePool
  keeps_CordonHost keeps_UncordonHost keeps_API_DrainHost keeps_API_ListHosts keeps_API_GetHost
  keeps_API_AddHost keeps_API_UpdateHost keeps_API_RemoveHost keeps_Subscribe keeps_reconcile keeps_Tick

lemma serve_runs: "honest E \<Longrightarrow> runs_store (e_codec E) w (serve E t w)"
  by (cases t; simp only: serve.simps; rule keeps_run; rule keeps_tasks; assumption)

lemma history_runs:
  "list_all (\<lambda>(E, t). honest E \<and> e_codec E = C) ts \<Longrightarrow> runs_store C w (history ts w)"
proof (induction ts arbitrary: w)
  case (Cons p ts)
  obtain E t where p: "p = (E, t)" by (cases p)
  then have "runs_store C w (serve E t w)" using serve_runs [of E] Cons.prems by auto
  moreover have "runs_store C (serve E t w) (history ts (serve E t w))" using Cons by simp
  ultimately show ?case by (auto simp: history_def p intro: rs.trans)
qed (simp add: history_def rs.refl)


text \<open>A crash, a restart, a claim and a sweep.\<close>

definition sample_history :: "(env \<times> Task) list" where
  "sample_history = [(sample_env, T_Startup), (sample_env, T_ClaimVM sample_claim), (sample_env, T_Sweep 30 10 Map.empty)]"


end
