(* ===== verification/Config.thy ===== *)
theory Config
  imports Sweeper "HOL-Library.Log_Nat"
begin

text \<open>
  Model of \<^verbatim>\<open>src/internal/config/config.go\<close>: loading and validating the settings file, and of how
  \<^verbatim>\<open>src/cmd/poolmgrd/main.go\<close> turns its durations into the sweeper's timings. Reading the file
  and the grammar of JSON text are parameters (\<open>os.ReadFile\<close>, and a parser to \<open>jval\<close>); the
  decoding of a JSON value into the structs, and \<open>time.ParseDuration\<close> with its overflow checks
  and its floating-point fractions, are written out.
\<close>

section \<open>Durations\<close>

definition is_digit :: "char \<Rightarrow> bool" where
  "is_digit c \<longleftrightarrow> CHR ''0'' \<le> c \<and> c \<le> CHR ''9''"

definition digit :: "char \<Rightarrow> int" where
  "digit c = of_char c - 48"

text \<open>\<open>leadingInt\<close> on the digits it has found; None is its overflow error.\<close>

fun leadingInt :: "int \<Rightarrow> string \<Rightarrow> int option" where
  "leadingInt x [] = Some x"
| "leadingInt x (c # cs) =
     (if x > 2 ^ 63 div 10 then None
      else if x * 10 + digit c > 2 ^ 63 then None
      else leadingInt (x * 10 + digit c) cs)"

text \<open>\<open>leadingFraction\<close> on its digits: digits beyond the precision are dropped.\<close>

fun leadingFraction :: "int \<Rightarrow> int \<Rightarrow> string \<Rightarrow> int \<times> int" where
  "leadingFraction x scale [] = (x, scale)"
| "leadingFraction x scale (c # cs) =
     (if x > (2 ^ 63 - 1) div 10 \<or> x * 10 + digit c > 2 ^ 63 then (x, scale)
      else leadingFraction (x * 10 + digit c) (scale * 10) cs)"

text \<open>Rounding of a positive rational \<open>p / q\<close> to a 53-bit significand, ties to even: the
  result of a \<open>float64\<close> operation whose exact value is \<open>p / q\<close> (no value here leaves the normal
  range). A value is again a pair of numerator and denominator.\<close>

definition round_even :: "int \<Rightarrow> int \<Rightarrow> int" where
  "round_even p q =
     (let a = p div q; r = p mod q in if 2 * r > q \<or> 2 * r = q \<and> odd a then a + 1 else a)"

definition scaled :: "int \<Rightarrow> int \<times> int \<Rightarrow> int \<times> int" where
  "scaled s pq = (if s \<ge> 0 then (fst pq * 2 ^ nat s, snd pq) else (fst pq, snd pq * 2 ^ nat (- s)))"

definition float64 :: "int \<times> int \<Rightarrow> int \<times> int" where
  "float64 pq =
     (if fst pq = 0 then (0, 1)
      else
        let s = 53 + bitlen (snd pq) - bitlen (fst pq);
            t = scaled s pq;
            e = (if fst t \<ge> 2 ^ 53 * snd t then s - 1 else s);
            u = scaled e pq
        in scaled (- e) (round_even (fst u) (snd u), 1))"

text \<open>\<open>uint64(float64(f) * (float64(unit) / scale))\<close>.\<close>

definition fraction_nanos :: "int \<Rightarrow> int \<Rightarrow> int \<Rightarrow> int" where
  "fraction_nanos f unit scale =
     (let a = float64 (f, 1); b = float64 (unit, scale); c = float64 (fst a * fst b, snd a * snd b)
      in fst c div snd c)"

definition unitMap :: "string \<Rightarrow> int option" where
  "unitMap u =
     (if u = ''ns'' then Some 1
      else if u = ''us'' \<or> u = [CHR 0xC2, CHR 0xB5, CHR ''s''] \<or> u = [CHR 0xCE, CHR 0xBC, CHR ''s''] then Some 1000
      else if u = ''ms'' then Some (10 ^ 6)
      else if u = ''s'' then Some (10 ^ 9)
      else if u = ''m'' then Some (60 * 10 ^ 9)
      else if u = ''h'' then Some (3600 * 10 ^ 9)
      else None)"

text \<open>One turn of the loop: a number, its fraction and its unit; the nanoseconds and the rest of
  the text.\<close>

definition duration_term :: "string \<Rightarrow> (int \<times> string) option" where
  "duration_term s =
     (if s = [] \<or> \<not> (hd s = CHR ''.'' \<or> is_digit (hd s)) then None
      else
        let ds = takeWhile is_digit s; s1 = dropWhile is_digit s;
            dot = (s1 \<noteq> [] \<and> hd s1 = CHR ''.'');
            fs = (if dot then takeWhile is_digit (tl s1) else []);
            s2 = (if dot then dropWhile is_digit (tl s1) else s1);
            u = takeWhile (\<lambda>c. \<not> (c = CHR ''.'' \<or> is_digit c)) s2;
            s3 = dropWhile (\<lambda>c. \<not> (c = CHR ''.'' \<or> is_digit c)) s2
        in
          (case leadingInt 0 ds of None \<Rightarrow> None
           | Some v \<Rightarrow>
             if ds = [] \<and> fs = [] then None
             else if u = [] then None
             else
               (case unitMap u of None \<Rightarrow> None
                | Some unit \<Rightarrow>
                  if v > 2 ^ 63 div unit then None
                  else
                    (case leadingFraction 0 1 fs of (f, scale) \<Rightarrow>
                       let v1 = v * unit;
                           v2 = (if f > 0 then (v1 + fraction_nanos f unit scale) mod 2 ^ 64 else v1)
                       in if f > 0 \<and> v2 > 2 ^ 63 then None else Some (v2, s3)))))"

lemma duration_term_shorter: "duration_term s = Some (v, s') \<Longrightarrow> length s' < length s"
proof -
  assume t: "duration_term s = Some (v, s')"
  let ?unit = "\<lambda>c. \<not> (c = CHR ''.'' \<or> is_digit c)"
  obtain s2 where s2: "length s2 \<le> length s" "takeWhile ?unit s2 \<noteq> []" "s' = dropWhile ?unit s2"
  proof -
    let ?s1 = "dropWhile is_digit s"
    let ?s2 = "if ?s1 \<noteq> [] \<and> hd ?s1 = CHR ''.'' then dropWhile is_digit (tl ?s1) else ?s1"
    have "length (dropWhile is_digit (tl ?s1)) \<le> length ?s1" using length_dropWhile_le [of is_digit "tl ?s1"] by simp
    then have "length ?s2 \<le> length s" using length_dropWhile_le [of is_digit s] by (auto intro: order_trans)
    moreover have "takeWhile ?unit ?s2 \<noteq> []" "s' = dropWhile ?unit ?s2"
      using t by (auto simp: duration_term_def Let_def split: if_splits option.splits prod.splits)
    ultimately show ?thesis by (rule that)
  qed
  have "length (takeWhile ?unit s2) + length (dropWhile ?unit s2) = length s2"
    by (metis length_append takeWhile_dropWhile_id)
  then show ?thesis using s2 by (cases "takeWhile ?unit s2") auto
qed

text \<open>The loop of \<open>ParseDuration\<close>: the sum, in \<open>uint64\<close>.\<close>

function duration_terms :: "string \<Rightarrow> int \<Rightarrow> int option" where
  "duration_terms s d =
     (if s = [] then Some d
      else
        (case duration_term s of None \<Rightarrow> None
         | Some (v, s') \<Rightarrow>
           let d' = (d + v) mod 2 ^ 64 in if d' > 2 ^ 63 then None else duration_terms s' d'))"
  by auto
termination
  by (relation "measure (\<lambda>(s, d). length s)") (auto dest: duration_term_shorter)

declare duration_terms.simps [simp del]

definition ParseDuration :: "string \<Rightarrow> Duration option" where
  "ParseDuration orig =
     (let neg = (orig \<noteq> [] \<and> hd orig = CHR ''-'');
          s = (if orig \<noteq> [] \<and> (hd orig = CHR ''-'' \<or> hd orig = CHR ''+'') then tl orig else orig)
      in
        if s = ''0'' then Some 0
        else if s = [] then None
        else
          (case duration_terms s 0 of None \<Rightarrow> None
           | Some d \<Rightarrow>
             if neg then Some (to_int64 (- to_int64 d))
             else if d > 2 ^ 63 - 1 then None
             else Some d))"


section \<open>Settings\<close>

record ServerTLSConfig =
  st_Insecure :: bool
  st_CertFile :: string
  st_KeyFile :: string
  st_ValidateClient :: bool
  st_ClientCAFile :: string

record APIServerConfig =
  as_Addr :: string
  as_TLS :: ServerTLSConfig
  as_BasicAuthToken :: string

record Config =
  cf_APIServer :: "APIServerConfig option"
  cf_MetricsAddr :: string
  cf_SweepInterval :: string
  cf_WarningWindow :: string

datatype ConfigErr =
    ErrReadFile | ErrParse | ErrHostsKey
  | ErrAPIServerRequired | ErrAddrRequired
  | ErrInsecureWithTLS | ErrCertAndKeyRequired | ErrClientCARequired
  | ErrDuration string | ErrNotPositive string

definition DefaultMetricsAddr :: string where "DefaultMetricsAddr = '':9090''"

definition ServerTLSConfig_Validate :: "ServerTLSConfig \<Rightarrow> ConfigErr option" where
  "ServerTLSConfig_Validate t =
     (if st_Insecure t then
        (if st_CertFile t \<noteq> [] \<or> st_KeyFile t \<noteq> [] \<or> st_ValidateClient t \<or> st_ClientCAFile t \<noteq> []
         then Some ErrInsecureWithTLS else None)
      else if st_CertFile t = [] \<or> st_KeyFile t = [] then Some ErrCertAndKeyRequired
      else if st_ValidateClient t \<and> st_ClientCAFile t = [] then Some ErrClientCARequired
      else None)"

definition APIServerConfig_Validate :: "APIServerConfig \<Rightarrow> ConfigErr option" where
  "APIServerConfig_Validate a =
     (if as_Addr a = [] then Some ErrAddrRequired else ServerTLSConfig_Validate (as_TLS a))"

definition validatePositiveDuration :: "string \<Rightarrow> string \<Rightarrow> ConfigErr option" where
  "validatePositiveDuration field s =
     (if s = [] then None
      else
        (case ParseDuration s of None \<Rightarrow> Some (ErrDuration field)
         | Some d \<Rightarrow> if d \<le> 0 then Some (ErrNotPositive field) else None))"

definition Config_Validate :: "Config \<Rightarrow> ConfigErr option" where
  "Config_Validate c =
     (case cf_APIServer c of None \<Rightarrow> Some ErrAPIServerRequired
      | Some a \<Rightarrow>
        (case APIServerConfig_Validate a of Some e \<Rightarrow> Some e
         | None \<Rightarrow>
           (case validatePositiveDuration ''sweep_interval'' (cf_SweepInterval c) of Some e \<Rightarrow> Some e
            | None \<Rightarrow> validatePositiveDuration ''warning_window'' (cf_WarningWindow c))))"

subsection \<open>Decoding\<close>

text \<open>A JSON value, and \<open>json.Unmarshal\<close> of one into the structs. Keys match a field by name,
  else by folded name (upper case, with the long s and the Kelvin sign folded to S and K); other
  keys are ignored; a repeated key decodes again over the same field; null leaves a field as it
  is, and sets a pointer to nil; a value of the wrong type is an error. A string is its UTF-8
  bytes.\<close>

datatype jval = JNull | JBool bool | JNumber string | JString string | JArray "jval list" | JObject "(string \<times> jval) list"

definition upper :: "char \<Rightarrow> char" where
  "upper c = (if CHR ''a'' \<le> c \<and> c \<le> CHR ''z'' then char_of (of_char c - 32 :: nat) else c)"

fun foldName :: "string \<Rightarrow> string" where
  "foldName [] = []"
| "foldName (c # cs) =
     (if c = CHR 0xC5 \<and> take 1 cs = [CHR 0xBF] then CHR ''S'' # foldName (drop 1 cs)
      else if c = CHR 0xE2 \<and> take 2 cs = [CHR 0x84, CHR 0xAA] then CHR ''K'' # foldName (drop 2 cs)
      else upper c # foldName cs)"

definition field_of :: "string list \<Rightarrow> string \<Rightarrow> string option" where
  "field_of names key =
     (if key \<in> set names then Some key else find (\<lambda>n. foldName n = foldName key) names)"

definition into_string :: "jval \<Rightarrow> string \<Rightarrow> string option" where
  "into_string v old = (case v of JNull \<Rightarrow> Some old | JString s \<Rightarrow> Some s | _ \<Rightarrow> None)"

definition into_bool :: "jval \<Rightarrow> bool \<Rightarrow> bool option" where
  "into_bool v old = (case v of JNull \<Rightarrow> Some old | JBool b \<Rightarrow> Some b | _ \<Rightarrow> None)"

text \<open>Decoding of a struct, one key after the other; \<open>set\<close> decodes into the field named.\<close>

fun into_fields :: "(string \<Rightarrow> jval \<Rightarrow> 'r \<Rightarrow> 'r option) \<Rightarrow> string list \<Rightarrow> (string \<times> jval) list \<Rightarrow> 'r \<Rightarrow> 'r option" where
  "into_fields put names [] r = Some r"
| "into_fields put names ((k, v) # kvs) r =
     (case field_of names k of None \<Rightarrow> into_fields put names kvs r
      | Some n \<Rightarrow> (case put n v r of None \<Rightarrow> None | Some r' \<Rightarrow> into_fields put names kvs r'))"

definition into_struct :: "(string \<Rightarrow> jval \<Rightarrow> 'r \<Rightarrow> 'r option) \<Rightarrow> string list \<Rightarrow> jval \<Rightarrow> 'r \<Rightarrow> 'r option" where
  "into_struct put names v r =
     (case v of JNull \<Rightarrow> Some r | JObject kvs \<Rightarrow> into_fields put names kvs r | _ \<Rightarrow> None)"

definition put_ServerTLS :: "string \<Rightarrow> jval \<Rightarrow> ServerTLSConfig \<Rightarrow> ServerTLSConfig option" where
  "put_ServerTLS n v t =
     (if n = ''insecure'' then map_option (\<lambda>b. t\<lparr>st_Insecure := b\<rparr>) (into_bool v (st_Insecure t))
      else if n = ''cert_file'' then map_option (\<lambda>x. t\<lparr>st_CertFile := x\<rparr>) (into_string v (st_CertFile t))
      else if n = ''key_file'' then map_option (\<lambda>x. t\<lparr>st_KeyFile := x\<rparr>) (into_string v (st_KeyFile t))
      else if n = ''validate_client'' then map_option (\<lambda>b. t\<lparr>st_ValidateClient := b\<rparr>) (into_bool v (st_ValidateClient t))
      else map_option (\<lambda>x. t\<lparr>st_ClientCAFile := x\<rparr>) (into_string v (st_ClientCAFile t)))"

definition put_APIServer :: "string \<Rightarrow> jval \<Rightarrow> APIServerConfig \<Rightarrow> APIServerConfig option" where
  "put_APIServer n v a =
     (if n = ''addr'' then map_option (\<lambda>x. a\<lparr>as_Addr := x\<rparr>) (into_string v (as_Addr a))
      else if n = ''tls'' then
        map_option (\<lambda>t. a\<lparr>as_TLS := t\<rparr>)
          (into_struct put_ServerTLS [''insecure'', ''cert_file'', ''key_file'', ''validate_client'', ''client_ca_file''] v (as_TLS a))
      else map_option (\<lambda>x. a\<lparr>as_BasicAuthToken := x\<rparr>) (into_string v (as_BasicAuthToken a)))"

definition zero_APIServer :: APIServerConfig where
  "zero_APIServer = \<lparr>as_Addr = [], as_TLS = \<lparr>st_Insecure = False, st_CertFile = [], st_KeyFile = [], st_ValidateClient = False,
     st_ClientCAFile = []\<rparr>, as_BasicAuthToken = []\<rparr>"

definition put_Config :: "string \<Rightarrow> jval \<Rightarrow> Config \<Rightarrow> Config option" where
  "put_Config n v c =
     (if n = ''api_server'' then
        (if v = JNull then Some (c\<lparr>cf_APIServer := None\<rparr>)
         else
           map_option (\<lambda>a. c\<lparr>cf_APIServer := Some a\<rparr>)
             (into_struct put_APIServer [''addr'', ''tls'', ''basic_auth_token''] v
                (case cf_APIServer c of None \<Rightarrow> zero_APIServer | Some a \<Rightarrow> a)))
      else if n = ''metrics_addr'' then map_option (\<lambda>x. c\<lparr>cf_MetricsAddr := x\<rparr>) (into_string v (cf_MetricsAddr c))
      else if n = ''sweep_interval'' then map_option (\<lambda>x. c\<lparr>cf_SweepInterval := x\<rparr>) (into_string v (cf_SweepInterval c))
      else map_option (\<lambda>x. c\<lparr>cf_WarningWindow := x\<rparr>) (into_string v (cf_WarningWindow c)))"

definition unmarshalConfig :: "jval \<Rightarrow> Config option" where
  "unmarshalConfig v = into_struct put_Config [''api_server'', ''metrics_addr'', ''sweep_interval'', ''warning_window''] v
     \<lparr>cf_APIServer = None, cf_MetricsAddr = [], cf_SweepInterval = [], cf_WarningWindow = []\<rparr>"

text \<open>The keys of the top-level object, as \<open>map[string]json.RawMessage\<close> has them.\<close>

definition top_keys :: "jval \<Rightarrow> string list option" where
  "top_keys v = (case v of JNull \<Rightarrow> Some [] | JObject kvs \<Rightarrow> Some (map fst kvs) | _ \<Rightarrow> None)"

definition Load :: "(string \<Rightarrow> string option) \<Rightarrow> (string \<Rightarrow> jval option) \<Rightarrow> string \<Rightarrow> ConfigErr + Config" where
  "Load readFile parseJSON path =
     (case readFile path of None \<Rightarrow> Inl ErrReadFile
      | Some text \<Rightarrow>
     (case parseJSON text of None \<Rightarrow> Inl ErrParse
      | Some v \<Rightarrow>
     (case top_keys v of None \<Rightarrow> Inl ErrParse
      | Some keys \<Rightarrow>
        if ''hosts'' \<in> set keys then Inl ErrHostsKey
        else
          (case unmarshalConfig v of None \<Rightarrow> Inl ErrParse
           | Some cfg0 \<Rightarrow>
             let cfg = (if cf_MetricsAddr cfg0 = [] then cfg0\<lparr>cf_MetricsAddr := DefaultMetricsAddr\<rparr> else cfg0)
             in (case Config_Validate cfg of Some e \<Rightarrow> Inl e | None \<Rightarrow> Inr cfg)))))"

subsection \<open>The sweeper's timings\<close>

definition DefaultSweepInterval :: Duration where "DefaultSweepInterval = 10 * second"

text \<open>\<open>NewSweeper\<close>: zero or negative timings are replaced by the defaults. \<open>main\<close> ignores the
  error of \<open>ParseDuration\<close>, whose value is then zero.\<close>

definition NewSweeper_timings :: "Duration \<Rightarrow> Duration \<Rightarrow> Duration \<times> Duration" where
  "NewSweeper_timings tickInterval warningWindow =
     (if tickInterval \<le> 0 then DefaultSweepInterval else tickInterval,
      if warningWindow \<le> 0 then DefaultWarningWindow else warningWindow)"

definition main_timings :: "Config \<Rightarrow> Duration \<times> Duration" where
  "main_timings cfg =
     NewSweeper_timings (case ParseDuration (cf_SweepInterval cfg) of None \<Rightarrow> 0 | Some d \<Rightarrow> d)
       (case ParseDuration (cf_WarningWindow cfg) of None \<Rightarrow> 0 | Some d \<Rightarrow> d)"


section \<open>Facts\<close>

subsection \<open>Whole numbers of a unit\<close>

lemma digit_char: "k < 10 \<Longrightarrow> digit (char_of (48 + k)) = int k \<and> is_digit (char_of (48 + k))"
proof -
  assume "k < 10"
  then have "k \<in> {0, 1, 2, 3, 4, 5, 6, 7, 8, 9}" by auto
  then show ?thesis by (elim insertE emptyE; hypsubst; code_simp)
qed

lemma decimal_digits: "list_all is_digit (decimal n) \<and> decimal n \<noteq> []"
proof (induction n rule: decimal.induct)
  case (1 n)
  then show ?case using digit_char [of "n mod 10"] digit_char [of n]
    by (subst (1 2) decimal.simps) simp
qed

lemma leadingInt_snoc:
  "leadingInt x (cs @ [c]) = (case leadingInt x cs of None \<Rightarrow> None
     | Some y \<Rightarrow> if y > 2 ^ 63 div 10 \<or> y * 10 + digit c > 2 ^ 63 then None else Some (y * 10 + digit c))"
  by (induction cs arbitrary: x) auto

lemma leadingInt_decimal: "leadingInt 0 (decimal n) = (if int n \<le> 2 ^ 63 then Some (int n) else None)"
proof (induction n rule: decimal.induct)
  case (1 n)
  show ?case
  proof (cases "n < 10")
    case True
    then show ?thesis using digit_char [of n] by (subst decimal.simps) simp
  next
    case False
    have split: "int n = int (n div 10) * 10 + int (n mod 10)" by presburger
    have "n mod 10 < 10" by simp
    then show ?thesis using 1 False digit_char [of "n mod 10"] split
      by (subst decimal.simps) (auto simp: leadingInt_snoc)
  qed
qed

lemma unitMap_unit:
  "unitMap u = Some k \<Longrightarrow> 0 < k \<and> u \<noteq> [] \<and> list_all (\<lambda>c. c \<noteq> CHR ''.'' \<and> \<not> is_digit c) u"
  by (auto simp: unitMap_def is_digit_def split: if_splits)

lemma take_drop_while:
  "list_all P xs \<Longrightarrow> ys = [] \<or> \<not> P (hd ys) \<Longrightarrow> takeWhile P (xs @ ys) = xs \<and> dropWhile P (xs @ ys) = ys"
  by (induction xs) (cases ys; auto)+

lemma div_less_iff: "0 < k \<Longrightarrow> K div k < n \<longleftrightarrow> K < n * k" for K k n :: int
proof -
  assume k: "0 < k"
  have "n * k \<le> K" if "n \<le> K div k"
    using mult_right_mono [OF that, of k] k div_mult_mod_eq [of K k] pos_mod_sign [OF k, of K] by linarith
  moreover have "n \<le> K div k" if "n * k \<le> K" using zdiv_mono1 [OF that k] k by simp
  ultimately show ?thesis by linarith
qed

lemma ParseDuration_whole:
  assumes "unitMap u = Some k"
  shows "ParseDuration (decimal n @ u) = (if int n * k < 2 ^ 63 then Some (int n * k) else None)"
proof -
  note unit = unitMap_unit [OF assms]
  let ?s = "decimal n @ u"
  have ds: "list_all is_digit (decimal n)" "decimal n \<noteq> []" using decimal_digits by auto
  then have hd: "is_digit (hd ?s)" "?s \<noteq> []" by (cases "decimal n"; simp)+
  then have sign: "hd ?s \<noteq> CHR ''-''" "hd ?s \<noteq> CHR ''+''" by (auto simp: is_digit_def)
  have hdu: "\<not> is_digit (hd u)" "hd u \<noteq> CHR ''.''" "u \<noteq> []" using unit by (cases u; auto)+
  have tw: "takeWhile is_digit ?s = decimal n" "dropWhile is_digit ?s = u"
    using take_drop_while [OF ds(1), of u] hdu by auto
  have tu: "takeWhile (\<lambda>c. c \<noteq> CHR ''.'' \<and> \<not> is_digit c) u = u" "dropWhile (\<lambda>c. c \<noteq> CHR ''.'' \<and> \<not> is_digit c) u = []"
    using take_drop_while [of "\<lambda>c. c \<noteq> CHR ''.'' \<and> \<not> is_digit c" u "[]"] unit by auto
  have big: "2 ^ 63 div k < int n \<longleftrightarrow> 2 ^ 63 < int n * k" by (rule div_less_iff) (use unit in simp)
  have "int n * 1 \<le> int n * k" using unit by (intro mult_left_mono) auto
  then have "duration_term ?s = (if int n * k \<le> 2 ^ 63 then Some (int n * k, []) else None)"
    using hd hdu ds(2) assms big
    by (auto simp: duration_term_def tw tu Let_def leadingInt_decimal split: option.splits)
  then have "duration_terms ?s 0 = (if int n * k \<le> 2 ^ 63 then Some (int n * k) else None)"
    using ds(2) unit by (subst duration_terms.simps) (auto simp: duration_terms.simps [of "[]"] Let_def)
  moreover have "?s \<noteq> ''0''" using hdu ds by (cases "decimal n") (auto simp: append_eq_Cons_conv)
  ultimately show ?thesis using ds(2) sign by (auto simp: ParseDuration_def Let_def)
qed

text \<open>C29: a timing given as a whole number of a unit is accepted exactly when it is positive and
  fits a duration: the sweeper can be configured with every positive number of nanoseconds below
  two to the 63rd, in any unit, and with nothing larger.\<close>

theorem validatePositiveDuration_whole:
  assumes "unitMap u = Some k"
  shows "validatePositiveDuration field (decimal n @ u) = None \<longleftrightarrow> 0 < n \<and> int n * k < 2 ^ 63"
  using unitMap_unit [OF assms] decimal_digits [of n]
  by (auto simp: validatePositiveDuration_def ParseDuration_whole [OF assms] mult_le_0_iff)

theorem validatePositiveDuration_whole_witness:
  "validatePositiveDuration ''sweep_interval'' (decimal 9223372036 @ ''s'') = None \<and>
   validatePositiveDuration ''sweep_interval'' (decimal 9223372037 @ ''s'') \<noteq> None"
proof -
  have "unitMap ''s'' = Some 1000000000" by code_simp
  from validatePositiveDuration_whole [OF this, of "''sweep_interval''" 9223372036]
    validatePositiveDuration_whole [OF this, of "''sweep_interval''" 9223372037]
  show ?thesis by simp
qed

subsection \<open>A loaded configuration\<close>

lemma Load_Inr:
  assumes "Load readFile parseJSON path = Inr cfg"
  shows "Config_Validate cfg = None \<and> cf_MetricsAddr cfg \<noteq> []"
  using assms by (auto simp: Load_def Let_def DefaultMetricsAddr_def split: option.splits if_splits)

lemma validatePositiveDuration_None:
  "validatePositiveDuration field s = None \<longleftrightarrow> s = [] \<or> (\<exists>d. ParseDuration s = Some d \<and> 0 < d)"
  by (auto simp: validatePositiveDuration_def split: option.splits)

text \<open>C28: what \<open>Load\<close> accepts, the manager can run with. Whatever the file holds, a configuration
  that loads has an API server with an address and a consistent TLS mode (either insecure and
  nothing else, or a certificate and key, with a client CA if clients are validated) and a metrics
  address; and the sweeper built from it ticks with positive timings, the configured ones where
  given and the defaults otherwise.\<close>

theorem Load_usable:
  assumes "Load readFile parseJSON path = Inr cfg" and "main_timings cfg = (interval, window)"
  shows "cf_MetricsAddr cfg \<noteq> [] \<and>
    (\<exists>a t. cf_APIServer cfg = Some a \<and> as_Addr a \<noteq> [] \<and> t = as_TLS a \<and>
       (if st_Insecure t then st_CertFile t = [] \<and> st_KeyFile t = [] \<and> \<not> st_ValidateClient t \<and> st_ClientCAFile t = []
        else st_CertFile t \<noteq> [] \<and> st_KeyFile t \<noteq> [] \<and> (st_ValidateClient t \<longrightarrow> st_ClientCAFile t \<noteq> []))) \<and>
    0 < interval \<and> 0 < window \<and>
    (if cf_SweepInterval cfg = [] then interval = DefaultSweepInterval else ParseDuration (cf_SweepInterval cfg) = Some interval) \<and>
    (if cf_WarningWindow cfg = [] then window = DefaultWarningWindow else ParseDuration (cf_WarningWindow cfg) = Some window)"
proof -
  have valid: "Config_Validate cfg = None" and addr: "cf_MetricsAddr cfg \<noteq> []" using Load_Inr [OF assms(1)] by auto
  then obtain a where a: "cf_APIServer cfg = Some a" "APIServerConfig_Validate a = None"
    and ds: "validatePositiveDuration ''sweep_interval'' (cf_SweepInterval cfg) = None"
      "validatePositiveDuration ''warning_window'' (cf_WarningWindow cfg) = None"
    by (auto simp: Config_Validate_def split: option.splits)
  have tls: "as_Addr a \<noteq> []" "ServerTLSConfig_Validate (as_TLS a) = None"
    using a(2) by (auto simp: APIServerConfig_Validate_def split: if_splits)
  have default: "ParseDuration [] = None" "0 < DefaultSweepInterval" "0 < DefaultWarningWindow" by code_simp+
  have "0 < interval \<and> (if cf_SweepInterval cfg = [] then interval = DefaultSweepInterval else ParseDuration (cf_SweepInterval cfg) = Some interval)"
    "0 < window \<and> (if cf_WarningWindow cfg = [] then window = DefaultWarningWindow else ParseDuration (cf_WarningWindow cfg) = Some window)"
    using ds assms(2) default by (auto simp: validatePositiveDuration_None main_timings_def NewSweeper_timings_def)
  moreover have "if st_Insecure (as_TLS a) then st_CertFile (as_TLS a) = [] \<and> st_KeyFile (as_TLS a) = [] \<and> \<not> st_ValidateClient (as_TLS a) \<and> st_ClientCAFile (as_TLS a) = []
        else st_CertFile (as_TLS a) \<noteq> [] \<and> st_KeyFile (as_TLS a) \<noteq> [] \<and> (st_ValidateClient (as_TLS a) \<longrightarrow> st_ClientCAFile (as_TLS a) \<noteq> [])"
    using tls(2) by (auto simp: ServerTLSConfig_Validate_def split: if_splits)
  ultimately show ?thesis using a(1) tls(1) addr by blast
qed

text \<open>A settings file, as a JSON value.\<close>

definition sample_settings :: jval where
  "sample_settings = JObject [(''api_server'', JObject [(''Addr'', JString '':8080''), (''tls'', JObject [(''insecure'', JBool True)])]),
     (''sweep_interval'', JString ''2s''), (''comment'', JNumber ''1'')]"

definition sample_cfg :: Config where
  "sample_cfg = \<lparr>cf_APIServer = Some (zero_APIServer\<lparr>as_Addr := '':8080'',
       as_TLS := (as_TLS zero_APIServer)\<lparr>st_Insecure := True\<rparr>\<rparr>),
     cf_MetricsAddr = '':9090'', cf_SweepInterval = ''2s'', cf_WarningWindow = []\<rparr>"

theorem Load_usable_witness:
  "Load (\<lambda>_. Some []) (\<lambda>_. Some sample_settings) ''poolmgr.json'' = Inr sample_cfg \<and>
   main_timings sample_cfg = (2000000000, DefaultWarningWindow) \<and> (0::int) < 2000000000 \<and> 0 < DefaultWarningWindow"
proof -
  have load: "Load (\<lambda>_. Some []) (\<lambda>_. Some sample_settings) ''poolmgr.json'' = Inr sample_cfg" by code_simp
  moreover have t: "main_timings sample_cfg = (2000000000, DefaultWarningWindow)" by code_simp
  ultimately show ?thesis using Load_usable [OF load t] by simp
qed

end
