(* ===== verification/Server.thy ===== *)
theory Server
  imports Config Flint
begin

text \<open>
  Model of \<^verbatim>\<open>src/internal/server/server.go\<close>: the TLS mode of the API server and the basic-auth
  check in front of every handler. The files and the parsing of certificates are the parameters
  of \<open>dialer\<close>; \<open>grpc.NewServer\<close> is the record of the options it is given, and a call runs
  through the interceptors in their order. Log lines are not modelled, nor are the metrics
  interceptors \<open>main\<close> adds as \<open>extraOpts\<close>, which pass every call on.
\<close>

section \<open>Definitions\<close>

text \<open>\<open>base64.StdEncoding.EncodeToString\<close>.\<close>

definition alphabet :: string where
  "alphabet = ''ABCDEFGHIJKLMNOPQRSTUVWXYZabcdefghijklmnopqrstuvwxyz0123456789+/''"

definition enc64 :: "nat \<Rightarrow> char" where
  "enc64 i = alphabet ! i"

definition byte :: "char \<Rightarrow> nat" where
  "byte c = of_char c"

fun EncodeToString :: "string \<Rightarrow> string" where
  "EncodeToString [] = []"
| "EncodeToString [a] = [enc64 (byte a div 4), enc64 (byte a mod 4 * 16), CHR ''='', CHR ''='']"
| "EncodeToString [a, b] =
     [enc64 (byte a div 4), enc64 (byte a mod 4 * 16 + byte b div 16), enc64 (byte b mod 16 * 4), CHR ''='']"
| "EncodeToString (a # b # c # cs) =
     enc64 (byte a div 4) # enc64 (byte a mod 4 * 16 + byte b div 16) #
     enc64 (byte b mod 16 * 4 + byte c div 64) # enc64 (byte c mod 64) # EncodeToString cs"

text \<open>\<open>strings.EqualFold\<close> against the six bytes of the prefix: a text of six bytes has six runes
  only if all are ASCII, so that folding is that of ASCII letters.\<close>

definition EqualFold :: "string \<Rightarrow> string \<Rightarrow> bool" where
  "EqualFold s t \<longleftrightarrow> map lower s = map lower t"

datatype AuthErr = errMissingAuth | errInvalidAuth

text \<open>The check of \<open>basicAuthInterceptors\<close>. The metadata is what \<open>md.Get("authorization")\<close>
  returns, if the call carries metadata at all.\<close>

definition auth_check :: "string \<Rightarrow> string list option \<Rightarrow> AuthErr option" where
  "auth_check token md =
     (let expected = EncodeToString token; prefix = ''basic '' in
      case md of None \<Rightarrow> Some errMissingAuth
      | Some values \<Rightarrow>
        (case values of [] \<Rightarrow> Some errMissingAuth
         | v # _ \<Rightarrow>
           if length v < length prefix \<or> \<not> EqualFold (take (length prefix) v) prefix then Some errMissingAuth
           else if drop (length prefix) v \<noteq> expected then Some errInvalidAuth
           else None))"

datatype Interceptor = LoggingInterceptor | BasicAuthInterceptor string

text \<open>The server's transport: its certificate and key, and the client CAs if client certificates
  are required.\<close>

record ServerCreds =
  sc_Cert :: "string \<times> string"
  sc_ClientCAs :: "string option"

record GRPCServer =
  gs_Creds :: "ServerCreds option"
  gs_Interceptors :: "Interceptor list"

datatype ServerErr = ErrConfig ConfigErr | ErrLoadCert | ErrReadClientCA | ErrNoCerts

definition loadServerTLS :: "dialer \<Rightarrow> ServerTLSConfig \<Rightarrow> ServerErr + ServerCreds" where
  "loadServerTLS D t =
     (if \<not> d_LoadX509KeyPair D (st_CertFile t) (st_KeyFile t) then Inl ErrLoadCert
      else if st_ValidateClient t then
        (case d_ReadFile D (st_ClientCAFile t) of None \<Rightarrow> Inl ErrReadClientCA
         | Some caPEM \<Rightarrow>
           if \<not> d_HasCerts D caPEM then Inl ErrNoCerts
           else Inr \<lparr>sc_Cert = (st_CertFile t, st_KeyFile t), sc_ClientCAs = Some caPEM\<rparr>)
      else Inr \<lparr>sc_Cert = (st_CertFile t, st_KeyFile t), sc_ClientCAs = None\<rparr>)"

definition Server_New :: "dialer \<Rightarrow> APIServerConfig \<Rightarrow> ServerErr + GRPCServer" where
  "Server_New D cfg =
     (case APIServerConfig_Validate cfg of Some e \<Rightarrow> Inl (ErrConfig e)
      | None \<Rightarrow>
        (case (if st_Insecure (as_TLS cfg) then Inr None else map_sum id Some (loadServerTLS D (as_TLS cfg))) of
           Inl e \<Rightarrow> Inl e
         | Inr creds \<Rightarrow>
           Inr \<lparr>gs_Creds = creds,
                gs_Interceptors = LoggingInterceptor #
                  (if as_BasicAuthToken cfg \<noteq> [] then [BasicAuthInterceptor (as_BasicAuthToken cfg)] else [])\<rparr>))"

text \<open>A call: the interceptors wrap the handler, the first one outermost; the auth interceptor
  answers with its error and does not run the handler.\<close>

fun run_interceptors :: "Interceptor list \<Rightarrow> string list option \<Rightarrow> (unit \<Rightarrow> Code + 'a) \<Rightarrow> Code + 'a" where
  "run_interceptors [] md handler = handler ()"
| "run_interceptors (LoggingInterceptor # is) md handler = run_interceptors is md handler"
| "run_interceptors (BasicAuthInterceptor token # is) md handler =
     (case auth_check token md of Some _ \<Rightarrow> Inl Unauthenticated | None \<Rightarrow> run_interceptors is md handler)"

definition call :: "GRPCServer \<Rightarrow> string list option \<Rightarrow> (unit \<Rightarrow> Code + 'a) \<Rightarrow> Code + 'a" where
  "call srv = run_interceptors (gs_Interceptors srv)"

section \<open>Base64 is injective\<close>

lemma alphabet: "length alphabet = 64" "distinct alphabet" "CHR ''='' \<notin> set alphabet"
  by code_simp+

lemma enc64_inj: "i < 64 \<Longrightarrow> j < 64 \<Longrightarrow> enc64 i = enc64 j \<longleftrightarrow> i = j"
  using alphabet by (simp add: enc64_def nth_eq_iff_index_eq)

lemma enc64_pad: "i < 64 \<Longrightarrow> enc64 i \<noteq> CHR ''='' \<and> CHR ''='' \<noteq> enc64 i"
proof -
  assume "i < 64"
  then have "enc64 i \<in> set alphabet" using alphabet(1) nth_mem [of i alphabet] by (simp add: enc64_def)
  then show ?thesis using alphabet(3) by metis
qed

lemma byte_less [simp]: "byte c < 256"
  using nat_of_char_less_256 by (simp add: byte_def)

lemma byte_inj: "byte a = byte b \<longleftrightarrow> a = b"
  by (simp add: byte_def)

text \<open>The six-bit groups: each is in range, and two equal sums have equal parts.\<close>

lemma div_byte: "byte a div 4 < 64" "byte a div 16 < 16" "byte a div 64 < 4"
  by (rule less_mult_imp_div_less, simp)+

lemma sextets [simp]:
  "byte a div 4 < 64" "byte a mod 4 * 16 < 64" "byte a mod 4 * 16 + byte b div 16 < 64"
  "byte b mod 16 * 4 < 64" "byte b mod 16 * 4 + byte c div 64 < 64" "byte c mod 64 < 64"
proof -
  have "byte a mod 4 < 4" "byte b mod 16 < 16" by simp_all
  then show "byte a mod 4 * 16 < 64" "byte a mod 4 * 16 + byte b div 16 < 64" "byte b mod 16 * 4 < 64"
    "byte b mod 16 * 4 + byte c div 64 < 64"
    using div_byte [of b] div_byte [of c] by linarith+
qed (use div_byte in simp_all)

lemma sum_parts:
  fixes x y :: nat
  shows "r < k \<Longrightarrow> s < k \<Longrightarrow> x * k + r = y * k + s \<longleftrightarrow> x = y \<and> r = s"
  by (metis add.commute div_mult_self3 div_less mod_less mod_mult_self3 add_0 less_nat_zero_code)

lemma join_byte: "byte a div k = byte b div k \<Longrightarrow> byte a mod k = byte b mod k \<Longrightarrow> a = b"
  by (metis byte_inj div_mult_mod_eq)

lemma EncodeToString_inj: "EncodeToString xs = EncodeToString ys \<longleftrightarrow> xs = ys"
proof (induction xs arbitrary: ys rule: EncodeToString.induct)
  case 1
  then show ?case by (cases ys rule: EncodeToString.cases) auto
next
  case (2 a)
  then show ?case
    by (cases ys rule: EncodeToString.cases) (auto simp: enc64_inj enc64_pad intro: join_byte)
next
  case (3 a b)
  then show ?case
    by (cases ys rule: EncodeToString.cases)
      (auto simp: enc64_inj enc64_pad sum_parts [of _ 16] div_byte intro: join_byte)
next
  case (4 a b c cs)
  then show ?case
    by (cases ys rule: EncodeToString.cases)
      (auto simp: enc64_inj enc64_pad sum_parts [of _ 16] sum_parts [of _ 4] div_byte intro: join_byte)
qed

section \<open>Properties\<close>

text \<open>A call that presents a token, in any case of the scheme's letters.\<close>

definition presents :: "string list option \<Rightarrow> string \<Rightarrow> bool" where
  "presents md token \<longleftrightarrow> (\<exists>scheme rest. md = Some ((scheme @ EncodeToString token) # rest) \<and> map lower scheme = ''basic '')"

lemma presentsE:
  "presents md token \<Longrightarrow> (\<And>s r. md = Some ((s @ EncodeToString token) # r) \<Longrightarrow> map lower s = ''basic '' \<Longrightarrow> P) \<Longrightarrow> P"
  unfolding presents_def by (elim exE conjE)

lemma presentsI: "md = Some ((s @ EncodeToString token) # r) \<Longrightarrow> map lower s = ''basic '' \<Longrightarrow> presents md token"
  unfolding presents_def by (intro exI conjI)

lemma prefix: "map lower ''basic '' = ''basic ''" "length ''basic '' = 6"
  by code_simp+

lemma auth_check_None: "auth_check token md = None \<longleftrightarrow> presents md token"
proof
  assume "auth_check token md = None"
  then obtain v vs where md: "md = Some (v # vs)"
    by (auto simp: auth_check_def Let_def split: option.splits list.splits)
  have "map lower (take 6 v) = ''basic '' \<and> drop 6 v = EncodeToString token"
    using \<open>auth_check token md = None\<close> unfolding auth_check_def EqualFold_def Let_def prefix md option.case list.case
    by (metis option.distinct(1))
  then have v: "map lower (take 6 v) = ''basic ''" "drop 6 v = EncodeToString token" by blast+
  have "v = take 6 v @ EncodeToString token" unfolding v(2) [symmetric] by (rule append_take_drop_id [symmetric])
  with md have "md = Some ((take 6 v @ EncodeToString token) # vs)" by (rule back_subst [of "\<lambda>x. md = Some (x # vs)"])
  then show "presents md token" using v(1) by (rule presentsI)
next
  assume "presents md token"
  then obtain scheme rest where s: "md = Some ((scheme @ EncodeToString token) # rest)" "map lower scheme = ''basic ''"
    by (rule presentsE)
  from arg_cong [OF s(2), of length] have "length scheme = 6" by simp
  then show "auth_check token md = None" using s unfolding auth_check_def EqualFold_def Let_def prefix by simp
qed

text \<open>C25: the API server lets a call through exactly when it should. A server that could be built
  from a configuration with a token runs the handler only for calls whose first authorization
  header presents that very token, and answers Unauthenticated to all others, in particular to
  one that presents a different token; without a token it runs every handler. It speaks plain
  text only if the configuration says insecure, and otherwise presents the configured
  certificate, requiring client certificates exactly if they are to be validated.\<close>

theorem Server_New_guards_calls:
  assumes "Server_New D cfg = Inr srv"
  shows "call srv md handler =
      (if as_BasicAuthToken cfg = [] \<or> presents md (as_BasicAuthToken cfg) then handler () else Inl Unauthenticated) \<and>
    (presents md token \<and> token \<noteq> as_BasicAuthToken cfg \<and> as_BasicAuthToken cfg \<noteq> [] \<longrightarrow>
      call srv md handler = Inl Unauthenticated) \<and>
    (case gs_Creds srv of
       None \<Rightarrow> st_Insecure (as_TLS cfg)
     | Some c \<Rightarrow> \<not> st_Insecure (as_TLS cfg) \<and> sc_Cert c = (st_CertFile (as_TLS cfg), st_KeyFile (as_TLS cfg)) \<and>
         (sc_ClientCAs c \<noteq> None \<longleftrightarrow> st_ValidateClient (as_TLS cfg)))"
proof -
  have chain: "gs_Interceptors srv = LoggingInterceptor #
      (if as_BasicAuthToken cfg \<noteq> [] then [BasicAuthInterceptor (as_BasicAuthToken cfg)] else [])"
    using assms by (auto simp: Server_New_def split: option.splits sum.splits if_splits)
  then have run: "call srv md handler =
      (if as_BasicAuthToken cfg = [] \<or> presents md (as_BasicAuthToken cfg) then handler () else Inl Unauthenticated)"
    using auth_check_None [of "as_BasicAuthToken cfg" md] by (auto simp: call_def split: option.splits)
  moreover have "token = as_BasicAuthToken cfg" if "presents md token" "presents md (as_BasicAuthToken cfg)"
  proof -
    from that(1) obtain s r where s: "md = Some ((s @ EncodeToString token) # r)" "map lower s = ''basic ''"
      by (rule presentsE)
    from that(2) obtain s' r' where s': "md = Some ((s' @ EncodeToString (as_BasicAuthToken cfg)) # r')" "map lower s' = ''basic ''"
      by (rule presentsE)
    have "length s = length s'" using arg_cong [OF s(2), of length] arg_cong [OF s'(2), of length] by simp
    moreover have "s @ EncodeToString token = s' @ EncodeToString (as_BasicAuthToken cfg)" using trans [OF s(1) [symmetric] s'(1)] by blast
    ultimately show ?thesis using append_eq_append_conv EncodeToString_inj by metis
  qed
  moreover have "case gs_Creds srv of None \<Rightarrow> st_Insecure (as_TLS cfg)
     | Some c \<Rightarrow> \<not> st_Insecure (as_TLS cfg) \<and> sc_Cert c = (st_CertFile (as_TLS cfg), st_KeyFile (as_TLS cfg)) \<and>
         (sc_ClientCAs c \<noteq> None \<longleftrightarrow> st_ValidateClient (as_TLS cfg))"
    using assms by (auto simp: Server_New_def loadServerTLS_def split: option.splits sum.splits if_splits)
  ultimately show ?thesis by auto
qed

definition sample_server_cfg :: APIServerConfig where
  "sample_server_cfg = zero_APIServer\<lparr>as_Addr := '':8080'', as_TLS := (as_TLS zero_APIServer)\<lparr>st_Insecure := True\<rparr>,
     as_BasicAuthToken := ''secret''\<rparr>"

definition sample_dialer :: dialer where
  "sample_dialer = \<lparr>d_ReadFile = (\<lambda>f. None), d_HasCerts = (\<lambda>p. False), d_LoadX509KeyPair = (\<lambda>c k. False), d_NewClient = (\<lambda>a. True)\<rparr>"

theorem Server_New_guards_calls_witness:
  "\<exists>srv. Server_New sample_dialer sample_server_cfg = Inr srv \<and>
     call srv (Some [''Basic c2VjcmV0'']) (\<lambda>_. Inr ''done'') = Inr ''done'' \<and>
     call srv (Some [''Basic c2VjcmV1'']) (\<lambda>_. Inr ''done'') = Inl Unauthenticated \<and> gs_Creds srv = None"
proof -
  let ?srv = "\<lparr>gs_Creds = None, gs_Interceptors = [LoggingInterceptor, BasicAuthInterceptor ''secret'']\<rparr>"
  have new: "Server_New sample_dialer sample_server_cfg = Inr ?srv" by code_simp
  have tok: "as_BasicAuthToken sample_server_cfg = ''secret''" "EncodeToString ''secret'' = ''c2VjcmV0''"
    "EncodeToString ''secreu'' = ''c2VjcmV1''" "map lower ''Basic '' = ''basic ''" by code_simp+
  have "presents (Some [''Basic c2VjcmV0'']) ''secret''" "presents (Some [''Basic c2VjcmV1'']) ''secreu''"
    by (rule presentsI [of _ "''Basic ''" _ "[]", OF _ tok(4)]; simp only: tok(2,3); simp)+
  then show ?thesis using new
      Server_New_guards_calls [OF new, of "Some [''Basic c2VjcmV0'']" "\<lambda>_. Inr ''done''" "''secret''"]
      Server_New_guards_calls [OF new, of "Some [''Basic c2VjcmV1'']" "\<lambda>_. Inr ''done''" "''secreu''"]
    by (auto simp: tok(1))
qed

end
