(* ===== verification/Metrics.thy ===== *)
theory Metrics
  imports Pool_Admin
begin

text \<open>
  Model of \<^verbatim>\<open>src/internal/metrics/pool_collector.go\<close>: the gauges a scrape computes from the store.
  A gauge sample is its name, its labels and its value, an integer here (\<open>float64\<close> holds every
  count exactly). The collector has a counting function of its own, independent of the
  reconciler's \<open>CountVMs\<close>; the two are proved to agree.
\<close>

section \<open>Definitions\<close>

record vmCounts =
  vc_available :: int
  vc_leased :: int
  vc_provisioning :: int
  vc_quarantined :: int

definition metrics_count_vm :: "VMRecord \<Rightarrow> vmCounts \<Rightarrow> vmCounts" where
  "metrics_count_vm vm counts =
     (case vm_Phase vm of
        AVAILABLE \<Rightarrow> counts\<lparr>vc_available := vc_available counts + 1\<rparr>
      | LEASED \<Rightarrow> counts\<lparr>vc_leased := vc_leased counts + 1\<rparr>
      | PRE_LEASE_HOOK_RUNNING \<Rightarrow> counts\<lparr>vc_leased := vc_leased counts + 1\<rparr>
      | PROVISIONING \<Rightarrow> counts\<lparr>vc_provisioning := vc_provisioning counts + 1\<rparr>
      | CREATE_HOOK_RUNNING \<Rightarrow> counts\<lparr>vc_provisioning := vc_provisioning counts + 1\<rparr>
      | QUARANTINED \<Rightarrow> counts\<lparr>vc_quarantined := vc_quarantined counts + 1\<rparr>
      | _ \<Rightarrow> counts)"

definition metrics_count_vms :: "VMRecord list \<Rightarrow> vmCounts" where
  "metrics_count_vms vs =
     fold metrics_count_vm vs \<lparr>vc_available = 0, vc_leased = 0, vc_provisioning = 0, vc_quarantined = 0\<rparr>"

definition metrics_countVMs :: "env \<Rightarrow> string \<Rightarrow> string \<Rightarrow> (StoreErr + vmCounts) M" where
  "metrics_countVMs E poolName poolNamespace = do {
     r \<leftarrow> storeCall E Detached (\<lambda>_. ListVMsByPool poolName poolNamespace None);
     ret (map_sum id metrics_count_vms r) }"

datatype Gauge = PoolSize | PoolAvailable | PoolLeased | PoolProvisioning | PoolQuarantined

record sample =
  s_gauge :: Gauge
  s_value :: int
  s_poolName :: string
  s_poolNamespace :: string

definition gauges :: "PoolSpec \<Rightarrow> vmCounts \<Rightarrow> sample list" where
  "gauges pool counts =
     map (\<lambda>(g, v). \<lparr>s_gauge = g, s_value = v, s_poolName = ps_Name pool, s_poolNamespace = ps_Namespace pool\<rparr>)
       [(PoolSize, ps_Size pool), (PoolAvailable, vc_available counts), (PoolLeased, vc_leased counts),
        (PoolProvisioning, vc_provisioning counts), (PoolQuarantined, vc_quarantined counts)]"

text \<open>\<open>Collect\<close>: a pool whose VMs cannot be counted is skipped.\<close>

fun collect_pools :: "env \<Rightarrow> PoolSpec list \<Rightarrow> sample list M" where
  "collect_pools E [] = ret []"
| "collect_pools E (pool # specs) = do {
     c \<leftarrow> metrics_countVMs E (ps_Name pool) (ps_Namespace pool);
     rest \<leftarrow> collect_pools E specs;
     ret ((case c of Inl _ \<Rightarrow> [] | Inr counts \<Rightarrow> gauges pool counts) @ rest) }"

definition Collect :: "env \<Rightarrow> sample list M" where
  "Collect E = do {
     r \<leftarrow> storeCall E Detached (\<lambda>_. ListPools (e_codec E));
     case r of Inl _ \<Rightarrow> ret [] | Inr specs \<Rightarrow> collect_pools E specs }"

section \<open>The two counts agree\<close>

text \<open>What the collector makes of the reconciler's counts.\<close>

definition reported :: "VMCounts \<Rightarrow> vmCounts" where
  "reported c = \<lparr>vc_available = Available c, vc_leased = Claiming c + Leased c,
     vc_provisioning = Provisioning c, vc_quarantined = Quarantined c\<rparr>"

lemma count_vm_reported: "reported (count_vm ids vm c) = metrics_count_vm vm (reported c)"
  by (simp add: reported_def metrics_count_vm_def split: VMPhase.split)

lemma count_vms_reported: "metrics_count_vms vs = reported (count_vms ls vs)"
proof -
  have "reported (fold (count_vm ids) vs c) = fold metrics_count_vm vs (reported c)" for ids c
    by (induction vs arbitrary: c) (simp_all add: count_vm_reported del: count_vm.simps)
  then show ?thesis by (simp add: metrics_count_vms_def count_vms_def) (simp add: reported_def zero_counts_def)
qed

section \<open>A scrape and a listing\<close>

definition scraped :: "db \<Rightarrow> PoolSpec list \<Rightarrow> sample list" where
  "scraped d specs = concat (map (\<lambda>s. gauges s (metrics_count_vms (pool_vms d s))) specs)"

lemma wp_metrics_countVMs:
  "undisturbed E \<Longrightarrow> wp (metrics_countVMs E (ps_Name s) (ps_Namespace s))
     (\<lambda>c u. c = Inr (metrics_count_vms (pool_vms (wdb w) s)) \<and> wdb u = wdb w) w"
  by (simp add: metrics_countVMs_def wp_bind wp_return wp_storeCall_undisturbed ListVMsByPool_def pool_vms_def Let_def)

lemma wp_collect_pools:
  assumes E: "undisturbed E"
  shows "wp (collect_pools E specs) (\<lambda>gs u. gs = scraped (wdb w) specs) w"
proof (induction specs arbitrary: w)
  case (Cons s specs)
  show ?case unfolding collect_pools.simps
  proof (rule wp_seq [OF wp_metrics_countVMs [OF E]], rule wp_seq [OF Cons], goal_cases)
    case (1 c u gs v)
    then show ?case by (simp add: wp_return scraped_def)
  qed
qed (simp add: wp_return scraped_def)

definition listed :: "db \<Rightarrow> PoolSpec \<Rightarrow> Pool" where
  "listed d s = \<lparr>pool_Spec = s, pool_Status = countsToStatus (count_vms (pool_leases d s) (pool_vms d s))\<rparr>"

lemma wp_list_pools:
  assumes E: "undisturbed E"
  shows "wp (list_pools E specs)
    (\<lambda>r _. case r of Inl _ \<Rightarrow> \<exists>n. e_cancelled E n | Inr ps \<Rightarrow> ps = map (listed (wdb w)) specs) w"
proof (induction specs arbitrary: w)
  case (Cons s specs)
  show ?case unfolding list_pools.simps
  proof (rule wp_seq [OF wp_CountVMs [OF E]], rule wp_sum, goal_cases)
    case (1 c u e)
    then show ?case by (simp add: wp_return)
  next
    case (2 c u counts)
    then have u: "wdb u = wdb w" "counts = count_vms (pool_leases (wdb w) s) (pool_vms (wdb w) s)" by auto
    show ?case
    proof (rule wp_seq [OF Cons])
      fix r :: "Code + Pool list" and v :: world
      assume "case r of Inl _ \<Rightarrow> \<exists>n. e_cancelled E n | Inr ps \<Rightarrow> ps = map (listed (wdb u)) specs"
      then show "wp (ret (case r of Inl e \<Rightarrow> Inl e | Inr ps \<Rightarrow> Inr (\<lparr>pool_Spec = s, pool_Status = countsToStatus counts\<rparr> # ps)))
          (\<lambda>r _. case r of Inl _ \<Rightarrow> \<exists>n. e_cancelled E n | Inr ps \<Rightarrow> ps = map (listed (wdb w)) (s # specs)) v"
        using u by (cases r) (auto simp: wp_return listed_def)
    qed
  qed
qed (simp add: wp_return)

text \<open>The gauges of a pool as the API lists it.\<close>

definition pool_gauges :: "Pool \<Rightarrow> sample list" where
  "pool_gauges p = gauges (pool_Spec p) \<lparr>vc_available = pst_AvailableCount (pool_Status p), vc_leased = pst_LeasedCount (pool_Status p),
     vc_provisioning = pst_ProvisioningCount (pool_Status p), vc_quarantined = pst_QuarantinedCount (pool_Status p)\<rparr>"

lemma status_reported:
  assumes "int (length vs) < 2 ^ 31"
  shows "pool_gauges \<lparr>pool_Spec = s, pool_Status = countsToStatus (count_vms ls vs)\<rparr> = gauges s (metrics_count_vms vs)"
proof -
  let ?c = "count_vms ls vs"
  have "nonneg ?c" "total ?c < 2 ^ 31" using count_vms_bounds [of ls vs] assms by auto
  then have "in_int32 (Available ?c)" "in_int32 (Claiming ?c + Leased ?c)" "in_int32 (Provisioning ?c)" "in_int32 (Quarantined ?c)"
    by (auto simp: nonneg_def total_def in_int32_def)
  then show ?thesis unfolding count_vms_reported [of vs ls]
    by (simp add: pool_gauges_def countsToStatus_def reported_def)
qed

lemma length_pool_vms: "length (pool_vms d s) \<le> length (vms d)"
  by (simp add: pool_vms_def ListVMsByPool_def)

text \<open>C26: the metrics and the API tell the same story. On the same database, a scrape emits for
  every pool exactly the size and the counts that listing the pools reports, although the
  collector counts by a function of its own that does not look at leases.\<close>

theorem Collect_equals_ListPools:
  assumes "undisturbed E" and "int (length (vms (wdb w))) < 2 ^ 31"
    and "run_state (API_ListPools E None) w = (Inr ps, w1)"
  shows "fst (run_state (Collect E) w) = concat (map pool_gauges ps)"
proof -
  have all: "int (length (pool_vms (wdb w) s)) < 2 ^ 31" for s using length_pool_vms [of "wdb w" s] assms(2) by linarith
  have list: "wp (API_ListPools E None) (\<lambda>r _. r = Inr ps) w" by (simp add: wp_def assms(3))
  then have "ctx_ok E Ctx (wstep w)" using assms(1)
    by (auto simp: API_ListPools_def wp_bind wp_return wp_storeCall_undisturbed Let_def split: if_splits)
  with list obtain specs where specs: "ListPools (e_codec E) (wdb w) = Inr (specs, wdb w)"
      and run: "wp (list_pools E specs) (\<lambda>r _. r = Inr ps) (w\<lparr>wstep := Suc (wstep w)\<rparr>)" using assms(1)
    by (cases "ListPools (e_codec E) (wdb w)")
      (auto simp: API_ListPools_def wp_bind wp_return wp_storeCall_undisturbed Let_def ListPools_def split: sum.splits)
  have "ps = map (listed (wdb w)) specs"
    using run wp_list_pools [OF assms(1), of specs "w\<lparr>wstep := Suc (wstep w)\<rparr>"] by (auto simp: wp_def split: prod.splits)
  then have "concat (map pool_gauges ps) = scraped (wdb w) specs"
    by (simp add: scraped_def comp_def listed_def status_reported [OF all])
  moreover have "wp (Collect E) (\<lambda>gs _. gs = scraped (wdb w) specs) w"
    using specs assms(1) wp_collect_pools [OF assms(1), of specs "w\<lparr>wstep := Suc (wstep w)\<rparr>"]
    by (simp add: Collect_def wp_bind wp_storeCall_undisturbed Let_def)
  ultimately show ?thesis by (simp add: wp_run)
qed

theorem Collect_equals_ListPools_witness:
  "\<exists>ps w1. run_state (API_ListPools sample_env None) (sample_world sample_pool_db) = (Inr ps, w1) \<and>
     fst (run_state (Collect sample_env) (sample_world sample_pool_db)) = concat (map pool_gauges ps) \<and>
     map s_value (concat (map pool_gauges ps)) = [3, 2, 1, 0, 0]"
proof -
  let ?r = "run_state (API_ListPools sample_env None) (sample_world sample_pool_db)"
  have "is_ok (fst ?r)" "int (length (vms (wdb (sample_world sample_pool_db)))) < 2 ^ 31" by code_simp+
  then obtain ps w1 where r: "?r = (Inr ps, w1)" by (metis is_okE prod.collapse)
  have "map s_value (concat (map pool_gauges (case fst ?r of Inr ps \<Rightarrow> ps | Inl _ \<Rightarrow> []))) = [3, 2, 1, 0, 0]" by code_simp
  then show ?thesis using r Collect_equals_ListPools [OF undisturbed_sample \<open>_ < _\<close> r] by simp
qed

end
