(* ===== verification/Invariants.thy ===== *)
theory Invariants
  imports Provision_Inv
begin

text \<open>
  A Hoare logic for invariants of the database: what a handler keeps, step by step, while the
  other goroutines keep it too (\<open>stable\<close>). The invariants themselves are those of the components.
\<close>

section \<open>An invariant through a handler\<close>

text \<open>From every world that satisfies the invariant, the handler ends in one that does, with an
  answer that satisfies \<open>P\<close>.\<close>

definition holds :: "(db \<Rightarrow> bool) \<Rightarrow> ('a \<Rightarrow> bool) \<Rightarrow> 'a M \<Rightarrow> bool" where
  "holds I P m \<longleftrightarrow> (\<forall>w. I (wdb w) \<longrightarrow> wp m (\<lambda>a w'. I (wdb w') \<and> P a) w)"

abbreviation keeps_inv :: "(db \<Rightarrow> bool) \<Rightarrow> 'a M \<Rightarrow> bool" where
  "keeps_inv I \<equiv> holds I (\<lambda>_. True)"

named_theorems holds_intros "which handlers keep an invariant of the database"

lemma holds_return: "P x \<Longrightarrow> holds I P (State_Monad.return x)"
  by (simp add: holds_def wp_return)

lemma holds_bind:
  assumes "holds I P m" "\<And>a. P a \<Longrightarrow> holds I Q (f a)"
  shows "holds I Q (State_Monad.bind m f)"
  unfolding holds_def
proof (intro allI impI)
  fix w :: world assume "I (wdb w)"
  then have "wp m (\<lambda>a w'. I (wdb w') \<and> P a) w" using assms(1) by (simp add: holds_def)
  then show "wp (State_Monad.bind m f) (\<lambda>a w'. I (wdb w') \<and> Q a) w"
    by (rule wp_seq) (use assms(2) in \<open>auto simp: holds_def\<close>)
qed

lemma keeps_inv_return [holds_intros]: "keeps_inv I (State_Monad.return x)"
  by (rule holds_return) simp

lemma keeps_inv_bind [holds_intros]: "keeps_inv I m \<Longrightarrow> (\<And>a. keeps_inv I (f a)) \<Longrightarrow> keeps_inv I (State_Monad.bind m f)"
  by (rule holds_bind)

lemma holds_cases [holds_intros]:
  "(b \<Longrightarrow> holds I P m) \<Longrightarrow> (\<not> b \<Longrightarrow> holds I P m') \<Longrightarrow> holds I P (if b then m else m')"
  "(\<And>e. s = Inl e \<Longrightarrow> holds I P (f e)) \<Longrightarrow> (\<And>a. s = Inr a \<Longrightarrow> holds I P (g a)) \<Longrightarrow> holds I P (case s of Inl e \<Rightarrow> f e | Inr a \<Rightarrow> g a)"
  by (auto split: sum.split)

lemma keeps_inv_other [holds_intros]:
  "keeps_inv I fresh" "keeps_inv I (act a)" "keeps_inv I getConns" "keeps_inv I (putConns p)"
  by (simp_all add: holds_def wp_simps)

lemma keeps_inv_steps [holds_intros]:
  "keeps_inv I (Now E)" "keeps_inv I (flint_conn h)" "keeps_inv I (DeleteMicroVM E c h uid)"
  unfolding Now_def flint_conn_def DeleteMicroVM_def Let_def by (intro holds_intros)+

text \<open>The other goroutines keep the invariant, too.\<close>

definition stable :: "env \<Rightarrow> (db \<Rightarrow> bool) \<Rightarrow> bool" where
  "stable E I \<longleftrightarrow> (\<forall>n d. I d \<longrightarrow> I (e_others E n d))"

lemma undisturbed_stable: "undisturbed E \<Longrightarrow> stable E I"
  by (simp add: undisturbed_def stable_def)

lemma holds_storeCall:
  assumes "stable E I" and "\<And>n d a d'. I d \<Longrightarrow> f n d = Inr (a, d') \<Longrightarrow> I d' \<and> P a"
  shows "holds I (\<lambda>r. case r of Inl _ \<Rightarrow> True | Inr a \<Rightarrow> P a) (storeCall E c f)"
  unfolding holds_def
proof (intro allI impI)
  fix w :: world assume "I (wdb w)"
  then have I: "I (e_others E (wstep w) (wdb w))" using assms(1) by (simp add: stable_def)
  show "wp (storeCall E c f) (\<lambda>r w'. I (wdb w') \<and> (case r of Inl _ \<Rightarrow> True | Inr a \<Rightarrow> P a)) w"
  proof (cases "f (wstep w) (e_others E (wstep w) (wdb w))")
    case (Inl e)
    then show ?thesis using I by (simp add: wp_def storeCall_def Let_def)
  next
    case (Inr p)
    then show ?thesis using I assms(2) [OF I, of "wstep w" "fst p" "snd p"] by (cases p) (simp add: wp_def storeCall_def Let_def)
  qed
qed

lemma keeps_inv_storeCall:
  assumes "stable E I" and "\<And>n d a d'. I d \<Longrightarrow> f n d = Inr (a, d') \<Longrightarrow> I d'"
  shows "keeps_inv I (storeCall E c f)"
proof -
  have "holds I (\<lambda>r. case r of Inl _ \<Rightarrow> True | Inr _ \<Rightarrow> True) (storeCall E c f)"
    by (rule holds_storeCall) (use assms in auto)
  then show ?thesis by (simp add: holds_def split: sum.splits)
qed

lemma keeps_inv_read: "stable E I \<Longrightarrow> (\<And>n d a d'. f n d = Inr (a, d') \<Longrightarrow> d' = d) \<Longrightarrow> keeps_inv I (storeCall E c f)"
  by (rule keeps_inv_storeCall) auto

lemma keeps_inv_for_each [holds_intros]: "(\<And>x. x \<in> set xs \<Longrightarrow> keeps_inv I (f x)) \<Longrightarrow> keeps_inv I (for_each f xs)"
proof (induction xs)
  case (Cons x xs)
  then show ?case unfolding for_each.simps by (intro keeps_inv_bind) simp_all
qed (simp add: keeps_inv_return)


text \<open>An invariant that does not mention the events is kept by emitting one.\<close>

definition ignores_events :: "(db \<Rightarrow> bool) \<Rightarrow> bool" where
  "ignores_events I \<longleftrightarrow> (\<forall>d d'. I d \<longrightarrow> pools d' = pools d \<longrightarrow> vms d' = vms d \<longrightarrow> leases d' = leases d \<longrightarrow>
     hosts d' = hosts d \<longrightarrow> placements d' = placements d \<longrightarrow> I d')"

lemma keeps_inv_EmitEvent:
  assumes "stable E I" "ignores_events I"
  shows "keeps_inv I (EmitEvent E c pool uid t)"
proof -
  have "I d'" if "I d" "AppendEvent e d = Inr (i, d')" for e d i d'
  proof -
    have "pools d' = pools d" "vms d' = vms d" "leases d' = leases d" "hosts d' = hosts d" "placements d' = placements d"
      using that(2) by (auto simp: AppendEvent_def Let_def split: sum.splits)
    then show ?thesis using that(1) assms(2) unfolding ignores_events_def by blast
  qed
  then show ?thesis unfolding EmitEvent_def by (intro holds_intros keeps_inv_storeCall [OF assms(1)])
qed

text \<open>Establishing an invariant: a transaction that ends in it, whatever it started from.\<close>

lemma wp_establish:
  assumes "\<And>n d a d'. f n d = Inr (a, d') \<Longrightarrow> I d'"
  shows "wp (storeCall E c f) (\<lambda>r w'. is_ok r \<longrightarrow> I (wdb w')) w"
proof (cases "f (wstep w) (e_others E (wstep w) (wdb w))")
  case (Inr p)
  then show ?thesis using assms [of "wstep w" _ "fst p" "snd p"] by (cases p) (auto simp: wp_def storeCall_def Let_def)
qed (simp add: wp_def storeCall_def Let_def)

lemma wp_True: "wp m (\<lambda>_ _. True) w"
  by (simp add: wp_run)

lemma wp_any: "(\<And>a u. wp (f a) Q u) \<Longrightarrow> wp (State_Monad.bind m f) Q w"
  by (rule wp_seq [OF wp_True])

lemma holds_wp: "holds I P m \<Longrightarrow> I (wdb w) \<Longrightarrow> wp m (\<lambda>a w'. I (wdb w') \<and> P a) w"
  by (simp add: holds_def)

end
