(* ===== verification/Sweeper_Props.thy ===== *)
theory Sweeper_Props
  imports Sweeper Cleanup Invariants
begin

text \<open>
  What the sweeper must leave alone: a lease that has not expired, and its VM. Each step of a
  tick keeps the live lease and its VM, because it only touches rows it has found to be someone
  else's.
\<close>

section \<open>A live lease\<close>

text \<open>The lease and its VM are recorded, and no other row claims either of them.\<close>

definition lives :: "leaseRow \<Rightarrow> vmRow \<Rightarrow> db \<Rightarrow> bool" where
  "lives l r d \<longleftrightarrow> l \<in> set (leases d) \<and> r \<in> set (vms d) \<and> vr_uid r = lr_vmUID l \<and> vr_phase r = LEASED \<and>
     lr_leaseID l \<noteq> [] \<and> distinct (map vr_uid (vms d)) \<and> distinct (map lr_leaseID (leases d)) \<and>
     (\<forall>s \<in> set (vms d). vr_uid s \<noteq> lr_vmUID l \<longrightarrow> GetLeaseId (rowToVM s) \<noteq> lr_leaseID l) \<and>
     (\<forall>k \<in> set (leases d). lr_leaseID k \<noteq> lr_leaseID l \<longrightarrow> lr_vmUID k \<noteq> lr_vmUID l)"

text \<open>A VM record that is someone else's.\<close>

definition other :: "leaseRow \<Rightarrow> VMRecord \<Rightarrow> bool" where
  "other l vm \<longleftrightarrow> vm_Uid vm \<noteq> lr_vmUID l \<and> GetLeaseId vm \<noteq> lr_leaseID l"

lemma lives_other:
  "lives l r d \<Longrightarrow> s \<in> set (vms d) \<Longrightarrow> s \<noteq> r \<Longrightarrow> other l (rowToVM s)"
proof -
  assume I: "lives l r d" and s: "s \<in> set (vms d)" "s \<noteq> r"
  then have "vr_uid s \<noteq> lr_vmUID l" unfolding lives_def distinct_map by (metis inj_onD)
  then show ?thesis using I s by (simp add: lives_def other_def rowToVM_def)
qed

lemma lives_cong: "lives l r d \<Longrightarrow> leases d' = leases d \<Longrightarrow> vms d' = vms d \<Longrightarrow> lives l r d'"
  by (simp add: lives_def)

lemma lives_delete_vm: "lives l r d \<Longrightarrow> uid \<noteq> lr_vmUID l \<Longrightarrow> lives l r (d\<lparr>vms := sql_delete (\<lambda>s. vr_uid s = uid) (vms d)\<rparr>)"
  by (auto simp: lives_def sql_delete_def distinct_map intro: inj_on_subset)

lemma lives_delete_lease: "lives l r d \<Longrightarrow> \<not> P l \<Longrightarrow> lives l r (d\<lparr>leases := sql_delete P (leases d)\<rparr>)"
  by (auto simp: lives_def sql_delete_def distinct_map intro: inj_on_subset)

lemma lives_update_vms:
  assumes "lives l r d" "\<And>s. vr_uid (f s) = vr_uid s" "\<not> P r"
    "\<And>s. P s \<Longrightarrow> GetLeaseId (rowToVM (f s)) \<noteq> lr_leaseID l \<or> GetLeaseId (rowToVM (f s)) = GetLeaseId (rowToVM s)"
  shows "lives l r (d\<lparr>vms := sql_update P f (vms d)\<rparr>)"
proof -
  let ?vs = "sql_update P f (vms d)"
  have uids: "map vr_uid ?vs = map vr_uid (vms d)" using assms(2) by (simp add: sql_update_def)
  have r: "r \<in> set ?vs" using assms(1,3) unfolding set_sql_update lives_def by blast
  have "GetLeaseId (rowToVM s') \<noteq> lr_leaseID l" if s': "s' \<in> set ?vs" "vr_uid s' \<noteq> lr_vmUID l" for s'
  proof -
    obtain s where s: "s \<in> set (vms d)" "s' = (if P s then f s else s)" using s'(1) by (auto simp: sql_update_def)
    then have "vr_uid s \<noteq> lr_vmUID l" using s'(2) assms(2) by (simp split: if_splits)
    then have "GetLeaseId (rowToVM s) \<noteq> lr_leaseID l" using assms(1) s(1) by (simp add: lives_def)
    then show ?thesis using assms(4) [of s] s(2) by (auto split: if_splits)
  qed
  then show ?thesis using assms(1) uids r by (simp add: lives_def)
qed

section \<open>What each step of a tick leaves alone\<close>

lemma inv_EmitEvent [holds_intros]: "stable E (lives l r) \<Longrightarrow> keeps_inv (lives l r) (EmitEvent E c pool uid t)"
  by (rule keeps_inv_EmitEvent) (auto simp: ignores_events_def lives_def)

lemma inv_UpdateVM:
  assumes "stable E (lives l r)" "other l v"
  shows "keeps_inv (lives l r) (UpdateVM E c v)"
proof -
  have "lives l r d'" if I: "lives l r d" and u: "updateVM_exec v d = Inr (a, d')" for d a d'
  proof -
    from u obtain row where row: "vmToRow v = Inr row" by (auto simp: updateVM_exec_def split: sum.splits)
    let ?P = "\<lambda>s. vr_uid s = vr_uid row \<and> (vr_phase s \<noteq> DELETING \<or> vr_phase row = DELETING)"
    note facts = vmToRow_Inr [OF row]
    have d': "d' = d\<lparr>vms := sql_update ?P (update_row row) (vms d)\<rparr>" using u row by (auto simp: updateVM_exec_def Let_def)
    have "vr_uid r = lr_vmUID l" using I by (simp add: lives_def)
    then show ?thesis unfolding d'
      by (intro lives_update_vms [OF I]) (use facts assms(2) in \<open>auto simp: other_def GetLeaseId_def rowToVM_def\<close>)
  qed
  moreover have "lives l r d'" if "lives l r d" "updateVM_missed v d = Inr (a, d')" for d a d'
    using that by (auto simp: updateVM_missed_def split: if_splits)
  ultimately show ?thesis unfolding UpdateVM_def
    by (intro holds_intros keeps_inv_storeCall [OF assms(1)])
qed

lemma inv_EnsureVMDeleted:
  assumes "stable E (lives l r)" "other l vm"
  shows "keeps_inv (lives l r) (EnsureVMDeleted E c vm)"
proof -
  have "lives l r d'" if "lives l r d" "DeleteVMCheckingPool (vm_Uid vm) d = Inr (a, d')" for d a d'
    using that assms(2) lives_delete_vm by (auto simp: DeleteVMCheckingPool_def other_def Let_def split: option.splits)
  then have del: "keeps_inv (lives l r) (storeCall E c (\<lambda>_. DeleteVMCheckingPool (vm_Uid vm)))"
    by (rule keeps_inv_storeCall [OF assms(1)])
  have upd: "keeps_inv (lives l r) (UpdateVM E c (vm\<lparr>vm_Phase := DELETING, vm_UpdatedAt := Some t\<rparr>))" for t
    by (rule inv_UpdateVM [OF assms(1)]) (use assms(2) in \<open>simp add: other_def GetLeaseId_def\<close>)
  have "keeps_inv (lives l r) (EnsureVMDeletedCheckingPool E c vm)"
    unfolding EnsureVMDeletedCheckingPool_def markDeleting_def State_Monad.bind_assoc State_Monad.bind_left_identity
    by (intro holds_intros del upd)
  then show ?thesis unfolding EnsureVMDeleted_def by (intro holds_intros)
qed

lemma inv_FinishVMRelease:
  assumes "stable E (lives l r)" "l_LeaseId lease \<noteq> lr_leaseID l"
  shows "keeps_inv (lives l r) (FinishVMRelease E c pool vm lease nt m)"
proof -
  have "lives l r d'" if "lives l r d" "DeleteLease (l_LeaseId lease) d = Inr (a, d')" for d a d'
    using that assms(2) lives_delete_lease [of l r d "\<lambda>k. lr_leaseID k = l_LeaseId lease"]
    by (auto simp: DeleteLease_def checkRowsAffected_def split: if_splits)
  then show ?thesis unfolding FinishVMRelease_def
    by (intro holds_intros keeps_inv_storeCall assms(1))
qed

lemma inv_FinishVMDeletion:
  assumes "stable E (lives l r)" "other l vm"
  shows "keeps_inv (lives l r) (FinishVMDeletion E c pool vm nt m)"
  unfolding FinishVMDeletion_def
proof (rule holds_bind [where P = "\<lambda>x. case x of Inl _ \<Rightarrow> True | Inr k \<Rightarrow> l_LeaseId k \<noteq> lr_leaseID l"])
  have "lives l r d' \<and> l_LeaseId k \<noteq> lr_leaseID l" if "lives l r d" "GetLease (GetLeaseId vm) d = Inr (k, d')" for d k d'
    using that assms(2) by (auto simp: GetLease_def other_def rowToLease_def dest: find_key_SomeD split: option.splits)
  then show "holds (lives l r) (\<lambda>x. case x of Inl _ \<Rightarrow> True | Inr k \<Rightarrow> l_LeaseId k \<noteq> lr_leaseID l)
      (if GetLeaseId vm \<noteq> [] then storeCall E c (\<lambda>_. GetLease (GetLeaseId vm)) else ret (Inl ErrNotFound))"
    by (intro holds_intros holds_return holds_storeCall [OF assms(1)]) simp_all
next
  fix x :: "StoreErr + LeaseRecord" assume "case x of Inl _ \<Rightarrow> True | Inr k \<Rightarrow> l_LeaseId k \<noteq> lr_leaseID l"
  then show "keeps_inv (lives l r) (case x of Inl _ \<Rightarrow> State_Monad.bind (EmitEvent E c pool (vm_Uid vm) VM_DELETED_DUE_TO_EXPIRY)
        (\<lambda>_. if nt then act (A_NotifyVMDeleted (ps_Name pool) (ps_Namespace pool)) else ret ())
      | Inr l \<Rightarrow> FinishVMRelease E c pool vm l nt m)"
    by (intro holds_intros inv_FinishVMRelease assms(1)) simp
qed


text \<open>The VMs a listing of the DELETING phase returns, or a drain marks, are other ones.\<close>

lemma inv_GetPool [holds_intros]: "stable E (lives l r) \<Longrightarrow> keeps_inv (lives l r) (storeCall E c (\<lambda>_. GetPool C n ns))"
  by (rule keeps_inv_read) (auto simp: GetPool_def split: option.splits sum.splits)

lemma inv_retryOne:
  assumes "stable E (lives l r)" "other l vm"
  shows "keeps_inv (lives l r) (retryOne E dr vm)"
  unfolding retryOne_def
  by (intro holds_intros inv_EnsureVMDeleted inv_FinishVMDeletion assms)

lemma inv_retryPendingDeletions:
  assumes E: "stable E (lives l r)"
  shows "keeps_inv (lives l r) (retryPendingDeletions E)"
  unfolding retryPendingDeletions_def
proof (rule holds_bind [where P = "\<lambda>x. case x of Inl _ \<Rightarrow> True | Inr vs \<Rightarrow> list_all (other l) vs"])
  have "lives l r d' \<and> list_all (other l) vs" if I: "lives l r d" and q: "ListVMsByPhase DELETING d = Inr (vs, d')" for d vs d'
  proof -
    have "vr_phase r \<noteq> DELETING" using I by (simp add: lives_def)
    then have "other l (rowToVM s)" if "s \<in> set (vms d)" "vr_phase s = DELETING" for s
      using that by (intro lives_other [OF I]) auto
    then show ?thesis using q I by (auto simp: ListVMsByPhase_def list_all_iff)
  qed
  then show "holds (lives l r) (\<lambda>x. case x of Inl _ \<Rightarrow> True | Inr vs \<Rightarrow> list_all (other l) vs)
      (storeCall E Ctx (\<lambda>_. ListVMsByPhase DELETING))" by (rule holds_storeCall [OF E])
next
  fix x :: "StoreErr + VMRecord list" assume "case x of Inl _ \<Rightarrow> True | Inr vs \<Rightarrow> list_all (other l) vs"
  then show "keeps_inv (lives l r) (case x of Inl _ \<Rightarrow> ret () | Inr vs \<Rightarrow> if vs = [] then ret ()
      else State_Monad.bind (storeCall E Ctx (\<lambda>_. ListHosts))
        (\<lambda>h. case h of Inl _ \<Rightarrow> ret () | Inr hs \<Rightarrow> for_each (retryOne E (draining_map hs)) vs))"
    by (intro holds_intros inv_retryOne E keeps_inv_read) (auto simp: list_all_iff ListHosts_def)
qed

lemma inv_drainHosts:
  assumes E: "stable E (lives l r)"
  shows "keeps_inv (lives l r) (drainHosts E)"
  unfolding drainHosts_def
proof (rule holds_bind [where P = "\<lambda>x. case x of Inl _ \<Rightarrow> True | Inr vs \<Rightarrow> list_all (other l) vs"])
  have "lives l r d' \<and> list_all (other l) vs" if I: "lives l r d" and q: "MarkDrainingHostsVMsDeleting t d = Inr (vs, d')" for d vs d' t
  proof -
    let ?P = "\<lambda>s. (\<exists>h \<in> set (hosts d). hr_draining h \<and> hr_name h = vr_flintlockHost s) \<and> unleased s"
    let ?f = "\<lambda>s. s\<lparr>vr_phase := DELETING, vr_leaseID := None, vr_updatedAt := t\<rparr>"
    have d': "d' = d\<lparr>vms := sql_update ?P ?f (vms d)\<rparr>" and vs: "vs = sort_key vm_Uid (map (rowToVM \<circ> ?f) (filter ?P (vms d)))"
      using q by (auto simp: MarkDrainingHostsVMsDeleting_def markUnleasedVMsDeleting_def Let_def)
    have "lr_leaseID l \<noteq> []" using I by (simp add: lives_def)
    then have id: "GetLeaseId (rowToVM (?f s)) \<noteq> lr_leaseID l" for s by (simp add: GetLeaseId_def rowToVM_def not_sym)
    have r: "\<not> ?P r" using I by (simp add: lives_def unleased_def)
    have "lives l r d'" unfolding d' by (rule lives_update_vms [OF I]) (use id r in simp_all)
    moreover have "other l (rowToVM (?f s))" if "s \<in> set (vms d)" "?P s" for s
    proof -
      have "other l (rowToVM s)" by (rule lives_other [OF I that(1)]) (use that(2) r in blast)
      then show ?thesis using id [of s] by (simp add: other_def rowToVM_def)
    qed
    then have "list_all (other l) vs" unfolding vs by (auto simp: list_all_iff)
    ultimately show ?thesis by blast
  qed
  then show "holds (lives l r) (\<lambda>x. case x of Inl _ \<Rightarrow> True | Inr vs \<Rightarrow> list_all (other l) vs)
      (storeCall E Ctx (\<lambda>n. MarkDrainingHostsVMsDeleting (e_clock E n)))" by (rule holds_storeCall [OF E])
next
  fix x :: "StoreErr + VMRecord list" assume "case x of Inl _ \<Rightarrow> True | Inr vs \<Rightarrow> list_all (other l) vs"
  then show "keeps_inv (lives l r) (case x of Inl _ \<Rightarrow> ret () | Inr vs \<Rightarrow> DeleteDrainedVMs E True vs True)"
    unfolding DeleteDrainedVMs_def
    by (intro holds_intros inv_EnsureVMDeleted E) (auto simp: list_all_iff)
qed

lemma inv_beginExpiry:
  assumes E: "stable E (lives l r)" and k: "l_LeaseId k \<noteq> lr_leaseID l" "l_VmUid k \<noteq> lr_vmUID l"
  shows "keeps_inv (lives l r) (beginExpiry E k now)"
proof -
  have "lives l r d'" if I: "lives l r d" and q: "DeleteLeaseIfExpired (l_LeaseId k) now d = Inr (x, d')" for d x d'
  proof -
    have "d' = d\<lparr>leases := sql_delete (\<lambda>s. lr_leaseID s = l_LeaseId k \<and> lr_expiresAt s \<le> UnixNano now) (leases d)\<rparr>"
      using q unfolding DeleteLeaseIfExpired_def Let_def by (simp split: option.splits if_splits)
    moreover have "\<not> (lr_leaseID l = l_LeaseId k \<and> lr_expiresAt l \<le> UnixNano now)" using k(1) by auto
    ultimately show ?thesis using lives_delete_lease [OF I, of "\<lambda>s. lr_leaseID s = l_LeaseId k \<and> lr_expiresAt s \<le> UnixNano now"]
      by (simp only: simp_thms)
  qed
  then have del: "keeps_inv (lives l r) (storeCall E Ctx (\<lambda>_. DeleteLeaseIfExpired (l_LeaseId k) now))"
    by (rule keeps_inv_storeCall [OF E])
  have "lives l r d' \<and> other l vm" if I: "lives l r d" and q: "GetVM (l_VmUid k) d = Inr (vm, d')" for d vm d'
  proof -
    from q obtain s where f: "find_key vr_uid (l_VmUid k) (vms d) = Some s" and v: "vm = rowToVM s" "d' = d"
      by (cases "find_key vr_uid (l_VmUid k) (vms d)") (simp_all add: GetVM_def)
    from find_key_SomeD [OF f] v have s: "s \<in> set (vms d)" "vr_uid s = l_VmUid k" "vm = rowToVM s" "d' = d" by simp_all
    have "s \<noteq> r" using I k(2) s(2) by (auto simp: lives_def)
    then show ?thesis using I s lives_other [OF I s(1)] by simp
  qed
  then have get: "holds (lives l r) (\<lambda>x. case x of Inl _ \<Rightarrow> True | Inr vm \<Rightarrow> other l vm) (storeCall E Ctx (\<lambda>_. GetVM (l_VmUid k)))"
    by (rule holds_storeCall [OF E])
  show ?thesis unfolding beginExpiry_def
  proof (rule keeps_inv_bind [OF del], rule holds_cases(2), rule keeps_inv_return,
      rule keeps_inv_bind [OF keeps_inv_other(2)], rule keeps_inv_bind [OF keeps_inv_other(2)], rule holds_bind [OF get], goal_cases)
    case (1 x e a b v)
    then show ?case by (intro holds_intros inv_EnsureVMDeleted inv_FinishVMDeletion E) auto
  qed
qed

lemma inv_tick_leases:
  assumes E: "stable E (lives l r)"
    and ls: "list_all (\<lambda>k. expiresAt k > now \<or> l_LeaseId k \<noteq> lr_leaseID l \<and> l_VmUid k \<noteq> lr_vmUID l) ls"
  shows "keeps_inv (lives l r) (tick_leases E now ls warned)"
  using ls
proof (induction ls arbitrary: warned)
  case (Cons k ls)
  have warn: "keeps_inv (lives l r) (warnExpiringSoon E k)"
    unfolding warnExpiringSoon_def by (intro holds_intros E)
  have rest: "keeps_inv (lives l r) (tick_leases E now ls x)" for x using Cons by simp
  have expire: "keeps_inv (lives l r) (beginExpiry E k now)" if "\<not> expiresAt k > now"
    by (rule inv_beginExpiry [OF E]) (use that Cons.prems in auto)
  show ?case unfolding tick_leases.simps by (intro holds_intros warn rest expire)
qed (simp add: holds_intros)

lemma inv_Tick:
  assumes E: "stable E (lives l r)" and live: "now < lr_expiresAt l"
  shows "keeps_inv (lives l r) (Tick E window now warned)"
  unfolding Tick_def
proof (rule keeps_inv_bind [OF inv_retryPendingDeletions [OF E]], rule keeps_inv_bind [OF inv_drainHosts [OF E]],
    rule holds_bind [where P = "\<lambda>x. case x of Inl _ \<Rightarrow> True | Inr ls \<Rightarrow>
      list_all (\<lambda>k. expiresAt k > now \<or> l_LeaseId k \<noteq> lr_leaseID l \<and> l_VmUid k \<noteq> lr_vmUID l) ls"])
  have "lives l r d' \<and> list_all (\<lambda>k. expiresAt k > now \<or> l_LeaseId k \<noteq> lr_leaseID l \<and> l_VmUid k \<noteq> lr_vmUID l) ls"
    if I: "lives l r d" and q: "ListExpiredLeases t d = Inr (ls, d')" for d ls d' t
  proof -
    have "expiresAt (rowToLease k) > now \<or> lr_leaseID k \<noteq> lr_leaseID l \<and> lr_vmUID k \<noteq> lr_vmUID l" if "k \<in> set (leases d)" for k
    proof (cases "lr_leaseID k = lr_leaseID l")
      case True
      then have "k = l" using I that unfolding lives_def distinct_map by (metis inj_onD)
      then show ?thesis using live by (simp add: expiresAt_def rowToLease_def)
    next
      case False
      then show ?thesis using I that by (simp add: lives_def)
    qed
    then have "\<forall>k \<in> set (leases d). expiresAt (rowToLease k) > now \<or>
        l_LeaseId (rowToLease k) \<noteq> lr_leaseID l \<and> l_VmUid (rowToLease k) \<noteq> lr_vmUID l" by (simp add: rowToLease_def)
    moreover from q have "ls = map rowToLease (sort_key lr_expiresAt (filter (\<lambda>s. lr_expiresAt s \<le> UnixNano t) (leases d)))" "d' = d"
      by (auto simp: ListExpiredLeases_def)
    ultimately show ?thesis using I by (auto simp: list_all_iff)
  qed
  then show "holds (lives l r) (\<lambda>x. case x of Inl _ \<Rightarrow> True | Inr ls \<Rightarrow>
      list_all (\<lambda>k. expiresAt k > now \<or> l_LeaseId k \<noteq> lr_leaseID l \<and> l_VmUid k \<noteq> lr_vmUID l) ls)
      (storeCall E Ctx (\<lambda>_. ListExpiredLeases (now + window)))" by (rule holds_storeCall [OF E])
qed (intro holds_intros inv_tick_leases [OF E], simp)

text \<open>C32: the sweeper never touches a lease that is alive. Whatever else a tick finds to do
  (pending deletions, draining hosts, expired leases), however flintlock answers and whichever
  statement fails, while the other goroutines leave the lease and its VM alone: a lease
  that has not expired at the time of the tick keeps its row, and its VM stays LEASED under it,
  also on a draining host; provided no other lease names the VM and no other VM names the
  lease.\<close>

theorem Tick_spares_live_leases:
  assumes "stable E (lives l r)" and "wf_db (wdb w)" and "now < lr_expiresAt l" and "lr_leaseID l \<noteq> []"
    and "l \<in> set (leases (wdb w))" and "r \<in> set (vms (wdb w))" and "vr_uid r = lr_vmUID l" and "vr_phase r = LEASED"
    and "list_all (\<lambda>s. vr_leaseID s = Some (lr_leaseID l) \<longrightarrow> s = r) (vms (wdb w))"
    and "list_all (\<lambda>k. lr_vmUID k = lr_vmUID l \<longrightarrow> k = l) (leases (wdb w))"
    and "run_state (Tick E window now warned) w = (warned', w')"
  shows "l \<in> set (leases (wdb w')) \<and> r \<in> set (vms (wdb w'))"
proof -
  have "GetLeaseId (rowToVM s) \<noteq> lr_leaseID l" if "s \<in> set (vms (wdb w))" "vr_uid s \<noteq> lr_vmUID l" for s
    using that assms(4,7,9) by (auto simp: GetLeaseId_def rowToVM_def list_all_iff split: option.splits)
  moreover have "lr_vmUID k \<noteq> lr_vmUID l" if "k \<in> set (leases (wdb w))" "lr_leaseID k \<noteq> lr_leaseID l" for k
    using that assms(10) by (auto simp: list_all_iff)
  ultimately have "lives l r (wdb w)" using assms(2,4-8) by (simp add: lives_def wf_db_def)
  then have "lives l r (wdb w')" using inv_Tick [OF assms(1,3), of window warned] assms(11) by (auto simp: holds_def wp_def)
  then show ?thesis by (simp add: lives_def)
qed


text \<open>A database with a live and an expired lease, swept at time 6.\<close>

definition sample_leases_db :: db where
  "sample_leases_db = sample_pool_db\<lparr>vms := [(sample_vm ''v3'' LEASED)\<lparr>vr_leaseID := Some ''l''\<rparr>, (sample_vm ''v4'' LEASED)\<lparr>vr_leaseID := Some ''k''\<rparr>],
     leases := [sample_lease\<lparr>lr_expiresAt := 5\<rparr>, sample_lease\<lparr>lr_leaseID := ''k'', lr_vmUID := ''v4'', lr_expiresAt := 60, lr_requestID := None\<rparr>]\<rparr>"

theorem Tick_spares_live_leases_witness:
  "\<exists>warned' w'. run_state (Tick sample_env 30 6 Map.empty) (sample_world sample_leases_db) = (warned', w') \<and>
     sample_lease\<lparr>lr_leaseID := ''k'', lr_vmUID := ''v4'', lr_expiresAt := 60, lr_requestID := None\<rparr> \<in> set (leases (wdb w')) \<and>
     (sample_vm ''v4'' LEASED)\<lparr>vr_leaseID := Some ''k''\<rparr> \<in> set (vms (wdb w')) \<and>
     length (leases (wdb w')) = 1 \<and> length (vms (wdb w')) = 1"
proof -
  let ?w = "sample_world sample_leases_db" and ?l = "sample_lease\<lparr>lr_leaseID := ''k'', lr_vmUID := ''v4'', lr_expiresAt := 60, lr_requestID := None\<rparr>"
    and ?r = "(sample_vm ''v4'' LEASED)\<lparr>vr_leaseID := Some ''k''\<rparr>"
  obtain warned' w' where run: "run_state (Tick sample_env 30 6 Map.empty) ?w = (warned', w')" by fastforce
  have "wf_db (wdb ?w)" "6 < lr_expiresAt ?l" "lr_leaseID ?l \<noteq> []" "?l \<in> set (leases (wdb ?w))" "?r \<in> set (vms (wdb ?w))"
    "vr_uid ?r = lr_vmUID ?l" "vr_phase ?r = LEASED"
    "list_all (\<lambda>s. vr_leaseID s = Some (lr_leaseID ?l) \<longrightarrow> s = ?r) (vms (wdb ?w))"
    "list_all (\<lambda>k. lr_vmUID k = lr_vmUID ?l \<longrightarrow> k = ?l) (leases (wdb ?w))" by code_simp+
  from Tick_spares_live_leases [OF undisturbed_stable [OF undisturbed_sample] this run]
  have "?l \<in> set (leases (wdb w')) \<and> ?r \<in> set (vms (wdb w'))" .
  moreover have "length (leases (wdb (snd (run_state (Tick sample_env 30 6 Map.empty) ?w)))) = 1"
    "length (vms (wdb (snd (run_state (Tick sample_env 30 6 Map.empty) ?w)))) = 1" by code_simp+
  ultimately show ?thesis using run by auto
qed

end
