(* ===== verification/Reconcile_Props.thy ===== *)
theory Reconcile_Props
  imports Provision_Props
begin

text \<open>
  What a pass of a reconciler does to its pool: it adds at most the VMs the strategy asks for,
  all of them the pool's own, and nothing else changes; and how its notification channels and
  its ticker drive the passes.
\<close>

section \<open>A pass\<close>

text \<open>The pool has gained these VMs, each of them finished, and nothing else has changed.\<close>

definition gained :: "PoolSpec \<Rightarrow> vmRow list \<Rightarrow> world \<Rightarrow> world \<Rightarrow> bool" where
  "gained pool rows w w' \<longleftrightarrow> vms (wdb w') = vms (wdb w) @ rows \<and> placements (wdb w') = placements (wdb w) \<and>
     leases (wdb w') = leases (wdb w) \<and> pools (wdb w') = pools (wdb w) \<and> hosts (wdb w') = hosts (wdb w) \<and>
     list_all (\<lambda>r. vm_in_pool (ps_Name pool) (ps_Namespace pool) r \<and> vr_phase r \<in> {AVAILABLE, QUARANTINED, DELETING}) rows"

lemma gained_refl: "wdb w' = wdb w \<Longrightarrow> gained pool [] w w'"
  by (simp add: gained_def)

lemma gained_trans: "gained pool xs w v \<Longrightarrow> gained pool ys v u \<Longrightarrow> gained pool (xs @ ys) w u"
  by (simp add: gained_def)

lemma wp_Provision_gains:
  "undisturbed E \<Longrightarrow> wp (Provision E cfg pool) (\<lambda>_ w'. \<exists>rows. gained pool rows w w' \<and> length rows \<le> 1) w"
  by (rule wp_mono [OF wp_Provision]) (auto simp: gained_def vm_in_pool_def split: option.splits)

lemma wp_provision_times:
  assumes E: "undisturbed E"
  shows "wp (provision_times E cfg pool k) (\<lambda>_ w'. \<exists>rows. gained pool rows w w' \<and> length rows \<le> k) w"
proof (induction k arbitrary: w)
  case (Suc k)
  show ?case unfolding provision_times.simps
  proof (rule wp_seq [OF wp_Provision_gains [OF E]], elim exE conjE, rule wp_mono [OF Suc], elim exE conjE)
    fix v u xs ys assume "gained pool xs w v" "length xs \<le> 1" "gained pool ys v u" "length ys \<le> k"
    then show "\<exists>rows. gained pool rows w u \<and> length rows \<le> Suc k"
      by (intro exI [of _ "xs @ ys"] conjI gained_trans) auto
  qed
qed (auto simp: wp_return intro: gained_refl)

text \<open>How many VMs a pass may add.\<close>

definition allowed :: "PoolSpec \<Rightarrow> int \<Rightarrow> db \<Rightarrow> int" where
  "allowed pool n d =
     (if TemplateHasStaticNetwork (ps_MicrovmTemplate pool) then (if pool_vms d pool = [] then min 1 (max 0 n) else 0)
      else max 0 n)"

lemma wp_capForStaticNetwork:
  assumes "undisturbed E"
  shows "wp (capForStaticNetwork E pool) (\<lambda>k v. wdb v = wdb w \<and> k \<le> (if pool_vms (wdb w) pool = [] then 1 else 0)) w"
  using assms by (auto simp: capForStaticNetwork_def wp_bind wp_return wp_storeCall_undisturbed Let_def ListVMsByPool_def pool_vms_def)

lemma wp_provisionN:
  assumes E: "undisturbed E"
  shows "wp (provisionN E cfg pool n) (\<lambda>_ w'. \<exists>rows. gained pool rows w w' \<and> int (length rows) \<le> allowed pool n (wdb w)) w"
proof -
  have run: "wp (if k \<le> 0 then ret () else provision_times E cfg pool (nat k))
      (\<lambda>_ w'. \<exists>rows. gained pool rows w w' \<and> int (length rows) \<le> allowed pool n (wdb w)) v"
    if "wdb v = wdb w" "max 0 k \<le> allowed pool n (wdb w)" for k v
  proof (cases "k \<le> 0")
    case True
    then show ?thesis using that gained_refl [OF that(1)] by (auto simp: wp_return intro!: exI [of _ "[]"])
  next
    case False
    have "wp (provision_times E cfg pool (nat k)) (\<lambda>_ w'. \<exists>rows. gained pool rows w w' \<and> int (length rows) \<le> allowed pool n (wdb w)) v"
    proof (rule wp_mono [OF wp_provision_times [OF E]], elim exE conjE)
      fix u rows assume "gained pool rows v u" "length rows \<le> nat k"
      then show "\<exists>rows. gained pool rows w u \<and> int (length rows) \<le> allowed pool n (wdb w)"
        using that False gained_trans [OF gained_refl [OF that(1), of pool]] by (intro exI [of _ rows]) auto
    qed
    then show ?thesis using False by simp
  qed
  show ?thesis unfolding provisionN_def
  proof (rule wp_seq [where P = "\<lambda>k v. wdb v = wdb w \<and> max 0 k \<le> allowed pool n (wdb w)"])
    show "wp (if n > 0 \<and> TemplateHasStaticNetwork (ps_MicrovmTemplate pool) then capForStaticNetwork E pool else ret n)
        (\<lambda>k v. wdb v = wdb w \<and> max 0 k \<le> allowed pool n (wdb w)) w"
      by (rule wp_if, rule wp_mono [OF wp_capForStaticNetwork [OF E]]) (auto simp: wp_return allowed_def)
  qed (use run in blast)
qed

lemma wp_reconcile:
  assumes E: "undisturbed E"
  shows "wp (reconcile E cfg pool desired) (\<lambda>_ w'. \<exists>rows. gained pool rows w w' \<and>
     int (length rows) \<le> allowed pool (desired pool (count_vms (pool_leases (wdb w) pool) (pool_vms (wdb w) pool))) (wdb w)) w"
  unfolding reconcile_def
proof (rule wp_seq [OF wp_CountVMs [OF E]], rule wp_sum, goal_cases)
  case (1 r v e)
  then have "gained pool [] w v" using gained_refl by simp
  then show ?case by (auto simp: wp_return allowed_def intro!: exI [of _ "[]"])
next
  case (2 r v c)
  then have v: "wdb v = wdb w" "c = count_vms (pool_leases (wdb w) pool) (pool_vms (wdb w) pool)" by auto
  show ?case
    by (rule wp_mono [OF wp_provisionN [OF E]])
      (use v gained_trans [OF gained_refl [OF v(1), of pool]] in auto)
qed

section \<open>The pool never outgrows its size\<close>

lemma pool_vms_gained:
  assumes "gained pool rows w w'"
  shows "length (pool_vms (wdb w') pool) = length (pool_vms (wdb w) pool) + length rows"
    and "pool_leases (wdb w') pool = pool_leases (wdb w) pool"
    and "sql_count P (pool_vms (wdb w') pool) \<le> sql_count P (pool_vms (wdb w) pool) + int (length rows)"
proof -
  have all: "filter (vm_in_pool (ps_Name pool) (ps_Namespace pool)) rows = rows"
    using assms by (auto simp: gained_def list_all_iff intro: filter_True)
  have vms: "vms (wdb w') = vms (wdb w) @ rows" "leases (wdb w') = leases (wdb w)" using assms by (simp_all add: gained_def)
  show "length (pool_vms (wdb w') pool) = length (pool_vms (wdb w) pool) + length rows"
    by (simp add: pool_vms_def ListVMsByPool_def vms all)
  show "pool_leases (wdb w') pool = pool_leases (wdb w) pool"
    by (simp add: pool_leases_def ListLeases_def vms)
  show "sql_count P (pool_vms (wdb w') pool) \<le> sql_count P (pool_vms (wdb w) pool) + int (length rows)"
    by (simp add: pool_vms_def ListVMsByPool_def vms sql_count_sort all) (simp add: sql_count_def)
qed

lemma hook_bound: "counted st c + max 0 (trigger_hook st t pool c) \<le> max (ps_Size pool) (counted st c)"
proof -
  have "trigger_hook st t pool c = 0 \<or> trigger_hook st t pool c = DesiredNewVMs st pool c"
    using strategy.claimed_level [OF strategy_all, of st pool c] strategy.deleted_level [OF strategy_all, of st pool c] by (cases t) auto
  then show ?thesis using strategy.one_trigger [OF strategy_all, of "trigger_hook st t pool c" st pool c] by (auto simp: max_def)
qed

text \<open>What passes have done to their pool: they have added VMs of the pool, each of them finished,
  and kept to its size.\<close>

definition within :: "Strategy \<Rightarrow> PoolSpec \<Rightarrow> world \<Rightarrow> world \<Rightarrow> bool" where
  "within st pool w w' \<longleftrightarrow> (\<exists>rows. gained pool rows w w') \<and>
     counted st (count_vms (pool_leases (wdb w') pool) (pool_vms (wdb w') pool)) \<le>
       max (ps_Size pool) (counted st (count_vms (pool_leases (wdb w) pool) (pool_vms (wdb w) pool))) \<and>
     (TemplateHasStaticNetwork (ps_MicrovmTemplate pool) \<longrightarrow> length (pool_vms (wdb w') pool) \<le> max 1 (length (pool_vms (wdb w) pool)))"

lemma within_refl: "within st pool w w"
  using gained_refl [of w w pool] by (auto simp: within_def)

lemma within_trans:
  assumes "within st pool w v" "within st pool v u"
  shows "within st pool w u"
proof -
  have "\<exists>rows. gained pool rows w u" using assms gained_trans unfolding within_def by blast
  moreover have "counted st (count_vms (pool_leases (wdb u) pool) (pool_vms (wdb u) pool)) \<le>
      max (ps_Size pool) (counted st (count_vms (pool_leases (wdb w) pool) (pool_vms (wdb w) pool)))"
    using assms unfolding within_def by linarith
  moreover have "length (pool_vms (wdb u) pool) \<le> max 1 (length (pool_vms (wdb w) pool))" if "TemplateHasStaticNetwork (ps_MicrovmTemplate pool)"
    using assms that unfolding within_def by linarith
  ultimately show ?thesis by (simp add: within_def)
qed

lemma reconcile_within:
  assumes "undisturbed E"
  shows "wp (reconcile E cfg pool (trigger_hook st t)) (\<lambda>_ w'. within st pool w w') w"
proof (rule wp_mono [OF wp_reconcile [OF assms]], elim exE conjE)
  let ?c = "count_vms (pool_leases (wdb w) pool) (pool_vms (wdb w) pool)"
  fix w' rows
  assume g: "gained pool rows w w'" and n: "int (length rows) \<le> allowed pool (trigger_hook st t pool ?c) (wdb w)"
  have "int (length rows) \<le> max 0 (trigger_hook st t pool ?c)" using n by (simp add: allowed_def split: if_splits)
  moreover have "counted st (count_vms (pool_leases (wdb w') pool) (pool_vms (wdb w') pool)) \<le> counted st ?c + int (length rows)"
    unfolding counted_count_vms pool_vms_gained(2) [OF g] by (rule pool_vms_gained(3) [OF g])
  ultimately have "counted st (count_vms (pool_leases (wdb w') pool) (pool_vms (wdb w') pool)) \<le> max (ps_Size pool) (counted st ?c)"
    using hook_bound [of st ?c t pool] by linarith
  moreover have "length (pool_vms (wdb w') pool) \<le> max 1 (length (pool_vms (wdb w) pool))"
    if "TemplateHasStaticNetwork (ps_MicrovmTemplate pool)"
    using n that pool_vms_gained(1) [OF g] by (auto simp: allowed_def split: if_splits)
  ultimately show "within st pool w w'" using g by (auto simp: within_def)
qed

lemma run_passes_within:
  assumes "undisturbed E"
  shows "wp (run_passes E cfg pool st ts) (\<lambda>_ w'. within st pool w w') w"
proof (induction ts arbitrary: w)
  case (Cons t ts)
  show ?case unfolding run_passes.simps
    by (rule wp_seq [OF reconcile_within [OF assms]], rule wp_mono [OF Cons]) (blast intro: within_trans)
qed (simp add: wp_return within_refl)

lemma Run_within:
  assumes "undisturbed E"
  shows "wp (Reconciler_Run E cfg pool st ts) (\<lambda>_ w'. within st pool w w') w"
  unfolding Reconciler_Run_def
  by (rule wp_seq [OF reconcile_within [OF assms, of cfg pool st Tick_Trigger, unfolded trigger_hook.simps]],
      rule wp_mono [OF run_passes_within [OF assms]]) (blast intro: within_trans)

text \<open>C33: a reconciler, from its start through any sequence of ticks and notifications and however
  often provisioning fails, only adds VMs to its own pool, each of them available, quarantined or
  being deleted; it never brings the VMs its strategy counts above the pool's size; and a pool whose
  template fixes a MAC or an IP address never gets a second VM beside one that exists.\<close>

theorem Run_within_size:
  assumes "undisturbed E" and "run_state (Reconciler_Run E cfg pool st ts) w = ((), w')"
  shows "\<exists>rows. vms (wdb w') = vms (wdb w) @ rows \<and>
      list_all (\<lambda>r. vm_in_pool (ps_Name pool) (ps_Namespace pool) r \<and> vr_phase r \<in> {AVAILABLE, QUARANTINED, DELETING}) rows \<and>
      placements (wdb w') = placements (wdb w) \<and> leases (wdb w') = leases (wdb w) \<and>
      counted st (count_vms (pool_leases (wdb w') pool) (pool_vms (wdb w') pool)) \<le>
        max (ps_Size pool) (counted st (count_vms (pool_leases (wdb w) pool) (pool_vms (wdb w) pool))) \<and>
      (TemplateHasStaticNetwork (ps_MicrovmTemplate pool) \<longrightarrow>
         length (pool_vms (wdb w') pool) \<le> max 1 (length (pool_vms (wdb w) pool)))"
  using Run_within [OF assms(1), of cfg pool st ts w] by (auto simp: wp_def assms(2) within_def gained_def)

definition sample_short_db :: db where
  "sample_short_db = sample_db\<lparr>vms := [sample_vm ''v1'' AVAILABLE, sample_vm ''v2'' AVAILABLE]\<rparr>"

theorem Run_within_size_witness:
  "\<exists>w' r. run_state (Reconciler_Run sample_env DefaultProvisionConfig sample_pool immediateOnLease [Tick_Trigger]) (sample_world sample_short_db) = ((), w') \<and>
     vms (wdb w') = vms sample_short_db @ [r] \<and>
     counted immediateOnLease (count_vms (pool_leases (wdb w') sample_pool) (pool_vms (wdb w') sample_pool)) \<le> 3"
proof -
  let ?r = "run_state (Reconciler_Run sample_env DefaultProvisionConfig sample_pool immediateOnLease [Tick_Trigger]) (sample_world sample_short_db)"
  obtain w' where run: "?r = ((), w')" by (cases ?r) auto
  have len: "length (vms (wdb (snd ?r))) = length (vms sample_short_db) + 1" by code_simp
  have facts: "counted immediateOnLease (count_vms (pool_leases sample_short_db sample_pool) (pool_vms sample_short_db sample_pool)) \<le> 3" "ps_Size sample_pool = 3"
    by code_simp+
  from Run_within_size [OF undisturbed_sample run] obtain rows where
    rows: "vms (wdb w') = vms sample_short_db @ rows" and c: "counted immediateOnLease (count_vms (pool_leases (wdb w') sample_pool) (pool_vms (wdb w') sample_pool)) \<le> 3"
    using facts by (auto simp: sample_world_def)
  have "length rows = 1" using len run rows by simp
  then show ?thesis using run rows c by (auto simp: length_Suc_conv)
qed

section \<open>Notifications\<close>

lemma loop_run_append:
  "loop_run (es @ fs) ch = (case loop_run es ch of None \<Rightarrow> None
     | Some (ts, ch1) \<Rightarrow> (case loop_run fs ch1 of None \<Rightarrow> None | Some (us, ch2) \<Rightarrow> Some (ts @ us, ch2)))"
  by (induction es arbitrary: ch) (auto split: option.splits prod.splits)

lemma pending_taken:
  "loop_run es ch = Some (ts, ch') \<Longrightarrow> ch_claimed ch \<Longrightarrow> Claimed_Trigger \<in> set ts \<or> ch_claimed ch'"
  "loop_run es ch = Some (ts, ch') \<Longrightarrow> ch_deleted ch \<Longrightarrow> Deleted_Trigger \<in> set ts \<or> ch_deleted ch'"
proof (induction es arbitrary: ch ts)
  case (Cons e es)
  {
    case 1
    then show ?case using Cons(1) by (cases e) (fastforce split: option.splits prod.splits if_splits)+
  next
    case 2
    then show ?case using Cons(2) by (cases e) (fastforce split: option.splits prod.splits if_splits)+
  }
qed auto

text \<open>C34: no notification is lost. However notifications, ticks and passes interleave, after a
  claim or a deletion has been notified the loop runs a pass with the matching hook, or such a
  pass is still pending and the loop can take it; sends that find the buffer full are absorbed
  by the pass that is pending.\<close>

theorem notifications_reach_a_pass:
  assumes "loop_run (before @ [e] @ after) ch = Some (ts, ch')"
  shows "\<exists>ts1 ch1 ts2. loop_run before ch = Some (ts1, ch1) \<and> ts = ts1 @ ts2 \<and>
      (e = LNotifyClaimed \<longrightarrow> Claimed_Trigger \<in> set ts2 \<or> loop_step LTakeClaimed ch' \<noteq> None) \<and>
      (e = LNotifyDeleted \<longrightarrow> Deleted_Trigger \<in> set ts2 \<or> loop_step LTakeDeleted ch' \<noteq> None)"
proof -
  obtain ts1 ch1 ts2 where b: "loop_run before ch = Some (ts1, ch1)" "loop_run ([e] @ after) ch1 = Some (ts2, ch')" "ts = ts1 @ ts2"
    using assms unfolding loop_run_append [of before] by (auto split: option.splits prod.splits)
  then obtain t ch2 ts3 where s: "loop_step e ch1 = Some (t, ch2)" "loop_run after ch2 = Some (ts3, ch')"
      "ts2 = (case t of None \<Rightarrow> ts3 | Some x \<Rightarrow> x # ts3)"
    by (auto split: option.splits prod.splits)
  have "Claimed_Trigger \<in> set ts2 \<or> loop_step LTakeClaimed ch' \<noteq> None" if "e = LNotifyClaimed"
    using pending_taken(1) [OF s(2)] s that by auto
  moreover have "Deleted_Trigger \<in> set ts2 \<or> loop_step LTakeDeleted ch' \<noteq> None" if "e = LNotifyDeleted"
    using pending_taken(2) [OF s(2)] s that by auto
  ultimately show ?thesis using b by blast
qed

theorem notifications_reach_a_pass_witness:
  "loop_run [LNotifyClaimed, LNotifyClaimed, LTick, LTakeClaimed] \<lparr>ch_claimed = False, ch_deleted = False\<rparr> =
     Some ([Tick_Trigger, Claimed_Trigger], \<lparr>ch_claimed = False, ch_deleted = False\<rparr>) \<and>
   Claimed_Trigger \<in> set [Tick_Trigger, Claimed_Trigger]"
proof -
  let ?ch = "\<lparr>ch_claimed = False, ch_deleted = False\<rparr>"
  have run: "loop_run ([LNotifyClaimed] @ [LNotifyClaimed] @ [LTick, LTakeClaimed]) ?ch = Some ([Tick_Trigger, Claimed_Trigger], ?ch)" by code_simp
  moreover have "loop_step LTakeClaimed ?ch = None" "loop_run [LNotifyClaimed] ?ch = Some ([], ?ch\<lparr>ch_claimed := True\<rparr>)" by code_simp+
  ultimately show ?thesis using notifications_reach_a_pass [OF run] by auto
qed

end
