(* ===== verification/Pool_Props.thy ===== *)
theory Pool_Props
  imports Pool_Admin Invariants
begin

text \<open>
  What the PoolAdmin service leaves behind: a created pool is stored, valid and has a
  reconciler; a deleted pool leaves no lease and no VM that is not on its way out.
\<close>

section \<open>Creating a pool\<close>

lemma unknown_hosts_none: "unknown_hosts known ns acc = [] \<longleftrightarrow> acc = [] \<and> set ns \<subseteq> known"
  by (induction ns arbitrary: acc) auto

lemma validatePoolSpec_Inr:
  assumes "validatePoolSpec req = Inr spec"
  shows "is_ok (NewStrategy (ps_ReplenishmentStrategy spec))"
  using assms by (auto simp: validatePoolSpec_def split: if_splits sum.splits option.splits)

lemma StartReconciler_running:
  assumes "is_ok (NewStrategy (ps_ReplenishmentStrategy spec))" "\<not> mg_stopped m"
  shows "(case StartReconciler spec m of Inl _ \<Rightarrow> Running (ps_Name spec) (ps_Namespace spec) m
    | Inr m' \<Rightarrow> Running (ps_Name spec) (ps_Namespace spec) m')"
  using assms by (auto simp: StartReconciler_def Running_def spec_key_def Let_def elim: is_okE split: sum.splits)

lemma wp_StartReconciler:
  assumes "is_ok (NewStrategy (ps_ReplenishmentStrategy spec))" "\<not> mg_stopped (wmgr w)"
  shows "wp (StartReconciler_M spec) (\<lambda>_ u. wdb u = wdb w \<and> Running (ps_Name spec) (ps_Namespace spec) (wmgr u)) w"
  using StartReconciler_running [OF assms] by (cases "StartReconciler spec (wmgr w)") (simp_all add: StartReconciler_M_def wp_simps)

lemma wp_checkFlintlockHosts:
  assumes "undisturbed E"
  shows "wp (checkFlintlockHosts E spec) (\<lambda>r u. wdb u = wdb w \<and> wmgr u = wmgr w \<and>
    (r = None \<longrightarrow> set (ps_FlintlockHosts spec) \<subseteq> hr_name ` set (hosts (wdb w)))) w"
  using assms by (auto simp: checkFlintlockHosts_def wp_bind wp_return wp_storeCall_undisturbed Let_def ListHosts_def
      unknown_hosts_none rowToHost_def image_image split: if_splits)

definition created :: "env \<Rightarrow> PoolSpec \<Rightarrow> world \<Rightarrow> Code + Pool \<Rightarrow> world \<Rightarrow> bool" where
  "created E req w res w' \<longleftrightarrow> (case res of
     Inl _ \<Rightarrow> wdb w' = wdb w \<and> wmgr w' = wmgr w
   | Inr p \<Rightarrow> (\<exists>row. validatePoolSpec req = Inr (pool_Spec p) \<and> poolToRow (e_codec E) (pool_Spec p) = Inr row \<and>
       pool_key row \<notin> pool_key ` set (pools (wdb w)) \<and>
       set (ps_FlintlockHosts (pool_Spec p)) \<subseteq> hr_name ` set (hosts (wdb w)) \<and>
       wdb w' = (wdb w)\<lparr>pools := pools (wdb w) @ [row]\<rparr> \<and>
       Running (ps_Name (pool_Spec p)) (ps_Namespace (pool_Spec p)) (wmgr w')))"

lemma created_Inl: "wdb u = wdb w \<Longrightarrow> wmgr u = wmgr w \<Longrightarrow> created E req w (Inl e) u"
  by (simp add: created_def)

lemma wp_store_pool:
  assumes E: "undisturbed E" and m: "\<not> mg_stopped (wmgr w)" and v: "validatePoolSpec req = Inr spec"
    and u: "wdb u = wdb w" "wmgr u = wmgr w" and h: "set (ps_FlintlockHosts spec) \<subseteq> hr_name ` set (hosts (wdb w))"
  shows "wp (State_Monad.bind (storeCall E Ctx (\<lambda>_. CreatePool (e_codec E) spec)) (\<lambda>x. case x of Inl _ \<Rightarrow> ret (Inl Internal)
     | Inr _ \<Rightarrow> State_Monad.bind (StartReconciler_M spec) (\<lambda>_. ret (Inr \<lparr>pool_Spec = spec, pool_Status = zero_status\<rparr>))))
    (created E req w) u"
proof (cases "ctx_ok E Ctx (wstep u) \<and> is_ok (CreatePool (e_codec E) spec (wdb u))")
  case False
  then show ?thesis using E created_Inl [of _ w E req Internal] u
    by (auto simp: wp_bind wp_return wp_storeCall_undisturbed Let_def split: sum.split)
next
  case True
  then obtain row where row: "poolToRow (e_codec E) spec = Inr row" "find_key pool_key (pool_key row) (pools (wdb w)) = None"
    using u by (auto simp: CreatePool_def split: sum.splits if_splits)
  let ?u = "u\<lparr>wstep := Suc (wstep u), wdb := (wdb w)\<lparr>pools := pools (wdb w) @ [row]\<rparr>\<rparr>"
  have "wp (StartReconciler_M spec) (\<lambda>_ x. created E req w (Inr \<lparr>pool_Spec = spec, pool_Status = zero_status\<rparr>) x) ?u"
    by (rule wp_mono [OF wp_StartReconciler]) (use validatePoolSpec_Inr [OF v] m u v h row in \<open>auto simp: created_def find_key_None\<close>)
  then have "wp (StartReconciler_M spec) (\<lambda>_. wp (ret (Inr \<lparr>pool_Spec = spec, pool_Status = zero_status\<rparr>)) (created E req w)) ?u"
    by (rule wp_mono) (simp add: wp_return)
  moreover have "CreatePool (e_codec E) spec (wdb u) = Inr ((), (wdb w)\<lparr>pools := pools (wdb w) @ [row]\<rparr>)"
    using row u by (simp add: CreatePool_def)
  ultimately show ?thesis using E True u by (simp add: wp_bind wp_storeCall_undisturbed Let_def)
qed

lemma wp_API_CreatePool:
  assumes E: "undisturbed E" and m: "\<not> mg_stopped (wmgr w)"
  shows "wp (API_CreatePool E req) (created E req w) w"
  unfolding API_CreatePool_def
proof (rule wp_sum, goal_cases)
  case (1 e)
  then show ?case by (simp add: wp_return created_Inl)
next
  case (2 spec)
  show ?case
  proof (rule wp_seq [OF wp_checkFlintlockHosts [OF E]], rule wp_option, goal_cases)
    case (1 r u)
    then have u: "wdb u = wdb w" "wmgr u = wmgr w" "set (ps_FlintlockHosts spec) \<subseteq> hr_name ` set (hosts (wdb w))" by auto
    let ?u = "u\<lparr>wstep := Suc (wstep u)\<rparr>"
    have "wp (State_Monad.bind (storeCall E Ctx (\<lambda>_. CreatePool (e_codec E) spec)) (\<lambda>x. case x of Inl _ \<Rightarrow> ret (Inl Internal)
       | Inr _ \<Rightarrow> State_Monad.bind (StartReconciler_M spec) (\<lambda>_. ret (Inr \<lparr>pool_Spec = spec, pool_Status = zero_status\<rparr>))))
       (created E req w) ?u"
      by (rule wp_store_pool [OF E m 2]) (use u in simp_all)
    moreover have "created E req w (Inl c) ?u" "created E req w (Inl c) (?u\<lparr>wdb := wdb w\<rparr>)" for c using u by (simp_all add: created_Inl)
    moreover have "GetPool (e_codec E) (ps_Name spec) (ps_Namespace spec) (wdb u) = Inr (p, d) \<Longrightarrow> d = wdb u" for p d
      by (auto simp: GetPool_def split: option.splits sum.splits)
    ultimately show ?case using E u
      by (subst wp_bind) (auto simp: wp_return wp_storeCall_undisturbed Let_def split: sum.split)
  next
    case (2 r u e)
    then show ?case by (simp add: wp_return created_Inl)
  qed
qed


text \<open>C35: creating a pool is all or nothing. In a working store and while the manager runs, a
  successful \<open>CreatePool\<close> has validated the spec, found every host it names registered and its
  name unused, stored exactly that one row, and left a reconciler running for the pool; a refused
  or failed one has stored nothing and started nothing.\<close>

theorem API_CreatePool_all_or_nothing:
  assumes "undisturbed E" and "\<not> mg_stopped (wmgr w)" and "run_state (API_CreatePool E req) w = (res, w')"
  shows "case res of
     Inl _ \<Rightarrow> wdb w' = wdb w \<and> wmgr w' = wmgr w
   | Inr p \<Rightarrow> (\<exists>row. validatePoolSpec req = Inr (pool_Spec p) \<and> poolToRow (e_codec E) (pool_Spec p) = Inr row \<and>
       pool_key row \<notin> pool_key ` set (pools (wdb w)) \<and>
       set (ps_FlintlockHosts (pool_Spec p)) \<subseteq> hr_name ` set (hosts (wdb w)) \<and>
       wdb w' = (wdb w)\<lparr>pools := pools (wdb w) @ [row]\<rparr> \<and>
       Running (ps_Name (pool_Spec p)) (ps_Namespace (pool_Spec p)) (wmgr w'))"
  using wp_API_CreatePool [OF assms(1,2), of req] by (simp add: wp_def assms(3) created_def)

theorem API_CreatePool_all_or_nothing_witness:
  "\<exists>p w' row. run_state (API_CreatePool sample_env sample_pool) (sample_world sample_db) = (Inr p, w') \<and>
     pools (wdb w') = [row] \<and> Running ''p'' ''ns'' (wmgr w')"
proof -
  let ?r = "run_state (API_CreatePool sample_env sample_pool) (sample_world sample_db)"
  have ok: "is_ok (fst ?r)" "\<not> mg_stopped (wmgr (sample_world sample_db))" "pools (wdb (sample_world sample_db)) = []" by code_simp+
  then obtain p w' where run: "?r = (Inr p, w')" by (metis is_okE prod.collapse)
  have "ps_Name (case fst ?r of Inr p \<Rightarrow> pool_Spec p | Inl _ \<Rightarrow> sample_pool) = ''p''"
    "ps_Namespace (case fst ?r of Inr p \<Rightarrow> pool_Spec p | Inl _ \<Rightarrow> sample_pool) = ''ns''" by code_simp+
  then show ?thesis using API_CreatePool_all_or_nothing [OF undisturbed_sample ok(2) run] run ok(3) by auto
qed

section \<open>Deleting a pool\<close>

definition pool_gone :: "string \<Rightarrow> string \<Rightarrow> db \<Rightarrow> bool" where
  "pool_gone name ns d \<longleftrightarrow> (name, ns) \<notin> pool_key ` set (pools d) \<and> \<not> list_ex (lease_in_pool name ns) (leases d) \<and>
     list_all (\<lambda>r. vm_in_pool name ns r \<longrightarrow> vr_phase r = DELETING) (vms d)"

lemma DeletePoolAndMarkVMs_gone:
  assumes "DeletePoolAndMarkVMs now name ns force d = Inr (vs, d')"
  shows "pool_gone name ns d'"
proof -
  have "\<not> (\<exists>p \<in> set (pools d'). pool_key p = (name, ns))"
    using assms by (auto simp: DeletePoolAndMarkVMs_def DeletePool_def checkRowsAffected_def sql_delete_def Let_def split: if_splits)
  moreover have "leases d' = sql_delete (lease_in_pool name ns) (leases d)"
    using assms by (auto simp: DeletePoolAndMarkVMs_def DeletePool_def checkRowsAffected_def Let_def split: if_splits)
  moreover have "vms d' = sql_update (vm_in_pool name ns) (\<lambda>r. r\<lparr>vr_phase := DELETING, vr_leaseID := None, vr_updatedAt := now\<rparr>) (vms d)"
    using assms by (auto simp: DeletePoolAndMarkVMs_def DeletePool_def checkRowsAffected_def Let_def split: if_splits)
  ultimately show ?thesis
    by (auto simp: pool_gone_def list_ex_iff list_all_iff sql_delete_def sql_update_def)
qed

lemma gone_EmitEvent [holds_intros]: "stable E (pool_gone name ns) \<Longrightarrow> keeps_inv (pool_gone name ns) (EmitEvent E c pool uid t)"
  by (rule keeps_inv_EmitEvent) (auto simp: ignores_events_def pool_gone_def)

lemma gone_EnsureVMDeleted:
  assumes E: "stable E (pool_gone name ns)"
  shows "keeps_inv (pool_gone name ns) (EnsureVMDeleted E c vm)"
proof -
  have "pool_gone name ns d'" if "pool_gone name ns d" "DeleteVMCheckingPool (vm_Uid vm) d = Inr (a, d')" for d a d'
    using that by (auto simp: pool_gone_def DeleteVMCheckingPool_def sql_delete_def list_all_iff Let_def split: option.splits)
  then have del: "keeps_inv (pool_gone name ns) (storeCall E c (\<lambda>_. DeleteVMCheckingPool (vm_Uid vm)))"
    by (rule keeps_inv_storeCall [OF E])
  have upd: "keeps_inv (pool_gone name ns) (UpdateVM E c (vm\<lparr>vm_Phase := DELETING, vm_UpdatedAt := Some t\<rparr>))" for t
  proof -
    have "pool_gone name ns d'" if g: "pool_gone name ns d" and u: "updateVM_exec (vm\<lparr>vm_Phase := DELETING, vm_UpdatedAt := Some t\<rparr>) d = Inr (a, d')" for d a d'
    proof -
      from u obtain row where row: "vmToRow (vm\<lparr>vm_Phase := DELETING, vm_UpdatedAt := Some t\<rparr>) = Inr row"
        by (auto simp: updateVM_exec_def split: sum.splits)
      then have "vr_phase row = DELETING" using vmToRow_Inr [OF row] by simp
      then show ?thesis using g u row by (auto simp: pool_gone_def updateVM_exec_def sql_update_def list_all_iff Let_def)
    qed
    moreover have "pool_gone name ns d'" if "pool_gone name ns d" "updateVM_missed v d = Inr (a, d')" for v d a d'
      using that by (auto simp: updateVM_missed_def split: if_splits)
    ultimately show ?thesis unfolding UpdateVM_def by (intro holds_intros keeps_inv_storeCall [OF E])
  qed
  have "keeps_inv (pool_gone name ns) (EnsureVMDeletedCheckingPool E c vm)"
    unfolding EnsureVMDeletedCheckingPool_def markDeleting_def State_Monad.bind_assoc State_Monad.bind_left_identity
    by (intro holds_intros del upd)
  then show ?thesis unfolding EnsureVMDeleted_def by (intro holds_intros)
qed

lemma gone_deletePoolVMs:
  "stable E (pool_gone name ns) \<Longrightarrow> keeps_inv (pool_gone name ns) (deletePoolVMs E flint spec vs)"
  unfolding deletePoolVMs_def by (intro holds_intros gone_EnsureVMDeleted)

lemma wp_delete_stopped_pool:
  assumes E: "stable E (pool_gone name ns)"
  shows "wp (delete_stopped_pool E flint name ns force spec) (\<lambda>res w'. is_ok res \<longrightarrow> pool_gone name ns (wdb w')) w"
  unfolding delete_stopped_pool_def
proof (rule wp_any, rule wp_if, rule wp_any, simp add: wp_return, rule wp_seq [OF wp_establish [OF DeletePoolAndMarkVMs_gone]],
    assumption, rule wp_sum, goal_cases)
  case (1 a u r v e)
  show ?case by (intro wp_if wp_any) (simp_all add: wp_return)
next
  case (2 a u r v vs)
  then have "wp (deletePoolVMs E flint spec vs) (\<lambda>_ w'. pool_gone name ns (wdb w') \<and> True) v"
    by (intro holds_wp gone_deletePoolVMs E) simp
  then show ?case by (rule wp_seq) (simp add: wp_return)
qed

lemma wp_API_DeletePool:
  assumes E: "stable E (pool_gone name ns)"
  shows "wp (API_DeletePool E flint name ns force) (\<lambda>res w'. is_ok res \<longrightarrow> pool_gone name ns (wdb w')) w"
  unfolding API_DeletePool_def
  by (rule wp_any, rule wp_sum, simp add: wp_return, rule wp_if, rule wp_any, rule wp_sum, simp add: wp_return,
      rule wp_if, simp add: wp_return, (rule wp_delete_stopped_pool [OF E])+)

text \<open>C36: a pool that \<open>DeletePool\<close> reports deleted is gone for good: its row and all its leases are
  removed, and each of its VMs that is still recorded is DELETING, so the sweeper will finish it.
  This holds with or without force, whether or not flintlock can be reached, whichever statement
  fails and whenever the caller goes away, while nobody recreates the pool or adds to it.\<close>

theorem API_DeletePool_leaves_nothing:
  assumes "stable E (pool_gone name ns)" and "run_state (API_DeletePool E flint name ns force) w = (Inr (), w')"
  shows "(name, ns) \<notin> pool_key ` set (pools (wdb w')) \<and> \<not> list_ex (lease_in_pool name ns) (leases (wdb w')) \<and>
     list_all (\<lambda>r. vm_in_pool name ns r \<longrightarrow> vr_phase r = DELETING) (vms (wdb w'))"
  using wp_API_DeletePool [OF assms(1), of flint force w] by (simp add: wp_def assms(2) pool_gone_def)

theorem API_DeletePool_leaves_nothing_witness:
  "\<exists>w'. run_state (API_DeletePool sample_env True ''p'' ''ns'' True) (sample_world sample_pool_db) = (Inr (), w') \<and>
     (''p'', ''ns'') \<notin> pool_key ` set (pools (wdb w')) \<and> \<not> list_ex (lease_in_pool ''p'' ''ns'') (leases (wdb w')) \<and> vms (wdb w') = []"
proof -
  let ?r = "run_state (API_DeletePool sample_env True ''p'' ''ns'' True) (sample_world sample_pool_db)"
  have "fst ?r = Inr ()" "vms (wdb (snd ?r)) = []" by code_simp+
  then obtain w' where run: "?r = (Inr (), w')" "vms (wdb w') = []" by (metis prod.collapse)
  then show ?thesis using API_DeletePool_leaves_nothing [OF undisturbed_stable [OF undisturbed_sample] run(1)] by blast
qed

end
