(* ===== verification/CLI_Output.thy ===== *)
theory CLI_Output
  imports Lease_API
begin

text \<open>
  Model of \<^verbatim>\<open>src/internal/poolmgrctl/output.go\<close>: how the command-line client prints what the
  server returned. A printing function yields the text it hands to its writer, or the error it
  returns before writing anything; \<open>Fprint\<close> writes a text to a writer that may fail part of the
  way. The standard library is modelled as far as it is used: \<^verbatim>\<open>text/tabwriter\<close> (elastic columns),
  \<^verbatim>\<open>fmt\<close>'s verbs, \<^verbatim>\<open>encoding/json\<close> for one object and \<^verbatim>\<open>time\<close>'s RFC 3339 layout. The
  \<^verbatim>\<open>protojson\<close> encoder is a parameter. Strings are bytes in UTF-8.
\<close>

section \<open>Definitions\<close>

subsection \<open>Formatting verbs\<close>

abbreviation TAB :: char where "TAB \<equiv> CHR 0x09"
abbreviation NL :: char where "NL \<equiv> CHR 0x0A"
abbreviation VT :: char where "VT \<equiv> CHR 0x0B"
abbreviation FF :: char where "FF \<equiv> CHR 0x0C"

definition fmt_int :: "int \<Rightarrow> string" where
  "fmt_int n = (if n < 0 then CHR ''-'' # decimal (nat (- n)) else decimal (nat n))"

definition fmt_bool :: "bool \<Rightarrow> string" where
  "fmt_bool b = (if b then ''true'' else ''false'')"

text \<open>A line of tab-separated cells, as the format strings of the tables spell it.\<close>

fun tabbed :: "string list \<Rightarrow> string" where
  "tabbed [] = [NL]"
| "tabbed [c] = c @ [NL]"
| "tabbed (c # d # cs) = c @ [TAB] @ tabbed (d # cs)"

subsection \<open>Elastic columns\<close>

text \<open>
  \<^verbatim>\<open>tabwriter.NewWriter(w, 0, 4, 2, ' ', 0)\<close>. The text is split into lines at newlines and
  form feeds and each line into cells at tabs; a form feed also ends the section that is laid out
  together. A column is a run of adjacent lines that have a cell in it which is not their last, and
  is as wide as its widest cell and two spaces; the last cell of a line is not padded. The width
  of a cell is its number of runes.
\<close>

fun splits :: "('a \<Rightarrow> bool) \<Rightarrow> 'a list \<Rightarrow> 'a list list" where
  "splits p [] = [[]]"
| "splits p (c # cs) = (if p c then [] # splits p cs else (case splits p cs of [] \<Rightarrow> [[c]] | x # xs \<Rightarrow> (c # x) # xs))"

definition RuneCount :: "string \<Rightarrow> nat" where
  "RuneCount s = length (filter (\<lambda>c. (of_char c :: nat) div 64 \<noteq> 2) s)"

definition padded :: "string \<Rightarrow> nat \<Rightarrow> string" where
  "padded cell width = cell @ replicate (width - RuneCount cell) CHR '' ''"

fun write_line :: "nat list \<Rightarrow> string list \<Rightarrow> string" where
  "write_line _ [] = []"
| "write_line [] (c # cs) = c @ write_line [] cs"
| "write_line (k # ks) (c # cs) = padded c k @ write_line ks cs"

definition column_width :: "nat \<Rightarrow> string list list \<Rightarrow> nat" where
  "column_width j rows = foldr (\<lambda>row. max (RuneCount (row ! j) + 2)) rows 0"

lemma sum_list_takeWhile: "sum_list (map f (takeWhile P xs)) \<le> sum_list (map f xs)" for f :: "'a \<Rightarrow> nat"
  by (induction xs) auto

lemma sum_list_dropWhile: "sum_list (map f (dropWhile P xs)) \<le> sum_list (map f xs)" for f :: "'a \<Rightarrow> nat"
  by (induction xs) auto

lemma sum_list_shorter:
  "(\<forall>x \<in> set xs. k < g x) \<Longrightarrow> sum_list (map (\<lambda>x. g x - Suc k) xs) \<le> sum_list (map (\<lambda>x. g x - k) xs)" for g :: "'a \<Rightarrow> nat"
  by (induction xs) auto

function format_lines :: "nat list \<Rightarrow> string list list \<Rightarrow> string list" where
  "format_lines ws [] = []"
| "format_lines ws (l # ls) =
     (if length l \<le> length ws + 1 then write_line ws l # format_lines ws ls
      else
        let block = takeWhile (\<lambda>m. length m > length ws + 1) (l # ls) in
        format_lines (ws @ [column_width (length ws) block]) block @
        format_lines ws (dropWhile (\<lambda>m. length m > length ws + 1) ls))"
  by pat_completeness auto

termination
proof (relation "measures [\<lambda>(ws, ls). sum_list (map (\<lambda>l. length l - length ws) ls), \<lambda>(ws, ls). length ls]", goal_cases)
  case (3 ws l ls x)
  let ?b = "takeWhile (\<lambda>m. length ws + 1 < length m) ls"
  have "sum_list (map (\<lambda>m. length m - Suc (length ws)) ?b) \<le> sum_list (map (\<lambda>m. length m - length ws) ?b)"
    by (rule sum_list_shorter) (auto dest: set_takeWhileD)
  also have "\<dots> \<le> sum_list (map (\<lambda>m. length m - length ws) ls)" by (rule sum_list_takeWhile)
  finally show ?case using 3 by simp arith
next
  case (4 ws l ls x)
  then show ?case using sum_list_dropWhile [of "\<lambda>m. length m - length ws" "\<lambda>m. length ws + 1 < length m" ls] by simp arith
qed auto

fun joined :: "string list \<Rightarrow> string" where
  "joined [] = []"
| "joined [l] = l"
| "joined (l # m # ls) = l @ [NL] @ joined (m # ls)"

definition tabwriter :: "string \<Rightarrow> string" where
  "tabwriter text = joined (concat (map (\<lambda>section.
     format_lines [] (map (splits (\<lambda>c. c = TAB \<or> c = VT)) (splits (\<lambda>c. c = NL) section))) (splits (\<lambda>c. c = FF) text)))"

subsection \<open>Time stamps\<close>

text \<open>The civil date of a day, counted from 1 January of the year 1, as \<^verbatim>\<open>time.Time\<close> computes it:
  cycles of 400, 100, 4 and 1 years are cut off in turn, then the month is found in the table of
  the days before each month of a common year.\<close>

definition isLeap :: "int \<Rightarrow> bool" where
  "isLeap y \<longleftrightarrow> y mod 4 = 0 \<and> (y mod 100 \<noteq> 0 \<or> y mod 400 = 0)"

definition daysBefore :: "int \<Rightarrow> int" where
  "daysBefore m = [0, 31, 59, 90, 120, 151, 181, 212, 243, 273, 304, 334, 365] ! nat m"

definition year_yday :: "int \<Rightarrow> int \<times> int" where
  "year_yday d =
     (let n400 = d div 146097; d1 = d - 146097 * n400;
          c = d1 div 36524; n100 = c - c div 4; d2 = d1 - 36524 * n100;
          n4 = d2 div 1461; d3 = d2 - 1461 * n4;
          a = d3 div 365; n1 = a - a div 4
      in (400 * n400 + 100 * n100 + 4 * n4 + n1 + 1, d3 - 365 * n1))"

definition month_day :: "int \<Rightarrow> int \<Rightarrow> int \<times> int" where
  "month_day y yday =
     (if isLeap y \<and> yday = 59 then (2, 29)
      else
        let day = (if isLeap y \<and> yday > 59 then yday - 1 else yday);
            m = day div 31 in
        if day \<ge> daysBefore (m + 1) then (m + 2, day - daysBefore (m + 1) + 1)
        else (m + 1, day - daysBefore m + 1))"

definition appendInt :: "int \<Rightarrow> nat \<Rightarrow> string" where
  "appendInt x width =
     (let s = decimal (nat \<bar>x\<bar>) in
      (if x < 0 then ''-'' else []) @ replicate (width - length s) CHR ''0'' @ s)"

definition RFC3339 :: "Timestamp \<Rightarrow> string" where
  "RFC3339 t =
     (let sec = t div 1000000000; clock = sec mod 86400;
          (y, yday) = year_yday (sec div 86400 + 719162);
          (m, d) = month_day y yday
      in appendInt y 4 @ ''-'' @ appendInt m 2 @ ''-'' @ appendInt d 2 @ ''T'' @
         appendInt (clock div 3600) 2 @ '':'' @ appendInt (clock div 60 mod 60) 2 @ '':'' @ appendInt (clock mod 60) 2 @ ''Z'')"

definition formatTimestamp :: "Timestamp option \<Rightarrow> string" where
  "formatTimestamp ts = (case ts of None \<Rightarrow> [] | Some t \<Rightarrow> RFC3339 t)"

subsection \<open>JSON\<close>

text \<open>\<^verbatim>\<open>json.Marshal\<close> of a string: HTML metacharacters and the line separators U+2028 and U+2029
  are escaped too.\<close>

definition hex_digit :: "nat \<Rightarrow> char" where
  "hex_digit n = ''0123456789abcdef'' ! n"

definition json_char :: "char \<Rightarrow> string" where
  "json_char c =
     (if c = CHR 0x22 \<or> c = CHR 0x5C then [CHR 0x5C, c]
      else if c = CHR 0x08 then [CHR 0x5C, CHR ''b'']
      else if c = FF then [CHR 0x5C, CHR ''f'']
      else if c = NL then [CHR 0x5C, CHR ''n'']
      else if c = CHR 0x0D then [CHR 0x5C, CHR ''r'']
      else if c = TAB then [CHR 0x5C, CHR ''t'']
      else if c < CHR '' '' \<or> c = CHR ''<'' \<or> c = CHR ''>'' \<or> c = CHR ''&''
      then [CHR 0x5C, CHR ''u'', CHR ''0'', CHR ''0'', hex_digit (of_char c div 16), hex_digit (of_char c mod 16)]
      else [c])"

fun json_escape :: "string \<Rightarrow> string" where
  "json_escape [] = []"
| "json_escape (c # cs) =
     (if c = CHR 0xE2 \<and> take 2 cs = [CHR 0x80, CHR 0xA8] then CHR 0x5C # ''u2028'' @ json_escape (drop 2 cs)
      else if c = CHR 0xE2 \<and> take 2 cs = [CHR 0x80, CHR 0xA9] then CHR 0x5C # ''u2029'' @ json_escape (drop 2 cs)
      else json_char c @ json_escape cs)"

definition json_string :: "string \<Rightarrow> string" where
  "json_string s = [CHR 0x22] @ json_escape s @ [CHR 0x22]"

text \<open>The protojson encoder (multi-line), for each message that is printed.\<close>

record marshaller =
  mj_Pool :: "Pool \<Rightarrow> string option"
  mj_LeaseRecord :: "LeaseRecord \<Rightarrow> string option"
  mj_ClaimVMResponse :: "ClaimVMResponse \<Rightarrow> string option"
  mj_Host :: "Host \<Rightarrow> string option"
  mj_HostStatus :: "HostStatus \<Rightarrow> string option"

subsection \<open>Errors and writers\<close>

datatype CliErr =
    ErrOutputFormat string
  | ErrMarshal string
  | ErrWrite
  | ErrReadSpecFile string
  | ErrParseSpecFile string
  | ErrPoolWithoutNamespace
  | ErrNeedCAFile
  | ErrReadCAFile
  | ErrNoCertificates string
  | ErrLoadClientCert
  | ErrNewClientConn
  | ErrDial string CliErr
  | ErrRPC string
  | ErrPlain string
  | ErrCloseClient

text \<open>A writer takes a number of bytes, without limit if \<open>None\<close>, and then fails: what is written
  and the error, if any.\<close>

definition Fprint :: "nat option \<Rightarrow> string \<Rightarrow> string \<times> CliErr option" where
  "Fprint room text =
     (case room of None \<Rightarrow> (text, None)
      | Some n \<Rightarrow> if length text \<le> n then (text, None) else (take n text, Some ErrWrite))"

text \<open>A command's last step: print, or return the error of the printing function.\<close>

definition printed :: "nat option \<Rightarrow> CliErr + string \<Rightarrow> string \<times> CliErr option" where
  "printed room r = (case r of Inl e \<Rightarrow> ([], Some e) | Inr text \<Rightarrow> Fprint room text)"

subsection \<open>Output formats\<close>

definition OutputTable :: string where "OutputTable = ''table''"
definition OutputJSON :: string where "OutputJSON = ''json''"

definition parseOutputFormat :: "string \<Rightarrow> CliErr + string" where
  "parseOutputFormat s = (if s = OutputTable \<or> s = OutputJSON then Inr s else Inl (ErrOutputFormat s))"

definition with_format :: "string \<Rightarrow> CliErr + string \<Rightarrow> CliErr + string \<Rightarrow> CliErr + string" where
  "with_format format json table =
     (if format = OutputJSON then json
      else if format = OutputTable \<or> format = [] then table
      else Inl (ErrOutputFormat format))"

text \<open>One object, and an array stitched together element by element.\<close>

definition json_object :: "('a \<Rightarrow> string option) \<Rightarrow> string \<Rightarrow> 'a \<Rightarrow> CliErr + string" where
  "json_object marshal what x = (case marshal x of None \<Rightarrow> Inl (ErrMarshal what) | Some b \<Rightarrow> Inr (b @ [NL]))"

fun json_elems :: "('a \<Rightarrow> string option) \<Rightarrow> string \<Rightarrow> nat \<Rightarrow> 'a list \<Rightarrow> string \<Rightarrow> CliErr + string" where
  "json_elems marshal what i [] buf = Inr (buf @ '']'' @ [NL])"
| "json_elems marshal what i (x # xs) buf =
     (case marshal x of None \<Rightarrow> Inl (ErrMarshal what)
      | Some b \<Rightarrow> json_elems marshal what (i + 1) xs ((if i > 0 then buf @ '','' else buf) @ b))"

subsection \<open>Pools and leases\<close>

definition printPoolsJSON :: "marshaller \<Rightarrow> Pool list \<Rightarrow> CliErr + string" where
  "printPoolsJSON J ps = json_elems (mj_Pool J) ''pool'' 0 ps ''[''"

definition printPoolJSON :: "marshaller \<Rightarrow> Pool \<Rightarrow> CliErr + string" where
  "printPoolJSON J p = json_object (mj_Pool J) ''pool'' p"

definition pool_cells :: "Pool \<Rightarrow> string list" where
  "pool_cells p =
     [ps_Name (pool_Spec p), ps_Namespace (pool_Spec p), fmt_int (ps_Size (pool_Spec p)),
      fmt_int (pst_AvailableCount (pool_Status p)), fmt_int (pst_LeasedCount (pool_Status p)),
      fmt_int (pst_ProvisioningCount (pool_Status p)), fmt_int (pst_QuarantinedCount (pool_Status p))]"

definition printPoolsTable :: "Pool list \<Rightarrow> CliErr + string" where
  "printPoolsTable ps = Inr (tabwriter
     (tabbed [''NAME'', ''NAMESPACE'', ''SIZE'', ''AVAILABLE'', ''LEASED'', ''PROVISIONING'', ''QUARANTINED''] @
      concat (map (\<lambda>p. tabbed (pool_cells p)) ps)))"

definition printPoolTable :: "Pool \<Rightarrow> CliErr + string" where
  "printPoolTable p = printPoolsTable [p]"

definition printPools :: "marshaller \<Rightarrow> Pool list \<Rightarrow> string \<Rightarrow> CliErr + string" where
  "printPools J ps format = with_format format (printPoolsJSON J ps) (printPoolsTable ps)"

definition printPool :: "marshaller \<Rightarrow> Pool \<Rightarrow> string \<Rightarrow> CliErr + string" where
  "printPool J p format = with_format format (printPoolJSON J p) (printPoolTable p)"

definition printLeasesJSON :: "marshaller \<Rightarrow> LeaseRecord list \<Rightarrow> CliErr + string" where
  "printLeasesJSON J ls = json_elems (mj_LeaseRecord J) ''lease'' 0 ls ''[''"

definition lease_cells :: "LeaseRecord \<Rightarrow> string list" where
  "lease_cells l =
     [l_LeaseId l, l_PoolName l, l_PoolNamespace l, l_VmUid l,
      formatTimestamp (l_ClaimedAt l), formatTimestamp (l_ExpiresAt l), l_RequestId l]"

definition printLeasesTable :: "LeaseRecord list \<Rightarrow> CliErr + string" where
  "printLeasesTable ls = Inr (tabwriter
     (tabbed [''LEASE_ID'', ''POOL'', ''NAMESPACE'', ''VM_UID'', ''CLAIMED_AT'', ''EXPIRES_AT'', ''REQUEST_ID''] @
      concat (map (\<lambda>l. tabbed (lease_cells l)) ls)))"

definition printLeases :: "marshaller \<Rightarrow> LeaseRecord list \<Rightarrow> string \<Rightarrow> CliErr + string" where
  "printLeases J ls format = with_format format (printLeasesJSON J ls) (printLeasesTable ls)"

definition printClaimJSON :: "marshaller \<Rightarrow> ClaimVMResponse \<Rightarrow> CliErr + string" where
  "printClaimJSON J resp = json_object (mj_ClaimVMResponse J) ''claim response'' resp"

definition iface_line :: "NetIfaces \<Rightarrow> string \<Rightarrow> string" where
  "iface_line ifaces name =
     (let i = (case map_of ifaces name of Some x \<Rightarrow> x | None \<Rightarrow> \<lparr>nis_HostDeviceName = [], nis_Index = 0, nis_MacAddress = []\<rparr>) in
      ''  '' @ name @ '': host_device='' @ nis_HostDeviceName i @ '' index='' @ fmt_int (nis_Index i) @
      '' mac='' @ nis_MacAddress i @ [NL])"

definition printClaimTable :: "ClaimVMResponse \<Rightarrow> CliErr + string" where
  "printClaimTable resp =
     (let head = tabwriter (tabbed [''LEASE_ID'', cl_LeaseId resp] @ tabbed [''VM_UID'', cl_VmUid resp] @
                            tabbed [''HOST'', cl_HostName resp @ '' ('' @ cl_HostAddress resp @ '')'']);
          ifaces = cl_NetworkInterfaces resp in
      Inr (if ifaces = [] then head
           else head @ ''NETWORK_INTERFACES:'' @ [NL] @ concat (map (iface_line ifaces) (sort (map fst ifaces)))))"

definition printClaim :: "marshaller \<Rightarrow> ClaimVMResponse \<Rightarrow> string \<Rightarrow> CliErr + string" where
  "printClaim J resp format = with_format format (printClaimJSON J resp) (printClaimTable resp)"

subsection \<open>Hosts\<close>

definition hostVersion :: "string \<Rightarrow> string" where
  "hostVersion v = (if v = [] then ''-'' else v)"

definition hostTLSMode :: "HostTLS \<Rightarrow> string" where
  "hostTLSMode t =
     (if tls_Insecure t then ''insecure''
      else if tls_CertFile t \<noteq> [] then ''mtls''
      else if tls_CaFile t \<noteq> [] then ''tls''
      else [])"

definition host_cells :: "Host \<Rightarrow> string list" where
  "host_cells h = [h_Name h, h_Address h, hostTLSMode (h_GetTls h), fmt_bool (h_Cordoned h), fmt_bool (h_Draining h)]"

definition printHostTable :: "Host \<Rightarrow> CliErr + string" where
  "printHostTable h = Inr (tabwriter
     (tabbed [''NAME'', ''ADDRESS'', ''TLS'', ''CORDONED'', ''DRAINING''] @ tabbed (host_cells h)))"

definition printHostJSON :: "marshaller \<Rightarrow> Host \<Rightarrow> CliErr + string" where
  "printHostJSON J h = json_object (mj_Host J) ''host'' h"

definition printHost :: "marshaller \<Rightarrow> Host \<Rightarrow> string \<Rightarrow> CliErr + string" where
  "printHost J h format = with_format format (printHostJSON J h) (printHostTable h)"

definition printHostStatusesJSON :: "marshaller \<Rightarrow> HostStatus list \<Rightarrow> CliErr + string" where
  "printHostStatusesJSON J hs = json_elems (mj_HostStatus J) ''host'' 0 hs ''[''"

definition host_status_cells :: "HostStatus \<Rightarrow> string list" where
  "host_status_cells hs = host_cells (hs_Host hs) @ [fmt_int (hs_VmCount hs), hostVersion (hs_FlintlockVersion hs)]"

definition printHostStatusesTable :: "HostStatus list \<Rightarrow> CliErr + string" where
  "printHostStatusesTable hs = Inr (tabwriter
     (tabbed [''NAME'', ''ADDRESS'', ''TLS'', ''CORDONED'', ''DRAINING'', ''VMS'', ''VERSION''] @
      concat (map (\<lambda>h. tabbed (host_status_cells h)) hs)))"

definition printHostStatuses :: "marshaller \<Rightarrow> HostStatus list \<Rightarrow> string \<Rightarrow> CliErr + string" where
  "printHostStatuses J hs format = with_format format (printHostStatusesJSON J hs) (printHostStatusesTable hs)"

definition printHostStatus :: "marshaller \<Rightarrow> HostStatus \<Rightarrow> string \<Rightarrow> CliErr + string" where
  "printHostStatus J hs format =
     with_format format (json_object (mj_HostStatus J) ''host'' hs) (printHostStatusesTable [hs])"

definition printHostRemoved :: "string \<Rightarrow> string \<Rightarrow> CliErr + string" where
  "printHostRemoved name format =
     with_format format
       (Inr (''{'' @ json_string ''name'' @ '':'' @ json_string name @ '','' @ json_string ''removed'' @ '':true}'' @ [NL]))
       (Inr (''host '' @ name @ '' removed'' @ [NL]))"

end
