(* ===== verification/CLI.thy ===== *)
theory CLI
  imports CLI_Output Host_Admin Pool_Admin Events_API
begin

text \<open>
  Model of the command-line client: \<^verbatim>\<open>src/internal/poolmgrctl\<close> (\<^verbatim>\<open>root.go\<close>, \<^verbatim>\<open>client.go\<close>,
  \<^verbatim>\<open>pool.go\<close>, \<^verbatim>\<open>lease.go\<close>, \<^verbatim>\<open>host.go\<close>, \<^verbatim>\<open>events.go\<close>). A command is a function of its parsed flags
  and of the clients of the four services, which it calls in the monad of the world: run against
  \<open>server_clients\<close>, a command reaches the handlers of this development. Its outcome is what it
  wrote to standard output and its error. Parsing the command line, checking that required flags
  are there and the order of a command's phases (\<open>Args\<close>, the persistent pre-run that dials, \<open>RunE\<close>,
  and after a success the post-run that closes) are cobra's; \<open>execute\<close> fixes that order.
\<close>

section \<open>Definitions\<close>

subsection \<open>Connecting\<close>

record connFlags =
  cf_addr :: string
  cf_insecure :: bool
  cf_caFile :: string
  cf_certFile :: string
  cf_keyFile :: string

definition defaultAddr :: string where "defaultAddr = ''127.0.0.1:9090''"

definition cli_dialCredentials :: "dialer \<Rightarrow> connFlags \<Rightarrow> CliErr + Creds" where
  "cli_dialCredentials D cf =
     (if cf_insecure cf then Inr InsecureCreds
      else if cf_caFile cf = [] then Inl ErrNeedCAFile
      else
        (case d_ReadFile D (cf_caFile cf) of None \<Rightarrow> Inl ErrReadCAFile
         | Some caPEM \<Rightarrow>
           if \<not> d_HasCerts D caPEM then Inl (ErrNoCertificates (cf_caFile cf))
           else if cf_certFile cf \<noteq> [] then
             (if d_LoadX509KeyPair D (cf_certFile cf) (cf_keyFile cf)
              then Inr (TLSCreds caPEM (Some (cf_certFile cf, cf_keyFile cf)))
              else Inl ErrLoadClientCert)
           else Inr (TLSCreds caPEM None)))"

definition dial :: "dialer \<Rightarrow> connFlags \<Rightarrow> CliErr + Creds" where
  "dial D cf =
     (case cli_dialCredentials D cf of Inl e \<Rightarrow> Inl e
      | Inr creds \<Rightarrow> if d_NewClient D (cf_addr cf) then Inr creds else Inl ErrNewClientConn)"

subsection \<open>Errors\<close>

text \<open>An error of a call: a gRPC status, or another error with its text.\<close>

datatype RpcErr = StatusErr Code string | OtherErr string

fun rpc_code :: "RpcErr \<Rightarrow> Code" where
  "rpc_code (StatusErr c _) = c"
| "rpc_code (OtherErr _) = Unknown"

text \<open>The names of the codes are ASCII letters, in PascalCase.\<close>

definition is_upper :: "char \<Rightarrow> bool" where
  "is_upper c \<longleftrightarrow> CHR ''A'' \<le> c \<and> c \<le> CHR ''Z''"

fun snake :: "nat \<Rightarrow> string \<Rightarrow> string" where
  "snake i [] = []"
| "snake i (r # rs) = (if i > 0 \<and> is_upper r then ''_'' else []) @ [lower r] @ snake (i + 1) rs"

definition snakeCaseCode :: "(Code \<Rightarrow> string) \<Rightarrow> Code \<Rightarrow> string" where
  "snakeCaseCode codeString c = snake 0 (codeString c)"

fun wrapGRPCErr :: "(Code \<Rightarrow> string) \<Rightarrow> RpcErr \<Rightarrow> CliErr" where
  "wrapGRPCErr codeString (StatusErr c m) = ErrRPC (snakeCaseCode codeString c @ '': '' @ m)"
| "wrapGRPCErr codeString (OtherErr m) = ErrPlain m"

definition ExitCode :: "CliErr option \<Rightarrow> int" where
  "ExitCode err = (case err of None \<Rightarrow> 0 | Some _ \<Rightarrow> 1)"

subsection \<open>The process\<close>

text \<open>What a run of the client gets from outside: the names of the status codes, the protojson
  codec, the files, TLS and gRPC libraries, the room left on standard output, and whether closing
  the connection fails.\<close>

record cli =
  x_codeString :: "Code \<Rightarrow> string"
  x_codec :: marshaller
  x_unmarshal :: "string \<Rightarrow> PoolSpec option"
  x_dialer :: dialer
  x_room :: "nat option"
  x_closeErr :: bool

type_synonym outcome = "string \<times> CliErr option"

datatype RecvErr = EOF | RecvErr RpcErr

type_synonym eventStream = "nat \<Rightarrow> RecvErr + Event"

record apiClients =
  c_CreatePool :: "PoolSpec option \<Rightarrow> (RpcErr + Pool) M"
  c_UpdatePool :: "PoolSpec option \<Rightarrow> (RpcErr + Pool) M"
  c_DeletePool :: "PoolRef \<Rightarrow> bool \<Rightarrow> (RpcErr + unit) M"
  c_GetPool :: "PoolRef \<Rightarrow> (RpcErr + Pool) M"
  c_ListPools :: "string option \<Rightarrow> (RpcErr + Pool list) M"
  c_ClaimVM :: "ClaimVMRequest \<Rightarrow> (RpcErr + ClaimVMResponse) M"
  c_ReleaseVM :: "string \<Rightarrow> (RpcErr + unit) M"
  c_ListLeases :: "PoolRef option \<Rightarrow> (RpcErr + LeaseRecord list) M"
  c_Subscribe :: "PoolRef \<Rightarrow> (RpcErr + eventStream) M"
  c_AddHost :: "Host \<Rightarrow> bool \<Rightarrow> (RpcErr + Host) M"
  c_UpdateHost :: "Host \<Rightarrow> bool \<Rightarrow> (RpcErr + Host) M"
  c_RemoveHost :: "string \<Rightarrow> (RpcErr + unit) M"
  c_GetHost :: "string \<Rightarrow> (RpcErr + HostStatus) M"
  c_ListHosts :: "(RpcErr + HostStatus list) M"
  c_CordonHost :: "string \<Rightarrow> string \<Rightarrow> (RpcErr + Host) M"
  c_UncordonHost :: "string \<Rightarrow> (RpcErr + Host) M"
  c_DrainHost :: "string \<Rightarrow> string \<Rightarrow> (RpcErr + Host) M"

text \<open>The last lines of every \<open>RunE\<close>: the error of the call, or the response printed.\<close>

definition rendered :: "cli \<Rightarrow> ('r \<Rightarrow> CliErr + string) \<Rightarrow> RpcErr + 'r \<Rightarrow> outcome" where
  "rendered X pr r =
     (case r of Inl e \<Rightarrow> ([], Some (wrapGRPCErr (x_codeString X) e)) | Inr resp \<Rightarrow> printed (x_room X) (pr resp))"

subsection \<open>Host commands\<close>

definition newHostDrainCmd :: "cli \<Rightarrow> apiClients \<Rightarrow> string \<Rightarrow> string \<Rightarrow> string \<Rightarrow> outcome M" where
  "newHostDrainCmd X C name reason output =
     (case parseOutputFormat output of Inl e \<Rightarrow> ret ([], Some e)
      | Inr format \<Rightarrow> do {
          r \<leftarrow> c_DrainHost C name reason;
          ret (rendered X (\<lambda>host. printHost (x_codec X) host format) r) })"

definition newHostCordonCmd :: "cli \<Rightarrow> apiClients \<Rightarrow> string \<Rightarrow> string \<Rightarrow> string \<Rightarrow> outcome M" where
  "newHostCordonCmd X C name reason output =
     (case parseOutputFormat output of Inl e \<Rightarrow> ret ([], Some e)
      | Inr format \<Rightarrow> do {
          r \<leftarrow> c_CordonHost C name reason;
          ret (rendered X (\<lambda>host. printHost (x_codec X) host format) r) })"

definition newHostUncordonCmd :: "cli \<Rightarrow> apiClients \<Rightarrow> string \<Rightarrow> string \<Rightarrow> outcome M" where
  "newHostUncordonCmd X C name output =
     (case parseOutputFormat output of Inl e \<Rightarrow> ret ([], Some e)
      | Inr format \<Rightarrow> do {
          r \<leftarrow> c_UncordonHost C name;
          ret (rendered X (\<lambda>host. printHost (x_codec X) host format) r) })"

definition newHostListCmd :: "cli \<Rightarrow> apiClients \<Rightarrow> string \<Rightarrow> outcome M" where
  "newHostListCmd X C output =
     (case parseOutputFormat output of Inl e \<Rightarrow> ret ([], Some e)
      | Inr format \<Rightarrow> do {
          r \<leftarrow> c_ListHosts C;
          ret (rendered X (\<lambda>hs. printHostStatuses (x_codec X) hs format) r) })"

record hostSpecFlags =
  hf_address :: string
  hf_insecure :: bool
  hf_caFile :: string
  hf_certFile :: string
  hf_keyFile :: string
  hf_skipValidation :: bool

definition hostSpecFlags_host :: "hostSpecFlags \<Rightarrow> string \<Rightarrow> Host" where
  "hostSpecFlags_host f name = \<lparr>h_Name = name, h_Address = hf_address f, h_Cordoned = False, h_CordonedReason = [],
     h_CordonedAt = None, h_UpdatedAt = None,
     h_Tls = Some \<lparr>tls_Insecure = hf_insecure f, tls_CaFile = hf_caFile f, tls_CertFile = hf_certFile f, tls_KeyFile = hf_keyFile f\<rparr>,
     h_Draining = False, h_DrainingAt = None\<rparr>"

definition newHostAddCmd :: "cli \<Rightarrow> apiClients \<Rightarrow> string \<Rightarrow> hostSpecFlags \<Rightarrow> string \<Rightarrow> outcome M" where
  "newHostAddCmd X C name spec output =
     (case parseOutputFormat output of Inl e \<Rightarrow> ret ([], Some e)
      | Inr format \<Rightarrow> do {
          r \<leftarrow> c_AddHost C (hostSpecFlags_host spec name) (hf_skipValidation spec);
          ret (rendered X (\<lambda>host. printHost (x_codec X) host format) r) })"

definition newHostUpdateCmd :: "cli \<Rightarrow> apiClients \<Rightarrow> string \<Rightarrow> hostSpecFlags \<Rightarrow> string \<Rightarrow> outcome M" where
  "newHostUpdateCmd X C name spec output =
     (case parseOutputFormat output of Inl e \<Rightarrow> ret ([], Some e)
      | Inr format \<Rightarrow> do {
          r \<leftarrow> c_UpdateHost C (hostSpecFlags_host spec name) (hf_skipValidation spec);
          ret (rendered X (\<lambda>host. printHost (x_codec X) host format) r) })"

definition newHostRemoveCmd :: "cli \<Rightarrow> apiClients \<Rightarrow> string \<Rightarrow> string \<Rightarrow> outcome M" where
  "newHostRemoveCmd X C name output =
     (case parseOutputFormat output of Inl e \<Rightarrow> ret ([], Some e)
      | Inr format \<Rightarrow> do {
          r \<leftarrow> c_RemoveHost C name;
          ret (rendered X (\<lambda>_. printHostRemoved name format) r) })"

definition newHostGetCmd :: "cli \<Rightarrow> apiClients \<Rightarrow> string \<Rightarrow> string \<Rightarrow> outcome M" where
  "newHostGetCmd X C name output =
     (case parseOutputFormat output of Inl e \<Rightarrow> ret ([], Some e)
      | Inr format \<Rightarrow> do {
          r \<leftarrow> c_GetHost C name;
          ret (rendered X (\<lambda>hs. printHostStatus (x_codec X) hs format) r) })"

subsection \<open>Pool commands\<close>

definition loadPoolSpec :: "cli \<Rightarrow> string \<Rightarrow> CliErr + PoolSpec" where
  "loadPoolSpec X path =
     (case d_ReadFile (x_dialer X) path of None \<Rightarrow> Inl (ErrReadSpecFile path)
      | Some data \<Rightarrow> (case x_unmarshal X data of None \<Rightarrow> Inl (ErrParseSpecFile path) | Some spec \<Rightarrow> Inr spec))"

text \<open>\<open>Args\<close> of \<open>pool create\<close> and \<open>pool update\<close>: the spec that \<open>RunE\<close> will send, nil for an empty
  file name.\<close>

definition spec_args :: "cli \<Rightarrow> string \<Rightarrow> CliErr + PoolSpec option" where
  "spec_args X specFile =
     (if specFile = [] then Inr None
      else (case loadPoolSpec X specFile of Inl e \<Rightarrow> Inl e | Inr loaded \<Rightarrow> Inr (Some loaded)))"

definition newPoolCreateCmd :: "cli \<Rightarrow> apiClients \<Rightarrow> PoolSpec option \<Rightarrow> outcome M" where
  "newPoolCreateCmd X C spec = do {
     r \<leftarrow> c_CreatePool C spec;
     ret (rendered X (\<lambda>pool. printPool (x_codec X) pool OutputTable) r) }"

definition newPoolUpdateCmd :: "cli \<Rightarrow> apiClients \<Rightarrow> PoolSpec option \<Rightarrow> outcome M" where
  "newPoolUpdateCmd X C spec = do {
     r \<leftarrow> c_UpdatePool C spec;
     ret (rendered X (\<lambda>pool. printPool (x_codec X) pool OutputTable) r) }"

definition newPoolDeleteCmd :: "cli \<Rightarrow> apiClients \<Rightarrow> string \<Rightarrow> string \<Rightarrow> bool \<Rightarrow> outcome M" where
  "newPoolDeleteCmd X C name namespace force = do {
     r \<leftarrow> c_DeletePool C \<lparr>pref_Name = name, pref_Namespace = namespace\<rparr> force;
     ret (rendered X (\<lambda>_. Inr (''pool '' @ namespace @ ''/'' @ name @ '' deleted'' @ [NL])) r) }"

definition newPoolGetCmd :: "cli \<Rightarrow> apiClients \<Rightarrow> string \<Rightarrow> string \<Rightarrow> string \<Rightarrow> outcome M" where
  "newPoolGetCmd X C name namespace output =
     (case parseOutputFormat output of Inl e \<Rightarrow> ret ([], Some e)
      | Inr format \<Rightarrow> do {
          r \<leftarrow> c_GetPool C \<lparr>pref_Name = name, pref_Namespace = namespace\<rparr>;
          ret (rendered X (\<lambda>pool. printPool (x_codec X) pool format) r) })"

text \<open>A filter flag is \<open>None\<close> when it was not given on the command line.\<close>

definition newPoolListCmd :: "cli \<Rightarrow> apiClients \<Rightarrow> string option \<Rightarrow> string \<Rightarrow> outcome M" where
  "newPoolListCmd X C namespace output =
     (case parseOutputFormat output of Inl e \<Rightarrow> ret ([], Some e)
      | Inr format \<Rightarrow> do {
          r \<leftarrow> c_ListPools C namespace;
          ret (rendered X (\<lambda>ps. printPools (x_codec X) ps format) r) })"

subsection \<open>Lease commands\<close>

definition newLeaseClaimCmd :: "cli \<Rightarrow> apiClients \<Rightarrow> string \<Rightarrow> string \<Rightarrow> string \<Rightarrow> string \<Rightarrow> outcome M" where
  "newLeaseClaimCmd X C pool namespace requestID output =
     (case parseOutputFormat output of Inl e \<Rightarrow> ret ([], Some e)
      | Inr format \<Rightarrow> do {
          r \<leftarrow> c_ClaimVM C \<lparr>cr_PoolName = pool, cr_PoolNamespace = namespace, cr_RequestId = requestID\<rparr>;
          ret (rendered X (\<lambda>resp. printClaim (x_codec X) resp format) r) })"

definition newLeaseReleaseCmd :: "cli \<Rightarrow> apiClients \<Rightarrow> string \<Rightarrow> outcome M" where
  "newLeaseReleaseCmd X C leaseID = do {
     r \<leftarrow> c_ReleaseVM C leaseID;
     ret (rendered X (\<lambda>_. Inr (''lease '' @ leaseID @ '' released'' @ [NL])) r) }"

definition lease_list_args :: "string option \<Rightarrow> string option \<Rightarrow> CliErr option" where
  "lease_list_args pool namespace =
     (if (pool \<noteq> None) \<noteq> (namespace \<noteq> None) then Some ErrPoolWithoutNamespace else None)"

definition newLeaseListCmd :: "cli \<Rightarrow> apiClients \<Rightarrow> string option \<Rightarrow> string option \<Rightarrow> string \<Rightarrow> outcome M" where
  "newLeaseListCmd X C pool namespace output =
     (case parseOutputFormat output of Inl e \<Rightarrow> ret ([], Some e)
      | Inr format \<Rightarrow> do {
          r \<leftarrow> c_ListLeases C
                (case pool of None \<Rightarrow> None
                 | Some p \<Rightarrow> Some \<lparr>pref_Name = p, pref_Namespace = (case namespace of None \<Rightarrow> [] | Some n \<Rightarrow> n)\<rparr>);
          ret (rendered X (\<lambda>ls. printLeases (x_codec X) ls format) r) })"

subsection \<open>Tailing events\<close>

fun EventType_name :: "EventType \<Rightarrow> string" where
  "EventType_name EVENT_TYPE_UNSPECIFIED = ''EVENT_TYPE_UNSPECIFIED''"
| "EventType_name VM_PROVISIONED = ''VM_PROVISIONED''"
| "EventType_name VM_AVAILABLE = ''VM_AVAILABLE''"
| "EventType_name VM_CLAIMED = ''VM_CLAIMED''"
| "EventType_name VM_RELEASED = ''VM_RELEASED''"
| "EventType_name VM_EXPIRING_SOON = ''VM_EXPIRING_SOON''"
| "EventType_name VM_DELETED_DUE_TO_EXPIRY = ''VM_DELETED_DUE_TO_EXPIRY''"
| "EventType_name VM_DELETED_ON_RELEASE = ''VM_DELETED_ON_RELEASE''"
| "EventType_name VM_HOOK_FAILED = ''VM_HOOK_FAILED''"
| "EventType_name POOL_REPLENISHING = ''POOL_REPLENISHING''"
| "EventType_name POOL_SIZE_BELOW_TARGET = ''POOL_SIZE_BELOW_TARGET''"
| "EventType_name VM_DELETED_ON_POOL_DELETE = ''VM_DELETED_ON_POOL_DELETE''"
| "EventType_name VM_DELETED_ON_HOST_DRAIN = ''VM_DELETED_ON_HOST_DRAIN''"

definition event_line :: "Event \<Rightarrow> string" where
  "event_line e = formatTimestamp (e_CreatedAt e) @ '' '' @ EventType_name (e_Type e) @ '' '' @ e_VmUid e @ '' '' @ e_PayloadJson e @ [NL]"

text \<open>The loop may run for ever: it returns nothing then. \<open>recv n\<close> is what the \<open>n\<close>-th \<open>Recv\<close>
  returns, and \<open>cancelled n\<close> says whether the context is cancelled when it does; \<open>room\<close> is the room
  left on the writer and \<open>out\<close> what has been written.\<close>

partial_function (option) tail_loop ::
  "(Code \<Rightarrow> string) \<Rightarrow> (nat \<Rightarrow> bool) \<Rightarrow> eventStream \<Rightarrow> nat \<Rightarrow> nat option \<Rightarrow> string \<Rightarrow> outcome option" where
  "tail_loop codeString cancelled recv n room out =
     (case recv n of
        Inl EOF \<Rightarrow> Some (out, None)
      | Inl (RecvErr e) \<Rightarrow>
          if cancelled n \<or> rpc_code e = Canceled then Some (out, None)
          else Some (out, Some (wrapGRPCErr codeString e))
      | Inr event \<Rightarrow>
          (case Fprint room (event_line event) of
             (text, Some err) \<Rightarrow> Some (out @ text, Some err)
           | (text, None) \<Rightarrow>
               tail_loop codeString cancelled recv (n + 1) (map_option (\<lambda>k. k - length text) room) (out @ text)))"

declare tail_loop.simps [code]

definition tailEvents :: "cli \<Rightarrow> (nat \<Rightarrow> bool) \<Rightarrow> eventStream \<Rightarrow> outcome option" where
  "tailEvents X cancelled recv = tail_loop (x_codeString X) cancelled recv 0 (x_room X) []"

definition newEventsTailCmd :: "cli \<Rightarrow> apiClients \<Rightarrow> (nat \<Rightarrow> bool) \<Rightarrow> string \<Rightarrow> string \<Rightarrow> outcome option M" where
  "newEventsTailCmd X C cancelled pool namespace = do {
     r \<leftarrow> c_Subscribe C \<lparr>pref_Name = pool, pref_Namespace = namespace\<rparr>;
     ret (case r of Inl e \<Rightarrow> Some ([], Some (wrapGRPCErr (x_codeString X) e))
          | Inr stream \<Rightarrow> tailEvents X cancelled stream) }"

subsection \<open>The root command\<close>

datatype Command =
    HostDrain string string string
  | HostCordon string string string
  | HostUncordon string string
  | HostList string
  | HostAdd string hostSpecFlags string
  | HostUpdate string hostSpecFlags string
  | HostRemove string string
  | HostGet string string
  | PoolCreate string
  | PoolUpdate string
  | PoolDelete string string bool
  | PoolGet string string string
  | PoolList "string option" string
  | LeaseClaim string string string string
  | LeaseRelease string
  | LeaseList "string option" "string option" string

text \<open>The \<open>Args\<close> phase of a command, and its \<open>RunE\<close> with the spec that phase has loaded.\<close>

fun command_args :: "cli \<Rightarrow> Command \<Rightarrow> CliErr + PoolSpec option" where
  "command_args X (PoolCreate specFile) = spec_args X specFile"
| "command_args X (PoolUpdate specFile) = spec_args X specFile"
| "command_args X (LeaseList pool namespace _) =
     (case lease_list_args pool namespace of Some e \<Rightarrow> Inl e | None \<Rightarrow> Inr None)"
| "command_args X _ = Inr None"

fun command_run :: "cli \<Rightarrow> apiClients \<Rightarrow> PoolSpec option \<Rightarrow> Command \<Rightarrow> outcome M" where
  "command_run X C spec (HostDrain n r out) = newHostDrainCmd X C n r out"
| "command_run X C spec (HostCordon n r out) = newHostCordonCmd X C n r out"
| "command_run X C spec (HostUncordon n out) = newHostUncordonCmd X C n out"
| "command_run X C spec (HostList out) = newHostListCmd X C out"
| "command_run X C spec (HostAdd n f out) = newHostAddCmd X C n f out"
| "command_run X C spec (HostUpdate n f out) = newHostUpdateCmd X C n f out"
| "command_run X C spec (HostRemove n out) = newHostRemoveCmd X C n out"
| "command_run X C spec (HostGet n out) = newHostGetCmd X C n out"
| "command_run X C spec (PoolCreate _) = newPoolCreateCmd X C spec"
| "command_run X C spec (PoolUpdate _) = newPoolUpdateCmd X C spec"
| "command_run X C spec (PoolDelete n ns force) = newPoolDeleteCmd X C n ns force"
| "command_run X C spec (PoolGet n ns out) = newPoolGetCmd X C n ns out"
| "command_run X C spec (PoolList ns out) = newPoolListCmd X C ns out"
| "command_run X C spec (LeaseClaim p ns i out) = newLeaseClaimCmd X C p ns i out"
| "command_run X C spec (LeaseRelease i) = newLeaseReleaseCmd X C i"
| "command_run X C spec (LeaseList p ns out) = newLeaseListCmd X C p ns out"

text \<open>The phases of a run: arguments, dialling, the command, and closing the connection unless the
  command failed.\<close>

definition execute :: "cli \<Rightarrow> connFlags \<Rightarrow> apiClients \<Rightarrow> Command \<Rightarrow> outcome M" where
  "execute X cf C cmd =
     (case command_args X cmd of Inl e \<Rightarrow> ret ([], Some e)
      | Inr spec \<Rightarrow>
        (case dial (x_dialer X) cf of Inl e \<Rightarrow> ret ([], Some (ErrDial (cf_addr cf) e))
         | Inr _ \<Rightarrow> do {
             r \<leftarrow> command_run X C spec cmd;
             ret (case r of (out, Some e) \<Rightarrow> (out, Some e)
                  | (out, None) \<Rightarrow> (out, if x_closeErr X then Some ErrCloseClient else None)) }))"

definition main_exit :: "outcome \<Rightarrow> int" where
  "main_exit r = (case snd r of None \<Rightarrow> 0 | Some e \<Rightarrow> ExitCode (Some e))"

subsection \<open>Clients of the server\<close>

text \<open>The clients of a server whose handlers run in the environment \<open>E\<close>: the transport hands over
  the request and brings back the response, or the status with a message that \<open>msg\<close> stands for.
  A nil spec reads as the empty one. A subscription is followed for \<open>rounds\<close> rounds.\<close>

definition over_wire :: "(Code \<Rightarrow> world \<Rightarrow> string) \<Rightarrow> (Code + 'r) M \<Rightarrow> (RpcErr + 'r) M" where
  "over_wire msg h = do {
     r \<leftarrow> h;
     w \<leftarrow> State_Monad.get;
     ret (case r of Inl c \<Rightarrow> Inl (StatusErr c (msg c w)) | Inr x \<Rightarrow> Inr x) }"

definition nil_PoolSpec :: PoolSpec where
  "nil_PoolSpec = \<lparr>ps_Name = [], ps_Namespace = [], ps_MicrovmTemplate = None, ps_Size = 0, ps_FlintlockHosts = [],
     ps_ReplenishmentStrategy = None, ps_CreateCommands = [], ps_PreLeaseCommands = [],
     ps_HookFailurePolicy = HOOK_FAILURE_POLICY_UNSPECIFIED, ps_HeartbeatInterval = None, ps_HeartbeatExpiryThreshold = None\<rparr>"

definition sent_stream :: "(Code \<Rightarrow> world \<Rightarrow> string) \<Rightarrow> world \<Rightarrow> Code option \<times> Event list \<Rightarrow> eventStream" where
  "sent_stream msg w s = (\<lambda>n.
     if n < length (snd s) then Inr (snd s ! n)
     else (case fst s of None \<Rightarrow> Inl EOF | Some c \<Rightarrow> Inl (RecvErr (StatusErr c (msg c w)))))"

definition server_clients :: "env \<Rightarrow> (Code \<Rightarrow> world \<Rightarrow> string) \<Rightarrow> nat \<Rightarrow> apiClients" where
  "server_clients E msg rounds =
     \<lparr>c_CreatePool = (\<lambda>spec. over_wire msg (API_CreatePool E (case spec of None \<Rightarrow> nil_PoolSpec | Some s \<Rightarrow> s))),
      c_UpdatePool = (\<lambda>spec. over_wire msg (API_UpdatePool E (case spec of None \<Rightarrow> nil_PoolSpec | Some s \<Rightarrow> s))),
      c_DeletePool = (\<lambda>ref force. over_wire msg (API_DeletePool E True (pref_Name ref) (pref_Namespace ref) force)),
      c_GetPool = (\<lambda>ref. over_wire msg (API_getPool E (pref_Name ref) (pref_Namespace ref))),
      c_ListPools = (\<lambda>ns. over_wire msg (API_ListPools E ns)),
      c_ClaimVM = (\<lambda>req. over_wire msg (ClaimVM E req)),
      c_ReleaseVM = (\<lambda>i. over_wire msg (ReleaseVM E i)),
      c_ListLeases = (\<lambda>ref. over_wire msg (API_ListLeases E ref)),
      c_Subscribe = (\<lambda>ref. do {
         s \<leftarrow> Subscribe E (Some ref) (nat (NewEventsServer_batch 0)) rounds 0;
         w \<leftarrow> State_Monad.get;
         ret (Inr (sent_stream msg w s)) }),
      c_AddHost = (\<lambda>h skip. over_wire msg (API_AddHost E (h_Name h) (h_Address h) (h_Tls h) skip)),
      c_UpdateHost = (\<lambda>h skip. over_wire msg (API_UpdateHost E (h_Name h) (h_Address h) (h_Tls h) skip)),
      c_RemoveHost = (\<lambda>n. over_wire msg (API_RemoveHost E n)),
      c_GetHost = (\<lambda>n. over_wire msg (API_GetHost E n)),
      c_ListHosts = over_wire msg (API_ListHosts E),
      c_CordonHost = (\<lambda>n r. over_wire msg (CordonHost E n r)),
      c_UncordonHost = (\<lambda>n. over_wire msg (UncordonHost E n)),
      c_DrainHost = (\<lambda>n r. over_wire msg (API_DrainHost E True True n r))\<rparr>"

end
