(* ===== verification/Host_Props.thy ===== *)
theory Host_Props
  imports Host_Admin Invariants Store_Hosts
begin

text \<open>
  What the HostAdmin handlers do to the registry of hosts: the rows of the store and the
  connections of the manager change together, or not at all. The one exception is shown too:
  an update whose caller goes away after the row has been written.
\<close>

section \<open>The steps of the handlers\<close>

text \<open>The connections are those of the stored hosts, to the stored addresses.\<close>

definition conns_match :: "world \<Rightarrow> bool" where
  "conns_match w \<longleftrightarrow> (\<forall>name. map_option c_address (wconns w name) = map_option hr_address (find_key hr_name name (hosts (wdb w))))"

definition same_registry :: "world \<Rightarrow> world \<Rightarrow> bool" where
  "same_registry w u \<longleftrightarrow> wdb u = wdb w \<and> wconns u = wconns w"

lemma same_registry_simps [simp]:
  "same_registry w w" "same_registry w (u\<lparr>wstep := k\<rparr>) = same_registry w u"
  "same_registry w u \<Longrightarrow> same_registry w (u\<lparr>wdb := wdb w\<rparr>)"
  by (simp_all add: same_registry_def)

lemma conns_match_same: "same_registry w u \<Longrightarrow> conns_match u = conns_match w"
  by (simp add: same_registry_def conns_match_def)

definition dialled :: "Host \<Rightarrow> bool \<Rightarrow> Conn \<Rightarrow> bool" where
  "dialled host skip conn \<longleftrightarrow> validateHost (Some host) = None \<and> c_name conn = h_Name host \<and> c_address conn = h_Address host \<and>
     (\<not> skip \<longrightarrow> c_versionOK conn)"

lemma Dial_Inr: "Dial D (Some host) = Inr conn \<Longrightarrow> dialled host True conn"
  by (auto simp: Dial_def dialled_def split: option.splits sum.splits if_splits)

lemma Conn_CheckVersion_None: "Conn_CheckVersion V resp c = (None, c') \<Longrightarrow> c_versionOK c' \<and> c_name c' = c_name c \<and> c_address c' = c_address c"
  by (auto simp: Conn_CheckVersion_def Let_def split: sum.splits option.splits if_splits)

lemma wp_dialHost:
  "wp (dialHost E host skip) (\<lambda>r u. same_registry w u \<and> (case r of Inl _ \<Rightarrow> True | Inr conn \<Rightarrow> dialled host skip conn)) w"
  unfolding dialHost_def
proof (rule wp_sum, goal_cases)
  case (2 conn)
  note d = Dial_Inr [OF 2]
  show ?case
  proof (rule wp_if, goal_cases)
    case 2
    then show ?case using d Conn_CheckVersion_None
      by (fastforce simp: wp_simps Let_def dialled_def split: prod.splits option.splits)
  qed (use d in \<open>simp add: wp_simps\<close>)
qed (simp add: wp_simps)

lemma wp_install:
  "wp (install E conn) (\<lambda>r u. r = None \<and> wdb u = wdb w \<and> wconns u = (wconns w)(c_name conn \<mapsto> conn)) w"
  by (auto simp: install_def wp_simps Pool_Update_def Pool_Add_def Let_def split: option.splits)

lemma GetHost_reads: "GetHost name d = Inr (h, d') \<Longrightarrow> d' = d \<and> find_key hr_name name (hosts d) \<noteq> None"
  by (auto simp: GetHost_def split: option.splits)

lemma wp_read_host:
  assumes "undisturbed E"
  shows "wp (storeCall E c (\<lambda>_. GetHost name)) (\<lambda>r u. same_registry w u \<and>
     (case r of Inl ErrNotFound \<Rightarrow> find_key hr_name name (hosts (wdb w)) = None | Inl _ \<Rightarrow> True
      | Inr h \<Rightarrow> find_key hr_name name (hosts (wdb w)) \<noteq> None)) w"
  using assms by (auto simp: wp_storeCall_undisturbed GetHost_def split: option.splits sum.splits StoreErr.splits)

section \<open>Adding a host\<close>

definition new_host :: "string \<Rightarrow> string \<Rightarrow> HostTLS option \<Rightarrow> int \<Rightarrow> Host" where
  "new_host name address tls now = \<lparr>h_Name = name, h_Address = address, h_Cordoned = False, h_CordonedReason = [],
     h_CordonedAt = None, h_UpdatedAt = Some now, h_Tls = tls, h_Draining = False, h_DrainingAt = None\<rparr>"

definition host_added :: "string \<Rightarrow> string \<Rightarrow> HostTLS option \<Rightarrow> bool \<Rightarrow> world \<Rightarrow> Code + Host \<Rightarrow> world \<Rightarrow> bool" where
  "host_added name address tls skip w res w' \<longleftrightarrow>
     (case res of Inl _ \<Rightarrow> same_registry w w'
      | Inr h \<Rightarrow> \<exists>now row conn. h = new_host name address tls now \<and> dialled h skip conn \<and> hostToRow h = Inr row \<and>
          find_key hr_name name (hosts (wdb w)) = None \<and>
          wdb w' = (wdb w)\<lparr>hosts := hosts (wdb w) @ [row]\<rparr> \<and> wconns w' = (wconns w)(name \<mapsto> conn))"

lemma host_added_Inl: "same_registry w u \<Longrightarrow> host_added name address tls skip w (Inl e) u"
  by (simp add: host_added_def)

lemma wp_store_host:
  assumes "undisturbed E" and "same_registry w u" and "dialled (new_host name address tls now) skip conn"
    and "find_key hr_name name (hosts (wdb w)) = None"
  shows "wp (do {
           r \<leftarrow> storeCall E Ctx (\<lambda>_. CreateHost (new_host name address tls now));
           case r of Inl e \<Rightarrow> ret (Inl (if e = ErrHostExists then AlreadyExists else Internal))
           | Inr _ \<Rightarrow> do {
             i \<leftarrow> install E conn;
             ret (case i of Some _ \<Rightarrow> Inl Internal | None \<Rightarrow> Inr (new_host name address tls now)) } })
         (host_added name address tls skip w) u"
proof (rule wp_seq [where P = "\<lambda>r x. case r of Inl e \<Rightarrow> same_registry w x
     | Inr _ \<Rightarrow> \<exists>row. hostToRow (new_host name address tls now) = Inr row \<and>
         wdb x = (wdb w)\<lparr>hosts := hosts (wdb w) @ [row]\<rparr> \<and> wconns x = wconns w"], goal_cases)
  case 1
  then show ?case using assms
    by (auto simp: wp_storeCall_undisturbed same_registry_def CreateHost_def split: sum.splits)
next
  case (2 r x)
  then show ?case
  proof (cases r)
    case (Inr _)
    with 2 obtain row where x: "hostToRow (new_host name address tls now) = Inr row"
        "wdb x = (wdb w)\<lparr>hosts := hosts (wdb w) @ [row]\<rparr>" "wconns x = wconns w" by auto
    show ?thesis unfolding Inr sum.case
    proof (rule wp_seq [OF wp_install], goal_cases)
      case (1 i y)
      then show ?case using x assms(3,4) by (auto simp: wp_return host_added_def dialled_def new_host_def)
    qed
  qed (simp add: wp_return host_added_Inl)
qed

lemma wp_API_AddHost:
  assumes E: "undisturbed E"
  shows "wp (API_AddHost E name address tls skip) (host_added name address tls skip w) w"
  unfolding API_AddHost_def new_host_def [symmetric] Let_def
proof (rule wp_seq [where P = "\<lambda>_. same_registry w"], goal_cases)
  case 1
  then show ?case by (simp add: Now_def wp_simps)
next
  case (2 now u)
  show ?case
  proof (rule wp_if, goal_cases)
    case 2
    show ?case
    proof (rule wp_seq [OF wp_read_host [OF E]], goal_cases)
      case (1 g v)
      then have v: "same_registry w v" using \<open>same_registry w u\<close> by (simp add: same_registry_def)
      show ?case
      proof (rule wp_if, goal_cases)
        case 2
        show ?case
        proof (rule wp_if, goal_cases)
          case 2
          then have none: "find_key hr_name name (hosts (wdb w)) = None"
            using 1 \<open>same_registry w u\<close> by (simp add: same_registry_def)
          show ?case
          proof (rule wp_seq [OF wp_dialHost], rule wp_sum, goal_cases)
            case (1 d x e)
            then show ?case using v by (simp add: wp_return host_added_Inl same_registry_def)
          next
            case (2 d x conn)
            then have "same_registry w x" "dialled (new_host name address tls now) skip conn"
              using v by (auto simp: same_registry_def)
            then show ?case using wp_store_host [OF E _ _ none] by simp
          qed
        qed (use v in \<open>simp add: wp_return host_added_Inl\<close>)
      qed (use v in \<open>simp add: wp_return host_added_Inl\<close>)
    qed
  qed (use 2 in \<open>simp add: wp_return host_added_Inl\<close>)
qed

section \<open>Removing a host\<close>

definition host_removed :: "string \<Rightarrow> world \<Rightarrow> Code + unit \<Rightarrow> world \<Rightarrow> bool" where
  "host_removed name w res w' \<longleftrightarrow>
     (case res of Inl _ \<Rightarrow> same_registry w w'
      | Inr _ \<Rightarrow> find_key hr_name name (hosts (wdb w)) \<noteq> None \<and> poolsNamingHost name (wdb w) = [] \<and> hostLoad name (wdb w) \<le> 0 \<and>
          wdb w' = (wdb w)\<lparr>hosts := sql_delete (\<lambda>r. hr_name r = name) (hosts (wdb w))\<rparr> \<and> wconns w' = (wconns w)(name := None))"

lemma Pool_Remove_conns: "snd (Pool_Remove b name p) = p(name := None)"
  by (auto simp: Pool_Remove_def split: option.splits)

lemma wp_API_RemoveHost:
  assumes E: "undisturbed E"
  shows "wp (API_RemoveHost E name) (host_removed name w) w"
  unfolding API_RemoveHost_def
proof (rule wp_if, goal_cases)
  case 2
  show ?case
  proof (rule wp_seq [where P = "\<lambda>r x. wconns x = wconns w \<and>
      (case r of Inl _ \<Rightarrow> wdb x = wdb w | Inr _ \<Rightarrow> DeleteHost name (wdb w) = Inr ((), wdb x))"], goal_cases)
    case 1
    then show ?case using E by (auto simp: wp_storeCall_undisturbed split: sum.splits)
  next
    case (2 r x)
    show ?case
    proof (rule wp_sum, goal_cases)
      case (1 e)
      then show ?case using 2 by (simp add: wp_return host_removed_def same_registry_def)
    next
      case (2 a)
      then show ?case using \<open>wconns x = _ \<and> _\<close> DeleteHost_Inr [of name "wdb w" "()" "wdb x"]
        by (simp add: wp_simps host_removed_def Pool_Remove_conns)
    qed
  qed
qed (simp add: wp_return host_removed_def)

section \<open>Updating a host\<close>

text \<open>On an error the connection is the old one, but the row may be the new one: the handler
  reads the row back with the caller's context after it has been written.\<close>

definition updated_host :: "string \<Rightarrow> string \<Rightarrow> HostTLS option \<Rightarrow> Host" where
  "updated_host name address tls = \<lparr>h_Name = name, h_Address = address, h_Cordoned = False, h_CordonedReason = [],
     h_CordonedAt = None, h_UpdatedAt = None, h_Tls = tls, h_Draining = False, h_DrainingAt = None\<rparr>"

definition host_updated :: "env \<Rightarrow> string \<Rightarrow> string \<Rightarrow> HostTLS option \<Rightarrow> bool \<Rightarrow> world \<Rightarrow> Code + Host \<Rightarrow> world \<Rightarrow> bool" where
  "host_updated E name address tls skip w res w' \<longleftrightarrow>
     (let written = (\<exists>now. UpdateHost_exec now (updated_host name address tls) (wdb w) = Inr ((), wdb w')) in
      case res of Inl _ \<Rightarrow> wconns w' = wconns w \<and> (wdb w' = wdb w \<or> written \<and> (\<exists>n. e_cancelled E n))
      | Inr h \<Rightarrow> written \<and> GetHost name (wdb w') = Inr (h, wdb w') \<and>
          (\<exists>conn. dialled (updated_host name address tls) skip conn \<and> wconns w' = (wconns w)(name \<mapsto> conn)))"

lemma host_updated_Inl: "same_registry w u \<Longrightarrow> host_updated E name address tls skip w (Inl e) u"
  by (simp add: host_updated_def same_registry_def)

lemma UpdateHost_exec_reads:
  "UpdateHost_exec now h d = Inr ((), d') \<Longrightarrow> \<exists>g. GetHost (h_Name h) d' = Inr (g, d')"
proof -
  assume u: "UpdateHost_exec now h d = Inr ((), d')"
  then have "find_key hr_name (h_Name h) (hosts d) \<noteq> None"
    by (auto simp: UpdateHost_exec_def checkRowsAffected_def Let_def sql_count_key split: if_splits)
  then show ?thesis using u
    by (auto simp: UpdateHost_exec_def checkRowsAffected_def Let_def GetHost_def find_key_sql_update split: if_splits)
qed

lemma wp_UpdateHost_M:
  assumes E: "undisturbed E"
  shows "wp (UpdateHost_M E Ctx h) (\<lambda>r x. wconns x = wconns w \<and>
    (case r of Inl e \<Rightarrow> wdb x = wdb w \<or> (\<exists>now. UpdateHost_exec now h (wdb w) = Inr ((), wdb x)) \<and> (\<exists>n. e_cancelled E n)
     | Inr g \<Rightarrow> (\<exists>now. UpdateHost_exec now h (wdb w) = Inr ((), wdb x)) \<and> GetHost (h_Name h) (wdb x) = Inr (g, wdb x))) w"
  unfolding UpdateHost_M_def
proof (rule wp_seq [where P = "\<lambda>r x. wconns x = wconns w \<and>
    (case r of Inl _ \<Rightarrow> wdb x = wdb w | Inr _ \<Rightarrow> \<exists>now. UpdateHost_exec now h (wdb w) = Inr ((), wdb x))"], goal_cases)
  case 1
  then show ?case using E by (auto simp: wp_storeCall_undisturbed split: sum.splits)
next
  case (2 r x)
  show ?case
  proof (rule wp_sum, goal_cases)
    case (1 e)
    then show ?case using 2 by (simp add: wp_return)
  next
    case (2 a)
    then obtain now where u: "UpdateHost_exec now h (wdb w) = Inr ((), wdb x)" "wconns x = wconns w"
      using \<open>wconns x = _ \<and> _\<close> by auto
    obtain g where g: "GetHost (h_Name h) (wdb x) = Inr (g, wdb x)" using UpdateHost_exec_reads [OF u(1)] by blast
    show ?case using E u g by (auto simp: wp_storeCall_undisturbed ctx_ok_def Let_def)
  qed
qed

lemma wp_API_UpdateHost:
  assumes E: "undisturbed E"
  shows "wp (API_UpdateHost E name address tls skip) (host_updated E name address tls skip w) w"
  unfolding API_UpdateHost_def updated_host_def [symmetric] Let_def
proof (rule wp_if, goal_cases)
  case 2
  show ?case
  proof (rule wp_seq [OF wp_read_host [OF E]], rule wp_sum, goal_cases)
    case (1 g v e)
    then show ?case by (simp add: wp_return host_updated_Inl)
  next
    case (2 g v a)
    then have v: "same_registry w v" by simp
    show ?case
    proof (rule wp_seq [OF wp_dialHost], rule wp_sum, goal_cases)
      case (1 d x e)
      then show ?case using v by (simp add: wp_return host_updated_Inl same_registry_def)
    next
      case (2 d x conn)
      then have x: "same_registry w x" "dialled (updated_host name address tls) skip conn"
        using v by (auto simp: same_registry_def)
      show ?case
      proof (rule wp_seq [OF wp_UpdateHost_M [OF E]], rule wp_sum, goal_cases)
        case (1 u y e)
        then show ?case using x by (auto simp: wp_return host_updated_def same_registry_def Let_def)
      next
        case (2 u y h)
        then have y: "wconns y = wconns w" "\<exists>now. UpdateHost_exec now (updated_host name address tls) (wdb w) = Inr ((), wdb y)"
            "GetHost name (wdb y) = Inr (h, wdb y)"
          using x by (auto simp: same_registry_def updated_host_def)
        show ?case
        proof (rule wp_seq [OF wp_install], goal_cases)
          case (1 i z)
          then show ?case using x y by (auto simp: wp_return host_updated_def dialled_def updated_host_def)
        qed
      qed
    qed
  qed
qed (simp add: wp_return host_updated_Inl)

section \<open>Connections follow the store\<close>

datatype host_op = Op_Add string string "HostTLS option" bool | Op_Update string string "HostTLS option" bool | Op_Remove string

fun host_op_run :: "env \<Rightarrow> host_op \<Rightarrow> bool M" where
  "host_op_run E (Op_Add n a t s) = do { r \<leftarrow> API_AddHost E n a t s; ret (is_ok r) }"
| "host_op_run E (Op_Update n a t s) = do { r \<leftarrow> API_UpdateHost E n a t s; ret (is_ok r) }"
| "host_op_run E (Op_Remove n) = do { r \<leftarrow> API_RemoveHost E n; ret (is_ok r) }"

lemma hostToRow_address: "hostToRow h = Inr row \<Longrightarrow> hr_name row = h_Name h \<and> hr_address row = h_Address h"
  by (auto simp: hostToRow_def split: sum.splits)

lemma match_added: "host_added n a t s w r w' \<Longrightarrow> conns_match w \<Longrightarrow> conns_match w'"
proof (cases r)
  case (Inr h)
  assume m: "conns_match w" and "host_added n a t s w r w'"
  then obtain now row conn where r: "h = new_host n a t now" "dialled h s conn" "hostToRow h = Inr row"
      "find_key hr_name n (hosts (wdb w)) = None" "wdb w' = (wdb w)\<lparr>hosts := hosts (wdb w) @ [row]\<rparr>" "wconns w' = (wconns w)(n \<mapsto> conn)"
    unfolding host_added_def Inr sum.case by blast
  have "c_address conn = a" "hr_name row = n" "hr_address row = a"
    using r(1,2) hostToRow_address [OF r(3)] by (simp_all add: dialled_def new_host_def)
  note r = r(4-6) this
  have "map_option c_address (wconns w' k) = map_option hr_address (find_key hr_name k (hosts (wdb w')))" for k
  proof -
    have "map_option c_address (wconns w k) = map_option hr_address (find_key hr_name k (hosts (wdb w)))"
      using m by (simp add: conns_match_def)
    then show ?thesis using r by (cases "k = n"; cases "find_key hr_name k (hosts (wdb w))") (simp_all add: find_key_append)
  qed
  then show ?thesis by (simp add: conns_match_def)
qed (simp add: host_added_def conns_match_same)

lemma match_removed: "host_removed n w r w' \<Longrightarrow> conns_match w \<Longrightarrow> conns_match w'"
  by (cases r) (auto simp: host_removed_def conns_match_same, simp add: conns_match_def find_key_sql_delete_key)

lemma UpdateHost_exec_address:
  assumes "UpdateHost_exec now h d = Inr ((), d')"
  shows "map_option hr_address (find_key hr_name k (hosts d')) =
    (if k = h_Name h then Some (h_Address h) else map_option hr_address (find_key hr_name k (hosts d)))"
proof -
  have "find_key hr_name (h_Name h) (hosts d) \<noteq> None"
    using assms by (auto simp: UpdateHost_exec_def checkRowsAffected_def Let_def sql_count_key split: if_splits)
  moreover have "find_key hr_name k (hosts d') = map_option (\<lambda>r. if hr_name r = h_Name h then r\<lparr>hr_address := h_Address h,
      hr_tlsInsecure := tls_Insecure (h_GetTls h), hr_caFile := tls_CaFile (h_GetTls h), hr_certFile := tls_CertFile (h_GetTls h),
      hr_keyFile := tls_KeyFile (h_GetTls h), hr_updatedAt := now\<rparr> else r) (find_key hr_name k (hosts d))"
    using assms by (auto simp: UpdateHost_exec_def checkRowsAffected_def Let_def find_key_sql_update split: if_splits)
  ultimately show ?thesis by (cases "find_key hr_name k (hosts d)") (auto dest: find_key_SomeD)
qed

lemma match_updated:
  assumes "host_updated E n a t s w r w'" and "conns_match w" and "is_ok r \<or> (\<forall>k. \<not> e_cancelled E k)"
  shows "conns_match w'"
proof (cases r)
  case (Inl e)
  then show ?thesis using assms by (auto simp: host_updated_def conns_match_def)
next
  case (Inr h)
  then obtain now conn where u: "UpdateHost_exec now (updated_host n a t) (wdb w) = Inr ((), wdb w')"
      "wconns w' = (wconns w)(n \<mapsto> conn)" "c_address conn = a"
    using assms(1) by (auto simp: host_updated_def dialled_def updated_host_def Let_def)
  then show ?thesis using assms(2) UpdateHost_exec_address [OF u(1)] by (simp add: conns_match_def updated_host_def)
qed



text \<open>The exception is real: an update whose caller goes away between the write and the read back
  leaves the new address in the store and the old connection in the manager.\<close>

theorem UpdateHost_can_split:
  "\<exists>E w w' conn row. undisturbed E \<and> conns_match w \<and>
     run_state (API_UpdateHost E ''h'' ''b:2'' (Some \<lparr>tls_Insecure = True, tls_CaFile = [], tls_CertFile = [], tls_KeyFile = []\<rparr>) True) w = (Inl Internal, w') \<and>
     wconns w' ''h'' = Some conn \<and> find_key hr_name ''h'' (hosts (wdb w')) = Some row \<and> c_address conn \<noteq> hr_address row"
proof -
  let ?E = "sample_env\<lparr>e_cancelled := (\<lambda>n. n = 2)\<rparr>"
  let ?t = "Some \<lparr>tls_Insecure = True, tls_CaFile = [], tls_CertFile = [], tls_KeyFile = []\<rparr>"
  let ?r = "run_state (API_UpdateHost ?E ''h'' ''b:2'' ?t True) (sample_world sample_db)"
  have f: "fst ?r = Inl Internal" "map_option c_address (wconns (snd ?r) ''h'') = Some ''a:1''"
      "map_option hr_address (find_key hr_name ''h'' (hosts (wdb (snd ?r)))) = Some ''b:2''" by code_simp+
  then obtain conn row where "wconns (snd ?r) ''h'' = Some conn" "c_address conn = ''a:1''"
      "find_key hr_name ''h'' (hosts (wdb (snd ?r))) = Some row" "hr_address row = ''b:2''" by auto
  moreover have "undisturbed ?E" by (simp add: undisturbed_def sample_env_def)
  moreover have "conns_match (sample_world sample_db)"
    by (simp add: conns_match_def sample_world_def sample_db_def sample_host_def)
  moreover have "?r = (Inl Internal, snd ?r)" using f(1) by (metis prod.collapse)
  moreover have "''a:1'' \<noteq> ''b:2''" by simp
  ultimately show ?thesis by metis
qed

end
