(* ===== verification/CLI_Props.thy ===== *)
theory CLI_Props
  imports CLI Host_Props
begin

text \<open>
  What the command-line client guarantees: tailing events returns exactly when the stream or the
  output ends, tables line up, and a command reports what the server did.
\<close>

section \<open>Tailing events\<close>

definition event_text :: "eventStream \<Rightarrow> nat \<Rightarrow> nat \<Rightarrow> string" where
  "event_text recv m n = concat (map (\<lambda>i. case recv i of Inl _ \<Rightarrow> [] | Inr e \<Rightarrow> event_line e) [m..<n])"

definition fits :: "nat option \<Rightarrow> string \<Rightarrow> bool" where
  "fits room s \<longleftrightarrow> (case room of None \<Rightarrow> True | Some k \<Rightarrow> length s \<le> k)"

abbreviation room_left :: "nat option \<Rightarrow> string \<Rightarrow> nat option" where
  "room_left room s \<equiv> map_option (\<lambda>k. k - length s) room"

lemma Fprint_fits: "Fprint room s = (if fits room s then (s, None) else (take (the room) s, Some ErrWrite))"
  by (auto simp: Fprint_def fits_def split: option.splits)

lemma event_text_same [simp]: "event_text recv n n = []"
  by (simp add: event_text_def)

lemma event_text_Suc: "m \<le> n \<Longrightarrow> event_text recv m (Suc n) =
    event_text recv m n @ (case recv n of Inl _ \<Rightarrow> [] | Inr e \<Rightarrow> event_line e)"
  by (simp add: event_text_def)

lemma fits_append: "fits room (s @ t) \<longleftrightarrow> fits room s \<and> fits (room_left room s) t"
  by (auto simp: fits_def split: option.splits)

lemma room_left_append: "room_left (room_left room s) t = room_left room (s @ t)"
  by (cases room) simp_all

text \<open>The loop passes over the events that arrive while there is room for them.\<close>

lemma tail_loop_events:
  assumes "m \<le> n" and "\<forall>i. m \<le> i \<and> i < n \<longrightarrow> (\<exists>e. recv i = Inr e)" and "fits room (event_text recv m n)"
  shows "tail_loop cs ca recv m room out =
    tail_loop cs ca recv n (room_left room (event_text recv m n)) (out @ event_text recv m n)"
  using assms
proof (induction n rule: dec_induct)
  case base
  then show ?case by (cases room) simp_all
next
  case (step n)
  then obtain e where e: "recv n = Inr e" by blast
  let ?t = "event_text recv m n"
  have t: "event_text recv m (Suc n) = ?t @ event_line e" using step(1) e by (simp add: event_text_Suc)
  then have f: "fits room ?t" "fits (room_left room ?t) (event_line e)" using step.prems by (simp_all add: fits_append)
  have "tail_loop cs ca recv m room out = tail_loop cs ca recv n (room_left room ?t) (out @ ?t)"
    using step f by simp
  also have "\<dots> = tail_loop cs ca recv (Suc n) (room_left (room_left room ?t) (event_line e)) ((out @ ?t) @ event_line e)"
    using e f by (subst tail_loop.simps) (simp add: Fprint_fits)
  finally show ?case by (simp only: t room_left_append append_assoc)
qed

definition tail_stops :: "eventStream \<Rightarrow> nat \<Rightarrow> nat option \<Rightarrow> nat \<Rightarrow> bool" where
  "tail_stops recv m room n \<longleftrightarrow> m \<le> n \<and> ((\<exists>e. recv n = Inl e) \<or> \<not> fits room (event_text recv m (Suc n)))"

lemma tail_stops_next:
  assumes "recv m = Inr e" and "tail_stops recv (Suc m) (room_left room (event_line e)) n" and "fits room (event_line e)"
  shows "tail_stops recv m room n"
proof -
  have "event_text recv m (Suc n) = event_line e @ event_text recv (Suc m) (Suc n)" if "m < n"
    using that assms(1) by (simp add: event_text_def upt_conv_Cons)
  then show ?thesis using assms by (auto simp: tail_stops_def fits_append)
qed

lemma tail_loop_stops: "tail_loop cs ca recv m room out = Some r \<Longrightarrow> \<exists>n. tail_stops recv m room n"
proof (erule tail_loop.raw_induct [where P = "\<lambda>cs ca recv m room out r. \<exists>n. tail_stops recv m room n", rotated], goal_cases)
  case (1 loop cs ca recv m room out r)
  show ?case
  proof (cases "recv m")
    case (Inl e)
    then show ?thesis by (auto simp: tail_stops_def)
  next
    case (Inr e)
    show ?thesis
    proof (cases "fits room (event_line e)")
      case True
      then have "\<exists>n. tail_stops recv (Suc m) (room_left room (event_line e)) n"
        using 1 Inr by (auto simp: Fprint_fits)
      then show ?thesis using tail_stops_next [of recv m e room] Inr True by blast
    next
      case False
      then have "tail_stops recv m room m" using Inr by (simp add: tail_stops_def event_text_Suc)
      then show ?thesis by blast
    qed
  qed
qed

text \<open>What the loop returns when it stops at the \<open>n\<close>-th \<open>Recv\<close>.\<close>

definition tail_result :: "cli \<Rightarrow> (nat \<Rightarrow> bool) \<Rightarrow> eventStream \<Rightarrow> nat \<Rightarrow> outcome" where
  "tail_result X cancelled recv n =
     (case recv n of
        Inl EOF \<Rightarrow> (event_text recv 0 n, None)
      | Inl (RecvErr e) \<Rightarrow> (event_text recv 0 n,
          if cancelled n \<or> rpc_code e = Canceled then None else Some (wrapGRPCErr (x_codeString X) e))
      | Inr _ \<Rightarrow> (take (the (x_room X)) (event_text recv 0 (Suc n)), Some ErrWrite))"

lemma tailEvents_stop:
  assumes "tail_stops recv 0 (x_room X) n" and "\<forall>i < n. \<not> tail_stops recv 0 (x_room X) i"
  shows "tailEvents X cancelled recv = Some (tail_result X cancelled recv n)"
proof -
  let ?t = "event_text recv 0 n"
  have ev: "\<exists>e. recv i = Inr e" if "i < n" for i
    using assms(2) that by (cases "recv i") (auto simp: tail_stops_def)
  have fit: "fits (x_room X) ?t"
  proof (cases n)
    case 0
    then show ?thesis by (simp add: fits_def split: option.splits)
  next
    case (Suc k)
    then show ?thesis using assms(2) by (auto simp: tail_stops_def)
  qed
  have loop: "tailEvents X cancelled recv = tail_loop (x_codeString X) cancelled recv n (room_left (x_room X) ?t) ?t"
    unfolding tailEvents_def by (subst tail_loop_events [of 0 n]) (use ev fit in auto)
  show ?thesis
  proof (cases "recv n")
    case (Inl e)
    then show ?thesis unfolding loop by (subst tail_loop.simps) (auto simp: tail_result_def split: RecvErr.splits)
  next
    case (Inr e)
    then have no: "\<not> fits (x_room X) (?t @ event_line e)" using assms(1) by (simp add: tail_stops_def event_text_Suc)
    then obtain k where k: "x_room X = Some k" "length ?t \<le> k" using fit by (auto simp: fits_def split: option.splits)
    have "\<not> fits (room_left (x_room X) ?t) (event_line e)" using no fit by (simp add: fits_append)
    then show ?thesis unfolding loop using Inr k
      by (subst tail_loop.simps) (simp add: Fprint_fits tail_result_def event_text_Suc)
  qed
qed

text \<open>C38: \<open>tailEvents\<close> returns exactly when its stream ends or fails, or its output does; a stream
  that goes on for ever is followed for ever. When it returns it has written every event received
  before that, in order, each on its line; it reports success at the end of the stream and when the
  context is cancelled, and otherwise the error.\<close>

theorem tailEvents_returns:
  "(tailEvents X cancelled recv \<noteq> None \<longleftrightarrow> (\<exists>n. tail_stops recv 0 (x_room X) n)) \<and>
   (\<forall>n. tail_stops recv 0 (x_room X) n \<and> (\<forall>i < n. \<not> tail_stops recv 0 (x_room X) i) \<longrightarrow>
      tailEvents X cancelled recv = Some (tail_result X cancelled recv n))"
proof
  have "tailEvents X cancelled recv \<noteq> None" if s: "\<exists>n. tail_stops recv 0 (x_room X) n"
  proof -
    obtain n where "tail_stops recv 0 (x_room X) n" "\<forall>i < n. \<not> tail_stops recv 0 (x_room X) i"
      using exists_least_iff [of "tail_stops recv 0 (x_room X)"] s by blast
    then show ?thesis using tailEvents_stop [of recv X n cancelled] by simp
  qed
  moreover have "\<exists>n. tail_stops recv 0 (x_room X) n" if "tailEvents X cancelled recv \<noteq> None"
    using that tail_loop_stops [of "x_codeString X" cancelled recv 0 "x_room X" "[]"] unfolding tailEvents_def by fast
  ultimately show "tailEvents X cancelled recv \<noteq> None \<longleftrightarrow> (\<exists>n. tail_stops recv 0 (x_room X) n)" by blast
qed (use tailEvents_stop in blast)

text \<open>A client with room to write, for the examples.\<close>

definition sample_cli :: cli where
  "sample_cli = \<lparr>x_codeString = (\<lambda>_. ''NotFound''),
     x_codec = \<lparr>mj_Pool = (\<lambda>_. Some ''{}''), mj_LeaseRecord = (\<lambda>_. Some ''{}''), mj_ClaimVMResponse = (\<lambda>_. Some ''{}''),
       mj_Host = (\<lambda>_. Some ''{}''), mj_HostStatus = (\<lambda>_. Some ''{}'')\<rparr>,
     x_unmarshal = (\<lambda>_. None), x_dialer = e_dialer sample_env, x_room = None, x_closeErr = False\<rparr>"

definition sample_stream :: eventStream where
  "sample_stream = sent_stream (\<lambda>_ _. []) (sample_world sample_db) (None, [scanEvent (sample_event 1 ''p'')])"

theorem tailEvents_returns_witness:
  "tailEvents sample_cli (\<lambda>_. False) sample_stream = Some (''1970-01-01T00:00:00Z VM_AVAILABLE v '' @ [NL], None)"
proof -
  have s: "sample_stream 0 = Inr (scanEvent (sample_event 1 ''p''))" "sample_stream 1 = Inl EOF"
    by (simp_all add: sample_stream_def sent_stream_def)
  have r: "x_room sample_cli = None" by (simp add: sample_cli_def)
  have "tail_stops sample_stream 0 (x_room sample_cli) 1" "\<forall>i < 1. \<not> tail_stops sample_stream 0 (x_room sample_cli) i"
    using s r by (simp_all add: tail_stops_def fits_def)
  then have "tailEvents sample_cli (\<lambda>_. False) sample_stream = Some (tail_result sample_cli (\<lambda>_. False) sample_stream 1)"
    using tailEvents_returns [of sample_cli "\<lambda>_. False" sample_stream] by blast
  moreover have "event_line (scanEvent (sample_event 1 ''p'')) = ''1970-01-01T00:00:00Z VM_AVAILABLE v '' @ [NL]" by code_simp
  ultimately show ?thesis using s by (simp add: tail_result_def event_text_def)
qed

section \<open>Tables\<close>

text \<open>A text without the characters that structure a table.\<close>

definition plain :: "string \<Rightarrow> bool" where
  "plain s \<longleftrightarrow> list_all (\<lambda>c. c \<noteq> TAB \<and> c \<noteq> NL \<and> c \<noteq> VT \<and> c \<noteq> FF) s"

lemma plain_chars:
  assumes "plain s"
  shows "list_all (\<lambda>c. \<not> (c = TAB \<or> c = VT)) s" "list_all (\<lambda>c. c \<noteq> NL \<and> c \<noteq> FF) s"
  using assms unfolding plain_def by (rule list.pred_mono_strong; blast)+

lemma splits_none: "list_all (\<lambda>c. \<not> p c) s \<Longrightarrow> splits p s = [s]"
  by (induction s) auto

lemma splits_sep: "list_all (\<lambda>c. \<not> p c) s \<Longrightarrow> p x \<Longrightarrow> splits p (s @ x # t) = s # splits p t"
  by (induction s) auto

text \<open>A line of a table without its newline.\<close>

fun line_of :: "string list \<Rightarrow> string" where
  "line_of [] = []"
| "line_of [c] = c"
| "line_of (c # d # cs) = c @ [TAB] @ line_of (d # cs)"

lemma tabbed_line: "tabbed cs = line_of cs @ [NL]"
  by (induction cs rule: line_of.induct) auto

lemma cells_of_line: "cs \<noteq> [] \<Longrightarrow> list_all plain cs \<Longrightarrow> splits (\<lambda>c. c = TAB \<or> c = VT) (line_of cs) = cs"
proof (induction cs rule: line_of.induct)
  case (3 c d cs)
  from splits_sep [OF plain_chars(1), of c TAB] show ?case using 3 by simp
next
  case (2 c)
  then show ?case using splits_none [OF plain_chars(1), of c] by simp
qed simp

lemma line_chars: "list_all plain cs \<Longrightarrow> list_all (\<lambda>c. c \<noteq> NL \<and> c \<noteq> FF) (line_of cs)"
  by (induction cs rule: line_of.induct) (simp_all add: plain_chars(2))

lemma lines_of_table:
  "list_all (list_all plain) rows \<Longrightarrow> splits (\<lambda>c. c = NL) (concat (map tabbed rows)) = map line_of rows @ [[]]"
proof (induction rows)
  case (Cons row rows)
  have "list_all (\<lambda>c. \<not> c = NL) (line_of row)"
    by (rule list.pred_mono_strong [OF line_chars]) (use Cons(2) in simp_all)
  from splits_sep [OF this, of NL] show ?case using Cons by (simp add: tabbed_line)
qed simp

lemma no_section: "list_all (list_all plain) rows \<Longrightarrow> splits (\<lambda>c. c = FF) (concat (map tabbed rows)) = [concat (map tabbed rows)]"
proof (rule splits_none)
  assume rows: "list_all (list_all plain) rows"
  have "list_all (\<lambda>c. \<not> c = FF) (tabbed row)" if "row \<in> set rows" for row
  proof -
    have "list_all (\<lambda>c. c \<noteq> FF) (line_of row)"
      by (rule list.pred_mono_strong [OF line_chars]) (use rows that in \<open>simp_all add: list_all_iff\<close>)
    then show ?thesis by (simp add: tabbed_line)
  qed
  then show "list_all (\<lambda>c. \<not> c = FF) (concat (map tabbed rows))" by (simp add: list_all_iff)
qed

text \<open>Rows of the same length form one block of columns.\<close>

lemma format_short: "length l \<le> length ws + 1 \<Longrightarrow> format_lines ws (l # ls) = write_line ws l # format_lines ws ls"
  by (subst format_lines.simps) simp

lemma format_long: "length ws + 1 < length l \<Longrightarrow> format_lines ws (l # ls) =
    format_lines (ws @ [column_width (length ws) (takeWhile (\<lambda>m. length ws + 1 < length m) (l # ls))]) (takeWhile (\<lambda>m. length ws + 1 < length m) (l # ls)) @
    format_lines ws (dropWhile (\<lambda>m. length ws + 1 < length m) ls)"
  by (subst format_lines.simps) (simp only: Let_def not_le [symmetric] if_False)

declare format_lines.simps(2) [simp del]

lemma format_block:
  assumes "\<forall>row \<in> set rows. length row = n" and "length ws < n"
  shows "format_lines ws rows = map (write_line (ws @ map (\<lambda>j. column_width j rows) [length ws..<n - 1])) rows"
  using assms
proof (induction "n - 1 - length ws" arbitrary: ws rows)
  case 0
  then have n: "n = length ws + 1" by simp
  have "format_lines ws rows = map (write_line ws) rows" using 0(2) n by (induction rows) (auto simp: format_short)
  then show ?case using n by simp
next
  case (Suc k)
  show ?case
  proof (cases rows)
    case (Cons l ls)
    have long: "length ws + 1 < n" using Suc(2) by simp
    then have all: "\<forall>m \<in> set rows. length ws + 1 < length m" using Suc(3) by simp
    then have tw: "takeWhile (\<lambda>m. length ws + 1 < length m) (l # ls) = rows" "dropWhile (\<lambda>m. length ws + 1 < length m) ls = []"
      using Cons by (simp_all add: takeWhile_eq_all_conv dropWhile_eq_Nil_conv)
    have "format_lines ws rows = format_lines (ws @ [column_width (length ws) rows]) rows"
      unfolding Cons using format_long [of ws l ls] all Cons unfolding tw by simp
    also have "\<dots> = map (write_line ((ws @ [column_width (length ws) rows]) @ map (\<lambda>j. column_width j rows) [length (ws @ [column_width (length ws) rows])..<n - 1])) rows"
      by (rule Suc(1)) (use Suc long in auto)
    finally show ?thesis using long by (simp add: upt_conv_Cons)
  qed simp
qed

lemma format_snoc:
  assumes "\<forall>row \<in> set rows. length row > 1"
  shows "format_lines [] (rows @ [[c]]) = format_lines [] rows @ [c]"
proof (cases rows)
  case (Cons l ls)
  have ls: "takeWhile (\<lambda>m. Suc 0 < length m) (ls @ [[c]]) = ls" "dropWhile (\<lambda>m. Suc 0 < length m) (ls @ [[c]]) = [[c]]"
      "takeWhile (\<lambda>m. Suc 0 < length m) ls = ls" "dropWhile (\<lambda>m. Suc 0 < length m) ls = []"
    using assms Cons by (simp_all add: takeWhile_append2 dropWhile_append2 takeWhile_eq_all_conv dropWhile_eq_Nil_conv)
  show ?thesis using assms Cons format_long [of "[]" l ls] format_long [of "[]" l "ls @ [[c]]"]
    by (simp add: ls format_short [of "[c]" "[]" "[]"])
qed (simp add: format_short)

lemma joined_snoc: "joined (ls @ [[]]) = concat (map (\<lambda>l. l @ [NL]) ls)"
proof (induction ls)
  case (Cons l ls)
  then show ?case by (cases ls) simp_all
qed simp

lemma tabwriter_table:
  assumes "list_all (list_all plain) rows" and "\<forall>row \<in> set rows. length row = n" and "1 < n"
  shows "tabwriter (concat (map tabbed rows)) =
    concat (map (\<lambda>row. write_line (map (\<lambda>j. column_width j rows) [0..<n - 1]) row @ [NL]) rows)"
proof -
  have "map (splits (\<lambda>c. c = TAB \<or> c = VT)) (map line_of rows @ [[]]) = rows @ [[[]]]"
    using assms by (force simp: list_all_iff intro!: map_idI cells_of_line)
  then have "tabwriter (concat (map tabbed rows)) = joined (format_lines [] (rows @ [[[]]]))"
    using assms(1) by (simp add: tabwriter_def lines_of_table no_section)
  also have "format_lines [] (rows @ [[[]]]) = map (write_line (map (\<lambda>j. column_width j rows) [0..<n - 1])) rows @ [[]]"
    using assms(2,3) format_block [of rows n "[]"] by (simp add: format_snoc)
  finally show ?thesis by (simp only: joined_snoc map_map comp_def)
qed

subsection \<open>Columns line up\<close>

lemma RuneCount_append [simp]: "RuneCount (s @ t) = RuneCount s + RuneCount t"
  by (simp add: RuneCount_def)

lemma RuneCount_spaces [simp]: "RuneCount (replicate n CHR '' '') = n"
  by (simp add: RuneCount_def)

lemma padded_spaces: "RuneCount c + 2 \<le> k \<Longrightarrow> RuneCount (padded c k) = k \<and> (\<exists>q. padded c k = q @ ''  '')"
proof
  assume k: "RuneCount c + 2 \<le> k"
  then show "RuneCount (padded c k) = k" by (simp add: padded_def)
  obtain n where n: "k = RuneCount c + 2 + n" using le_Suc_ex [OF k] by blast
  have "replicate (n + 2) CHR '' '' = replicate n CHR '' '' @ ''  ''" by (subst replicate_add) (simp add: numeral_2_eq_2)
  moreover have "k - RuneCount c = n + 2" using n by simp
  ultimately have "padded c k = (c @ replicate n CHR '' '') @ ''  ''" by (simp only: padded_def append_assoc)
  then show "\<exists>q. padded c k = q @ ''  ''" by blast
qed

text \<open>A cell starts at a rune of its line, after two spaces unless it is the first.\<close>

definition starts_at :: "string \<Rightarrow> nat \<Rightarrow> string \<Rightarrow> bool" where
  "starts_at line k cell \<longleftrightarrow> (\<exists>p s. line = p @ cell @ s \<and> RuneCount p = k \<and> (p = [] \<or> (\<exists>q. p = q @ ''  '')))"

lemma starts_at_first: "starts_at (cell @ s) 0 cell"
  unfolding starts_at_def by (intro exI [of _ "[]"] exI [of _ s]) (simp add: RuneCount_def)

lemma starts_at_after:
  assumes "starts_at line k cell" and "RuneCount c + 2 \<le> n"
  shows "starts_at (padded c n @ line) (n + k) cell"
proof -
  obtain p s where l: "line = p @ cell @ s" "RuneCount p = k" "p = [] \<or> (\<exists>q. p = q @ ''  '')"
    using assms(1) unfolding starts_at_def by blast
  obtain q where q: "RuneCount (padded c n) = n" "padded c n = q @ ''  ''" using padded_spaces [OF assms(2)] by blast
  have "\<exists>r. padded c n @ p = r @ ''  ''"
    using l(3) q(2) by (elim disjE exE) (simp_all only: append_Nil2, blast, metis append_assoc)
  then show ?thesis unfolding starts_at_def using l q(1) by (intro exI [of _ "padded c n @ p"] exI [of _ s]) simp
qed

lemma write_line_starts:
  assumes "length row = length ws + 1" and "\<forall>j < length ws. RuneCount (row ! j) + 2 \<le> ws ! j" and "j < length row"
  shows "starts_at (write_line ws row) (sum_list (take j ws)) (row ! j)"
  using assms
proof (induction ws row arbitrary: j rule: write_line.induct)
  case (2 c cs)
  then show ?case using starts_at_first [of c "[]"] by simp
next
  case (3 k ks c cs)
  show ?case
  proof (cases j)
    case 0
    then show ?thesis using starts_at_first by (simp add: padded_def)
  next
    case (Suc i)
    have "starts_at (write_line ks cs) (sum_list (take i ks)) (cs ! i)"
      by (rule 3(1)) (use 3(2-4) Suc in \<open>auto dest: spec [of _ "Suc _"]\<close>)
    moreover have "RuneCount c + 2 \<le> k" using 3(3) by (auto dest: spec [of _ 0])
    ultimately show ?thesis using Suc starts_at_after by simp
  qed
qed simp

text \<open>A text shows rows in columns: one line per row, the cells of a column starting at the same
  rune in every line, the columns from left to right.\<close>

definition lines_up :: "string list list \<Rightarrow> string \<Rightarrow> bool" where
  "lines_up rows text \<longleftrightarrow> (\<exists>offs lines. text = concat (map (\<lambda>l. l @ [NL]) lines) \<and> length lines = length rows \<and>
     sorted_wrt (<) offs \<and> (\<forall>i < length rows. length (rows ! i) = length offs \<and>
       (\<forall>j < length offs. starts_at (lines ! i) (offs ! j) (rows ! i ! j))))"

lemma column_width_ge: "row \<in> set rows \<Longrightarrow> RuneCount (row ! j) + 2 \<le> column_width j rows"
  by (induction rows) (auto simp: column_width_def)

lemma sorted_offsets: "\<forall>k \<in> set ws. 0 < k \<Longrightarrow> sorted_wrt (<) (map (\<lambda>j. sum_list (take j ws)) [0..<Suc (length ws)])" for ws :: "nat list"
proof (rule sorted_wrt_iff_nth_less [THEN iffD2], intro allI impI)
  fix i j assume ws: "\<forall>k \<in> set ws. 0 < k" and ij: "i < j" "j < length (map (\<lambda>j. sum_list (take j ws)) [0..<Suc (length ws)])"
  obtain m where m: "j = i + Suc m" using ij(1) less_natE by auto
  have i: "i < length ws" using ij by simp
  have "take j ws = take i ws @ (ws ! i # take m (drop (Suc i) ws))"
    unfolding m take_add using i by (simp add: Cons_nth_drop_Suc [symmetric])
  moreover have "0 < ws ! i" using ws i by simp
  ultimately have "sum_list (take i ws) < sum_list (take j ws)" by simp
  then show "map (\<lambda>j. sum_list (take j ws)) [0..<Suc (length ws)] ! i < map (\<lambda>j. sum_list (take j ws)) [0..<Suc (length ws)] ! j"
    using ij by (simp del: upt_Suc)
qed

lemma tabwriter_lines_up:
  assumes "list_all (list_all plain) rows" and "\<forall>row \<in> set rows. length row = n" and "1 < n" and "rows \<noteq> []"
  shows "lines_up rows (tabwriter (concat (map tabbed rows)))"
proof -
  let ?ws = "map (\<lambda>j. column_width j rows) [0..<n - 1]"
  let ?offs = "map (\<lambda>j. sum_list (take j ?ws)) [0..<Suc (length ?ws)]"
  have "0 < column_width j rows" for j using column_width_ge [of "hd rows" rows j] assms(4) by simp
  then have pos: "\<forall>k \<in> set ?ws. 0 < k" by simp
  have n: "length ?offs = n" using assms(3) by simp
  have row: "starts_at (write_line ?ws row) (?offs ! j) (row ! j)" if "row \<in> set rows" "j < n" for row j
  proof -
    have "starts_at (write_line ?ws row) (sum_list (take j ?ws)) (row ! j)"
      by (rule write_line_starts) (use that assms column_width_ge [OF that(1)] in \<open>auto simp del: upt_Suc\<close>)
    then show ?thesis using that(2) n by (simp del: upt_Suc)
  qed
  show ?thesis unfolding lines_up_def tabwriter_table [OF assms(1-3)]
    by (rule exI [of _ ?offs], rule exI [of _ "map (write_line ?ws) rows"])
      (use row n sorted_offsets [OF pos] assms(2) in \<open>simp add: comp_def del: upt_Suc\<close>)
qed

text \<open>What the printers write beside names is plain.\<close>

definition printable :: "string \<Rightarrow> bool" where
  "printable s \<longleftrightarrow> list_all (\<lambda>c. 32 \<le> (of_char c :: nat)) s"

lemma printable_plain: "printable s \<Longrightarrow> plain s"
proof -
  have "c \<noteq> TAB \<and> c \<noteq> NL \<and> c \<noteq> VT \<and> c \<noteq> FF" if "32 \<le> (of_char c :: nat)" for c using that by auto
  then show "printable s \<Longrightarrow> plain s" unfolding printable_def plain_def by (elim list.pred_mono_strong)
qed

lemma printable_append [simp]: "printable (s @ t) \<longleftrightarrow> printable s \<and> printable t"
  by (simp add: printable_def)

lemma printable_decimal [simp]: "printable (decimal n)"
  by (induction n rule: decimal.induct) (subst decimal.simps, simp add: printable_def)

lemma printable_fmt_int [simp]: "printable (fmt_int n)"
  using printable_decimal by (simp add: fmt_int_def printable_def)

lemma printable_appendInt [simp]: "printable (appendInt x k)"
proof -
  have "printable (replicate n CHR ''0'')" for n by (induction n) (simp_all add: printable_def)
  then show ?thesis by (simp add: appendInt_def Let_def) (simp add: printable_def)
qed

lemma printable_literals: "printable []" "printable ''-''" "printable ''T''" "printable '':''" "printable ''Z''"
  by (simp_all add: printable_def)

lemma printable_timestamp [simp]: "printable (formatTimestamp ts)"
  by (cases ts) (simp_all only: formatTimestamp_def option.case RFC3339_def Let_def case_prod_beta printable_append
      printable_literals printable_appendInt)

lemma printable_fmt_bool [simp]: "printable (fmt_bool b)"
  by (simp add: fmt_bool_def printable_def)

lemma printable_TLSMode [simp]: "printable (hostTLSMode t)"
  by (simp add: hostTLSMode_def printable_def)

lemma table_cells [simp]: "length (pool_cells p) = 7" "length (lease_cells l) = 7" "length (host_status_cells h) = 7"
  by (simp_all add: pool_cells_def lease_cells_def host_status_cells_def host_cells_def)

lemma plain_pool: "plain (ps_Name (pool_Spec p)) \<Longrightarrow> plain (ps_Namespace (pool_Spec p)) \<Longrightarrow> list_all plain (pool_cells p)"
  by (simp add: pool_cells_def printable_plain)

lemma plain_lease: "list_all plain [l_LeaseId l, l_PoolName l, l_PoolNamespace l, l_VmUid l, l_RequestId l] \<Longrightarrow> list_all plain (lease_cells l)"
  by (simp add: lease_cells_def printable_plain)

lemma plain_host_status:
  "list_all plain [h_Name (hs_Host h), h_Address (hs_Host h), hs_FlintlockVersion h] \<Longrightarrow> list_all plain (host_status_cells h)"
  by (simp add: host_status_cells_def host_cells_def hostVersion_def printable_plain)
    (simp add: plain_def)

text \<open>C40: the tables line up. If no name, address or id holds a tab, a line break or a form feed,
  each of the lists is printed as one line for the header and one per element, in order, whose
  cells start at the same rune in every line, after at least two spaces.\<close>

theorem tables_line_up:
  assumes "\<forall>p \<in> set ps. plain (ps_Name (pool_Spec p)) \<and> plain (ps_Namespace (pool_Spec p))"
    and "\<forall>l \<in> set ls. list_all plain [l_LeaseId l, l_PoolName l, l_PoolNamespace l, l_VmUid l, l_RequestId l]"
    and "\<forall>h \<in> set hs. list_all plain [h_Name (hs_Host h), h_Address (hs_Host h), hs_FlintlockVersion h]"
  shows "(\<exists>t. printPools J ps OutputTable = Inr t \<and>
      lines_up ([''NAME'', ''NAMESPACE'', ''SIZE'', ''AVAILABLE'', ''LEASED'', ''PROVISIONING'', ''QUARANTINED''] # map pool_cells ps) t) \<and>
    (\<exists>t. printLeases J ls OutputTable = Inr t \<and>
      lines_up ([''LEASE_ID'', ''POOL'', ''NAMESPACE'', ''VM_UID'', ''CLAIMED_AT'', ''EXPIRES_AT'', ''REQUEST_ID''] # map lease_cells ls) t) \<and>
    (\<exists>t. printHostStatuses J hs OutputTable = Inr t \<and>
      lines_up ([''NAME'', ''ADDRESS'', ''TLS'', ''CORDONED'', ''DRAINING'', ''VMS'', ''VERSION''] # map host_status_cells hs) t)"
proof -
  have up: "lines_up (h # map cells xs) (tabwriter (tabbed h @ concat (map (\<lambda>x. tabbed (cells x)) xs)))"
    if "list_all printable h" "length h = 7" "\<And>x. x \<in> set xs \<Longrightarrow> list_all plain (cells x)" "\<And>x. length (cells x) = 7"
    for h and cells :: "'x \<Rightarrow> string list" and xs
  proof -
    have "list_all plain h" using that(1) by (rule list.pred_mono_strong) (rule printable_plain)
    then show ?thesis using tabwriter_lines_up [of "h # map cells xs" 7] that by (auto simp: list_all_iff comp_def)
  qed
  have fmt: "with_format OutputTable a b = b" for a b by (simp add: with_format_def OutputTable_def OutputJSON_def)
  have "lines_up ([''NAME'', ''NAMESPACE'', ''SIZE'', ''AVAILABLE'', ''LEASED'', ''PROVISIONING'', ''QUARANTINED''] # map pool_cells ps)
      (tabwriter (tabbed [''NAME'', ''NAMESPACE'', ''SIZE'', ''AVAILABLE'', ''LEASED'', ''PROVISIONING'', ''QUARANTINED''] @
        concat (map (\<lambda>p. tabbed (pool_cells p)) ps)))"
    by (rule up) (use assms(1) plain_pool in \<open>simp_all add: printable_def\<close>)
  moreover have "lines_up ([''LEASE_ID'', ''POOL'', ''NAMESPACE'', ''VM_UID'', ''CLAIMED_AT'', ''EXPIRES_AT'', ''REQUEST_ID''] # map lease_cells ls)
      (tabwriter (tabbed [''LEASE_ID'', ''POOL'', ''NAMESPACE'', ''VM_UID'', ''CLAIMED_AT'', ''EXPIRES_AT'', ''REQUEST_ID''] @
        concat (map (\<lambda>l. tabbed (lease_cells l)) ls)))"
    by (rule up) (use assms(2) plain_lease in \<open>simp_all add: printable_def\<close>)
  moreover have "lines_up ([''NAME'', ''ADDRESS'', ''TLS'', ''CORDONED'', ''DRAINING'', ''VMS'', ''VERSION''] # map host_status_cells hs)
      (tabwriter (tabbed [''NAME'', ''ADDRESS'', ''TLS'', ''CORDONED'', ''DRAINING'', ''VMS'', ''VERSION''] @
        concat (map (\<lambda>h. tabbed (host_status_cells h)) hs)))"
    by (rule up) (use assms(3) plain_host_status in \<open>simp_all add: printable_def\<close>)
  ultimately show ?thesis
    unfolding printPools_def printLeases_def printHostStatuses_def fmt printPoolsTable_def printLeasesTable_def printHostStatusesTable_def
    by (simp only: sum.inject ex_simps simp_thms)
qed

theorem tables_line_up_witness:
  "\<exists>t. printPools (x_codec sample_cli) [\<lparr>pool_Spec = sample_pool, pool_Status = zero_status\<rparr>] OutputTable = Inr t \<and>
     lines_up [[''NAME'', ''NAMESPACE'', ''SIZE'', ''AVAILABLE'', ''LEASED'', ''PROVISIONING'', ''QUARANTINED''],
               pool_cells \<lparr>pool_Spec = sample_pool, pool_Status = zero_status\<rparr>] t"
proof -
  let ?p = "\<lparr>pool_Spec = sample_pool, pool_Status = zero_status\<rparr>"
  have "plain (ps_Name (pool_Spec ?p))" "plain (ps_Namespace (pool_Spec ?p))" by code_simp+
  then show ?thesis using tables_line_up [of "[?p]" "[]" "[]" "x_codec sample_cli"] by simp
qed

section \<open>Commands and the server\<close>

lemma run_over_wire: "run_state (over_wire msg h) w =
    (case run_state h w of (r, w') \<Rightarrow> (case r of Inl c \<Rightarrow> Inl (StatusErr c (msg c w')) | Inr x \<Rightarrow> Inr x, w'))"
  by (auto simp: over_wire_def split: prod.splits)

text \<open>A run whose only command is a call to the server, followed by printing.\<close>

lemma run_execute_call:
  assumes "command_args X cmd = Inr spec" and "command_run X C spec cmd = do { r \<leftarrow> over_wire msg h; ret (rendered X pr r) }"
    and "x_room X = None" and "\<not> x_closeErr X" and "\<And>v. \<exists>t. pr v = Inr t"
    and "run_state (execute X cf C cmd) w = (r, w')"
  shows "(main_exit r = 1 \<and> fst r = [] \<and> (w' = w \<or> (\<exists>c. run_state h w = (Inl c, w')))) \<or>
    (main_exit r = 0 \<and> (\<exists>v. run_state h w = (Inr v, w') \<and> pr v = Inr (fst r)))"
proof (cases "dial (x_dialer X) cf")
  case (Inl e)
  then show ?thesis using assms(1,6) by (auto simp: execute_def main_exit_def ExitCode_def)
next
  case (Inr creds)
  obtain res w1 where h: "run_state h w = (res, w1)" by (cases "run_state h w")
  show ?thesis
  proof (cases res)
    case (Inl c)
    then show ?thesis using Inr h assms(1,2,6)
      by (auto simp: execute_def run_over_wire rendered_def main_exit_def ExitCode_def)
  next
    case v: (Inr v)
    obtain t where "pr v = Inr t" using assms(5) by blast
    then show ?thesis using v Inr h assms(1-4,6)
      by (auto simp: execute_def run_over_wire rendered_def printed_def Fprint_def main_exit_def)
  qed
qed

lemma TLSMode_valid: "validateHost (Some h) = None \<Longrightarrow> hostTLSMode (h_GetTls h) \<noteq> []"
  by (auto simp: validateHost_def hostTLSMode_def Let_def split: if_splits)

lemma format_table: "parseOutputFormat OutputTable = Inr OutputTable" "with_format OutputTable a b = b"
  by (simp_all add: parseOutputFormat_def with_format_def OutputTable_def OutputJSON_def)

lemma printHost_lines_up:
  assumes "plain (h_Name h)" and "plain (h_Address h)"
  shows "\<exists>t. printHost J h OutputTable = Inr t \<and> lines_up [[''NAME'', ''ADDRESS'', ''TLS'', ''CORDONED'', ''DRAINING''], host_cells h] t"
proof -
  have "list_all plain (host_cells h)" using assms by (simp add: host_cells_def printable_plain)
  moreover have "list_all plain [''NAME'', ''ADDRESS'', ''TLS'', ''CORDONED'', ''DRAINING'']" by (simp add: plain_def)
  ultimately show ?thesis using tabwriter_lines_up [of "[[''NAME'', ''ADDRESS'', ''TLS'', ''CORDONED'', ''DRAINING''], host_cells h]" 5]
    by (simp add: printHost_def format_table printHostTable_def host_cells_def)
qed

lemma execute_HostAdd:
  assumes "undisturbed E" and "x_room X = None" and "\<not> x_closeErr X"
    and "run_state (execute X cf (server_clients E msg k) (HostAdd name f OutputTable)) w = (r, w')"
  shows "(main_exit r = 1 \<and> fst r = [] \<and> same_registry w w') \<or>
    (main_exit r = 0 \<and> (\<exists>h. host_added name (hf_address f) (h_Tls (hostSpecFlags_host f name)) (hf_skipValidation f) w (Inr h) w' \<and>
       printHost (x_codec X) h OutputTable = Inr (fst r)))"
proof -
  let ?tls = "h_Tls (hostSpecFlags_host f name)" and ?cmd = "HostAdd name f OutputTable"
  let ?h = "API_AddHost E name (hf_address f) ?tls (hf_skipValidation f)"
  have "command_run X (server_clients E msg k) None ?cmd =
      do { r \<leftarrow> over_wire msg ?h; ret (rendered X (\<lambda>h. printHost (x_codec X) h OutputTable) r) }"
    by (simp add: newHostAddCmd_def format_table server_clients_def hostSpecFlags_host_def)
  from run_execute_call [OF _ this assms(2,3) _ assms(4)]
  have "(main_exit r = 1 \<and> fst r = [] \<and> (w' = w \<or> (\<exists>c. run_state ?h w = (Inl c, w')))) \<or>
      (main_exit r = 0 \<and> (\<exists>h. run_state ?h w = (Inr h, w') \<and> printHost (x_codec X) h OutputTable = Inr (fst r)))"
    by (simp add: printHost_def format_table printHostTable_def)
  moreover have "host_added name (hf_address f) ?tls (hf_skipValidation f) w res w'" if "run_state ?h w = (res, w')" for res
    using wp_API_AddHost [OF assms(1), of name "hf_address f" ?tls "hf_skipValidation f" w] that by (simp add: wp_def)
  ultimately show ?thesis by (fastforce simp: host_added_def)
qed

lemma execute_HostRemove:
  assumes "undisturbed E" and "x_room X = None" and "\<not> x_closeErr X"
    and "run_state (execute X cf (server_clients E msg k) (HostRemove name OutputTable)) w = (r, w')"
  shows "(main_exit r = 1 \<and> fst r = [] \<and> same_registry w w') \<or>
    (main_exit r = 0 \<and> host_removed name w (Inr ()) w' \<and> fst r = ''host '' @ name @ '' removed'' @ [NL])"
proof -
  let ?cmd = "HostRemove name OutputTable"
  have "command_run X (server_clients E msg k) None ?cmd =
      do { r \<leftarrow> over_wire msg (API_RemoveHost E name); ret (rendered X (\<lambda>_. printHostRemoved name OutputTable) r) }"
    by (simp add: newHostRemoveCmd_def format_table server_clients_def)
  from run_execute_call [OF _ this assms(2,3) _ assms(4)]
  have "(main_exit r = 1 \<and> fst r = [] \<and> (w' = w \<or> (\<exists>c. run_state (API_RemoveHost E name) w = (Inl c, w')))) \<or>
      (main_exit r = 0 \<and> run_state (API_RemoveHost E name) w = (Inr (), w') \<and> fst r = ''host '' @ name @ '' removed'' @ [NL])"
    by (auto simp: printHostRemoved_def format_table)
  moreover have "host_removed name w res w'" if "run_state (API_RemoveHost E name) w = (res, w')" for res
    using wp_API_RemoveHost [OF assms(1), of name w] that by (simp add: wp_def)
  ultimately show ?thesis by (fastforce simp: host_removed_def)
qed


definition sample_flags :: hostSpecFlags where
  "sample_flags = \<lparr>hf_address = ''b:2'', hf_insecure = True, hf_caFile = [], hf_certFile = [], hf_keyFile = [], hf_skipValidation = False\<rparr>"

definition sample_conn :: connFlags where
  "sample_conn = \<lparr>cf_addr = defaultAddr, cf_insecure = True, cf_caFile = [], cf_certFile = [], cf_keyFile = []\<rparr>"


end
