(* ===== verification/Concurrency.thy ===== *)
theory Concurrency
  imports Pool_Props Store_Roundtrip
begin

text \<open>
  The locks of \<^verbatim>\<open>src/internal/api/pooladmin.go\<close> and \<^verbatim>\<open>src/internal/api/hostadmin.go\<close>: requests that
  write pools or remove hosts as threads that run one call at a time, interleaved with each other,
  with every other goroutine of the server, with shutdowns and with crashes and restarts. A request
  holds \<open>lockPool\<close>'s mutex of its pool from its first store call to its end, and \<open>hostRefsMu\<close> for
  reading (\<open>CreatePool\<close>, \<open>UpdatePool\<close>) or writing (\<open>RemoveHost\<close>). What the locks are for is shown
  here: the running reconcilers and the stored pools stay the same pools with the same specs, and a
  stored pool never names a host that is not registered.
\<close>

section \<open>Definitions\<close>

datatype write_op = OpCreate | OpUpdate

text \<open>Where a request is: what it holds and what it has done. \<open>W_\<close> is \<open>CreatePool\<close> or \<open>UpdatePool\<close>,
  \<open>U_\<close> is \<open>UpdatePool\<close> alone, \<open>D_\<close> is \<open>DeletePool\<close>, \<open>H_\<close> is \<open>RemoveHost\<close>.\<close>

datatype pc =
    Idle
  | W_Locked write_op PoolSpec
  | W_Refs write_op PoolSpec
  | W_Checked write_op PoolSpec
  | W_Looked write_op PoolSpec
  | U_Stored PoolSpec
  | W_Stored PoolSpec
  | W_Done PoolSpec
  | D_Locked string string
  | D_Found string string PoolSpec
  | D_Stopped string string PoolSpec
  | Leaving poolKey
  | H_Locked string
  | H_Done

record conc =
  c_db :: db
  c_mgr :: manager
  c_pc :: "nat \<Rightarrow> pc"
  c_poolLocks :: "poolKey \<Rightarrow> nat option"
  c_readers :: "nat set"
  c_writer :: "nat option"

definition goto :: "nat \<Rightarrow> pc \<Rightarrow> conc \<Rightarrow> conc" where
  "goto t p s = s\<lparr>c_pc := (c_pc s)(t := p)\<rparr>"

text \<open>\<open>lockPool\<close> and the function it returns; \<open>None\<close> is a thread that waits. A \<open>sync.RWMutex\<close> also
  holds back new readers while a writer waits, which only removes interleavings.\<close>

definition lockPool :: "nat \<Rightarrow> poolKey \<Rightarrow> conc \<Rightarrow> conc option" where
  "lockPool t k s = (if c_poolLocks s k = None then Some (s\<lparr>c_poolLocks := (c_poolLocks s)(k \<mapsto> t)\<rparr>) else None)"

definition unlockPool :: "poolKey \<Rightarrow> conc \<Rightarrow> conc" where
  "unlockPool k s = s\<lparr>c_poolLocks := (c_poolLocks s)(k := None)\<rparr>"

definition hostRefs_RLock :: "nat \<Rightarrow> conc \<Rightarrow> conc option" where
  "hostRefs_RLock t s = (if c_writer s = None then Some (s\<lparr>c_readers := insert t (c_readers s)\<rparr>) else None)"

definition hostRefs_RUnlock :: "nat \<Rightarrow> conc \<Rightarrow> conc" where
  "hostRefs_RUnlock t s = s\<lparr>c_readers := c_readers s - {t}\<rparr>"

definition hostRefs_Lock :: "nat \<Rightarrow> conc \<Rightarrow> conc option" where
  "hostRefs_Lock t s = (if c_writer s = None \<and> c_readers s = {} then Some (s\<lparr>c_writer := Some t\<rparr>) else None)"

definition hostRefs_Unlock :: "conc \<Rightarrow> conc" where
  "hostRefs_Unlock s = s\<lparr>c_writer := None\<rparr>"

text \<open>The call of \<open>StartReconciler\<close> whose error is only logged (\<open>restartReconciler\<close>).\<close>

definition restartReconciler :: "PoolSpec \<Rightarrow> manager \<Rightarrow> manager" where
  "restartReconciler spec m = (case StartReconciler spec m of Inl _ \<Rightarrow> m | Inr m' \<Rightarrow> m')"

text \<open>The answer of \<open>GetPool\<close> on which the request goes on.\<close>

fun lookup_ok :: "write_op \<Rightarrow> StoreErr + (PoolSpec \<times> db) \<Rightarrow> bool" where
  "lookup_ok OpCreate r \<longleftrightarrow> r = Inl ErrNotFound"
| "lookup_ok OpUpdate r \<longleftrightarrow> is_ok r"

definition hosts_known :: "db \<Rightarrow> PoolSpec \<Rightarrow> bool" where
  "hosts_known d spec \<longleftrightarrow> unknown_hosts (set (map hr_name (hosts d))) (ps_FlintlockHosts spec) [] = []"

text \<open>\<open>CreatePool\<close>, and as far as it is the same \<open>UpdatePool\<close>. Before its store write the request may
  give up at any point: a check refuses, a call fails, the caller goes away.\<close>

inductive write_step :: "protojson \<Rightarrow> nat \<Rightarrow> conc \<Rightarrow> conc \<Rightarrow> bool" for C t where
  write_lock: "c_pc s t = Idle \<Longrightarrow> validatePoolSpec req = Inr spec \<Longrightarrow> lockPool t (spec_key spec) s = Some s' \<Longrightarrow>
    write_step C t s (goto t (W_Locked op spec) s')"
| write_rlock: "c_pc s t = W_Locked op spec \<Longrightarrow> hostRefs_RLock t s = Some s' \<Longrightarrow>
    write_step C t s (goto t (W_Refs op spec) s')"
| write_check: "c_pc s t = W_Refs op spec \<Longrightarrow> hosts_known (c_db s) spec \<Longrightarrow>
    write_step C t s (goto t (W_Checked op spec) s)"
| write_look: "c_pc s t = W_Checked op spec \<Longrightarrow> lookup_ok op (GetPool C (ps_Name spec) (ps_Namespace spec) (c_db s)) \<Longrightarrow>
    write_step C t s (goto t (W_Looked op spec) s)"
| write_create: "c_pc s t = W_Looked OpCreate spec \<Longrightarrow> CreatePool C spec (c_db s) = Inr (u, d') \<Longrightarrow>
    write_step C t s (goto t (W_Stored spec) (s\<lparr>c_db := d'\<rparr>))"
| write_start: "c_pc s t = W_Stored spec \<Longrightarrow>
    write_step C t s (goto t (W_Done spec) (s\<lparr>c_mgr := restartReconciler spec (c_mgr s)\<rparr>))"
| write_give_up: "c_pc s t = W_Refs op spec \<or> c_pc s t = W_Checked op spec \<or> c_pc s t = W_Looked op spec \<Longrightarrow>
    write_step C t s (goto t (Leaving (spec_key spec)) (hostRefs_RUnlock t s))"
| write_runlock: "c_pc s t = W_Done spec \<Longrightarrow> write_step C t s (goto t (Leaving (spec_key spec)) (hostRefs_RUnlock t s))"
| write_unlock: "c_pc s t = Leaving k \<Longrightarrow> write_step C t s (goto t Idle (unlockPool k s))"

text \<open>What \<open>UpdatePool\<close> does instead of \<open>CreatePool\<close>'s write: the update, and the stop of the
  reconciler that runs the old spec.\<close>

inductive update_step :: "protojson \<Rightarrow> nat \<Rightarrow> conc \<Rightarrow> conc \<Rightarrow> bool" for C t where
  update_store: "c_pc s t = W_Looked OpUpdate spec \<Longrightarrow> UpdatePool C spec (c_db s) = Inr (u, d') \<Longrightarrow>
    update_step C t s (goto t (U_Stored spec) (s\<lparr>c_db := d'\<rparr>))"
| update_stop: "c_pc s t = U_Stored spec \<Longrightarrow>
    update_step C t s (goto t (W_Stored spec) (s\<lparr>c_mgr := StopReconciler (ps_Name spec) (ps_Namespace spec) (c_mgr s)\<rparr>))"

text \<open>\<open>DeletePool\<close>. After the reconciler is stopped either the transaction commits, or it finds no
  pool and nothing is restarted, or the request fails otherwise (the wait, the leases, the store)
  and the reconciler is restarted.\<close>

inductive delete_step :: "protojson \<Rightarrow> nat \<Rightarrow> conc \<Rightarrow> conc \<Rightarrow> bool" for C t where
  delete_lock: "c_pc s t = Idle \<Longrightarrow> lockPool t (PoolKey name ns) s = Some s' \<Longrightarrow>
    delete_step C t s (goto t (D_Locked name ns) s')"
| delete_look: "c_pc s t = D_Locked name ns \<Longrightarrow> GetPool C name ns (c_db s) = Inr (spec, d) \<Longrightarrow>
    delete_step C t s (goto t (D_Found name ns spec) s)"
| delete_give_up: "c_pc s t = D_Locked name ns \<or> c_pc s t = D_Found name ns spec \<Longrightarrow>
    delete_step C t s (goto t (Leaving (PoolKey name ns)) s)"
| delete_stop: "c_pc s t = D_Found name ns spec \<Longrightarrow>
    delete_step C t s (goto t (D_Stopped name ns spec) (s\<lparr>c_mgr := cancelAndForget name ns (c_mgr s)\<rparr>))"
| delete_commit: "c_pc s t = D_Stopped name ns spec \<Longrightarrow>
    DeletePoolAndMarkVMs now name ns force (c_db s) = Inr (marked, d') \<Longrightarrow>
    delete_step C t s (goto t (Leaving (PoolKey name ns)) (s\<lparr>c_db := d'\<rparr>))"
| delete_not_found: "c_pc s t = D_Stopped name ns spec \<Longrightarrow>
    DeletePoolAndMarkVMs now name ns force (c_db s) = Inl ErrNotFound \<Longrightarrow>
    delete_step C t s (goto t (Leaving (PoolKey name ns)) s)"
| delete_restart: "c_pc s t = D_Stopped name ns spec \<Longrightarrow>
    delete_step C t s (goto t (Leaving (PoolKey name ns)) (s\<lparr>c_mgr := restartReconciler spec (c_mgr s)\<rparr>))"

text \<open>\<open>RemoveHost\<close>: the delete may succeed or fail.\<close>

inductive remove_step :: "nat \<Rightarrow> conc \<Rightarrow> conc \<Rightarrow> bool" for t where
  remove_lock: "c_pc s t = Idle \<Longrightarrow> hostRefs_Lock t s = Some s' \<Longrightarrow> remove_step t s (goto t (H_Locked name) s')"
| remove_delete: "c_pc s t = H_Locked name \<Longrightarrow> DeleteHost name (c_db s) = Inr (u, d') \<Longrightarrow>
    remove_step t s (goto t H_Done (s\<lparr>c_db := d'\<rparr>))"
| remove_fail: "c_pc s t = H_Locked name \<Longrightarrow> remove_step t s (goto t H_Done s)"
| remove_unlock: "c_pc s t = H_Done \<Longrightarrow> remove_step t s (goto t Idle (hostRefs_Unlock s))"

text \<open>The transactions of all the other code, which holds none of these locks: they write no pool
  and remove no host. \<open>store_step_outside\<close> below says which they are.\<close>

definition outside :: "protojson \<Rightarrow> db \<Rightarrow> db \<Rightarrow> bool" where
  "outside C d d' \<longleftrightarrow> store_step C d d' \<and> pools d' = pools d \<and> hr_name ` set (hosts d) \<subseteq> hr_name ` set (hosts d')"

text \<open>A start of the process: nobody holds a lock and \<open>Seed\<close> has started the stored pools.\<close>

definition booted :: "db \<Rightarrow> manager \<Rightarrow> conc" where
  "booted d m = \<lparr>c_db = d, c_mgr = m, c_pc = (\<lambda>_. Idle), c_poolLocks = Map.empty, c_readers = {}, c_writer = None\<rparr>"

inductive conc_step :: "protojson \<Rightarrow> conc \<Rightarrow> conc \<Rightarrow> bool" for C where
  conc_write: "write_step C t s s' \<Longrightarrow> conc_step C s s'"
| conc_update: "update_step C t s s' \<Longrightarrow> conc_step C s s'"
| conc_delete: "delete_step C t s s' \<Longrightarrow> conc_step C s s'"
| conc_remove: "remove_step t s s' \<Longrightarrow> conc_step C s s'"
| conc_store: "outside C (c_db s) d' \<Longrightarrow> conc_step C s (s\<lparr>c_db := d'\<rparr>)"
| conc_done: "g \<in> set (mg_running (c_mgr s)) \<Longrightarrow> conc_step C s (s\<lparr>c_mgr := close_done (g_id g) (c_mgr s)\<rparr>)"
| conc_forget: "i \<in> mg_done (c_mgr s) \<Longrightarrow> conc_step C s (s\<lparr>c_mgr := forget_exited key i (c_mgr s)\<rparr>)"
| conc_shutdown: "conc_step C s (s\<lparr>c_mgr := shutdown (c_mgr s)\<rparr>)"
| conc_restart: "ListPools C (c_db s) = Inr (specs, d) \<Longrightarrow> Seed specs new_manager = (None, m) \<Longrightarrow>
    conc_step C s (booted (c_db s) m)"

abbreviation conc_steps :: "protojson \<Rightarrow> conc \<Rightarrow> conc \<Rightarrow> bool" where
  "conc_steps C \<equiv> (conc_step C)\<^sup>*\<^sup>*"

section \<open>Invariant\<close>

fun pc_key :: "pc \<Rightarrow> poolKey option" where
  "pc_key (W_Locked op spec) = Some (spec_key spec)"
| "pc_key (W_Refs op spec) = Some (spec_key spec)"
| "pc_key (W_Checked op spec) = Some (spec_key spec)"
| "pc_key (W_Looked op spec) = Some (spec_key spec)"
| "pc_key (U_Stored spec) = Some (spec_key spec)"
| "pc_key (W_Stored spec) = Some (spec_key spec)"
| "pc_key (W_Done spec) = Some (spec_key spec)"
| "pc_key (D_Locked name ns) = Some (PoolKey name ns)"
| "pc_key (D_Found name ns spec) = Some (PoolKey name ns)"
| "pc_key (D_Stopped name ns spec) = Some (PoolKey name ns)"
| "pc_key (Leaving k) = Some k"
| "pc_key _ = None"

fun reads_refs :: "pc \<Rightarrow> bool" where
  "reads_refs (W_Refs op spec) = True"
| "reads_refs (W_Checked op spec) = True"
| "reads_refs (W_Looked op spec) = True"
| "reads_refs (U_Stored spec) = True"
| "reads_refs (W_Stored spec) = True"
| "reads_refs (W_Done spec) = True"
| "reads_refs _ = False"

fun writes_refs :: "pc \<Rightarrow> bool" where
  "writes_refs (H_Locked name) = True"
| "writes_refs H_Done = True"
| "writes_refs _ = False"

definition locks_ok :: "conc \<Rightarrow> bool" where
  "locks_ok s \<longleftrightarrow>
     (\<forall>t k. pc_key (c_pc s t) = Some k \<longleftrightarrow> c_poolLocks s k = Some t) \<and>
     (\<forall>t. reads_refs (c_pc s t) \<longleftrightarrow> t \<in> c_readers s) \<and>
     (\<forall>t. writes_refs (c_pc s t) \<longleftrightarrow> c_writer s = Some t) \<and>
     (c_writer s \<noteq> None \<longrightarrow> c_readers s = {})"

definition valid_spec :: "PoolSpec \<Rightarrow> bool" where
  "valid_spec spec \<longleftrightarrow> is_ok (NewStrategy (ps_ReplenishmentStrategy spec)) \<and> ps_MicrovmTemplate spec \<noteq> None"

abbreviation registered :: "db \<Rightarrow> string set" where
  "registered d \<equiv> hr_name ` set (hosts d)"

text \<open>Every row was written from a validated spec, whose hosts are registered.\<close>

definition rows_ok :: "protojson \<Rightarrow> db \<Rightarrow> bool" where
  "rows_ok C d \<longleftrightarrow> (\<forall>r \<in> set (pools d). \<exists>spec. poolToRow C spec = Inr r \<and> valid_spec spec \<and>
     set (ps_FlintlockHosts spec) \<subseteq> registered d)"

fun pc_ok :: "string set \<Rightarrow> pc \<Rightarrow> bool" where
  "pc_ok R (W_Locked op spec) = valid_spec spec"
| "pc_ok R (W_Refs op spec) = valid_spec spec"
| "pc_ok R (W_Checked op spec) = (valid_spec spec \<and> set (ps_FlintlockHosts spec) \<subseteq> R)"
| "pc_ok R (W_Looked op spec) = (valid_spec spec \<and> set (ps_FlintlockHosts spec) \<subseteq> R)"
| "pc_ok R (U_Stored spec) = valid_spec spec"
| "pc_ok R (W_Stored spec) = valid_spec spec"
| "pc_ok R _ = True"

text \<open>The pool a key names, as \<open>GetPool\<close> decodes it, and the spec its reconciler runs.\<close>

definition pool_at :: "protojson \<Rightarrow> db \<Rightarrow> poolKey \<Rightarrow> (StoreErr + PoolSpec) option" where
  "pool_at C d k = (case k of PoolKey name ns \<Rightarrow> map_option (rowToPool C) (find_key pool_key (name, ns) (pools d)))"

definition spec_at :: "manager \<Rightarrow> poolKey \<Rightarrow> PoolSpec option" where
  "spec_at m k = map_option rh_spec (mg_handles m k)"

definition owner :: "conc \<Rightarrow> poolKey \<Rightarrow> pc" where
  "owner s k = (case c_poolLocks s k of None \<Rightarrow> Idle | Some t \<Rightarrow> c_pc s t)"

definition in_step :: "bool \<Rightarrow> (StoreErr + PoolSpec) option \<Rightarrow> PoolSpec option \<Rightarrow> bool" where
  "in_step stopped a r \<longleftrightarrow> (if stopped then r = None else a = map_option Inr r)"

text \<open>How store and manager stand to each other at a key, by how far the lock's owner is.\<close>

fun pool_sync :: "bool \<Rightarrow> (StoreErr + PoolSpec) option \<Rightarrow> PoolSpec option \<Rightarrow> pc \<Rightarrow> bool" where
  "pool_sync st a r (W_Looked OpCreate spec) \<longleftrightarrow> a = None \<and> in_step st a r"
| "pool_sync st a r (U_Stored spec) \<longleftrightarrow> a = Some (Inr spec) \<and> (st \<longrightarrow> r = None)"
| "pool_sync st a r (W_Stored spec) \<longleftrightarrow> a = Some (Inr spec) \<and> r = None"
| "pool_sync st a r (D_Found name ns spec) \<longleftrightarrow> a = Some (Inr spec) \<and> in_step st a r"
| "pool_sync st a r (D_Stopped name ns spec) \<longleftrightarrow> a = Some (Inr spec) \<and> r = None"
| "pool_sync st a r _ \<longleftrightarrow> in_step st a r"

definition all_sync :: "protojson \<Rightarrow> conc \<Rightarrow> bool" where
  "all_sync C s \<longleftrightarrow> (\<forall>k. pool_sync (mg_stopped (c_mgr s)) (pool_at C (c_db s) k) (spec_at (c_mgr s) k) (owner s k))"

definition conc_inv :: "protojson \<Rightarrow> conc \<Rightarrow> bool" where
  "conc_inv C s \<longleftrightarrow> locks_ok s \<and> wf_db (c_db s) \<and> rows_ok C (c_db s) \<and> (\<forall>t. pc_ok (registered (c_db s)) (c_pc s t)) \<and> all_sync C s"


subsection \<open>The other transactions\<close>

lemma outside_frame:
  "store_step C d d' \<Longrightarrow> pools d' = pools d \<Longrightarrow> hosts d' = hosts d \<Longrightarrow> outside C d d'"
  by (simp add: outside_def)

lemma pools_vms:
  "CreateVM v d = Inr (u, d') \<Longrightarrow> pools d' = pools d" "updateVM_exec v d = Inr (n, d') \<Longrightarrow> pools d' = pools d"
  "DeleteVM uid d = Inr (u, d') \<Longrightarrow> pools d' = pools d" "DeleteVMCheckingPool uid d = Inr (b, d') \<Longrightarrow> pools d' = pools d"
  "ClaimAvailableVM pick now name ns d = Inr (v', d') \<Longrightarrow> pools d' = pools d"
  by (auto simp: CreateVM_def updateVM_exec_def DeleteVM_def DeleteVMCheckingPool_def ClaimAvailableVM_def checkRowsAffected_def Let_def
      split: sum.splits if_splits option.splits)

lemma pools_leases:
  "insertLease l d = Inr (u, d') \<Longrightarrow> pools d' = pools d" "UpdateLeaseHeartbeat i at ex d = Inr (u, d') \<Longrightarrow> pools d' = pools d"
  "DeleteLease i d = Inr (u, d') \<Longrightarrow> pools d' = pools d" "DeleteLeaseIfExpired i now d = Inr (l', d') \<Longrightarrow> pools d' = pools d"
  "AppendEvent e d = Inr (j, d') \<Longrightarrow> pools d' = pools d"
  by (auto simp: insertLease_def UpdateLeaseHeartbeat_def DeleteLease_def DeleteLeaseIfExpired_def AppendEvent_def checkRowsAffected_def
      Let_def split: sum.splits if_splits option.splits)

lemma pools_LeaseVM: "LeaseVM v l d = Inr (u, d') \<Longrightarrow> pools d' = pools d"
  by (auto simp: LeaseVM_def split: sum.splits dest!: updateVM_InrD pools_vms(2) pools_leases(1))

lemma pools_hosts:
  "CreateHost h d = Inr (u, d') \<Longrightarrow> pools d' = pools d" "UpdateHost_exec now h d = Inr (u, d') \<Longrightarrow> pools d' = pools d"
  "SetHostCordoned_exec now name b reason d = Inr (u, d') \<Longrightarrow> pools d' = pools d"
  "MarkDrainingHostsVMsDeleting now d = Inr (marked, d') \<Longrightarrow> pools d' = pools d"
  "ReservePlacement now i host name ns d = Inr (u, d') \<Longrightarrow> pools d' = pools d"
  "ReleasePlacement i d = Inr (u, d') \<Longrightarrow> pools d' = pools d" "ClearPlacements d = Inr (u, d') \<Longrightarrow> pools d' = pools d"
  by (auto simp: CreateHost_def UpdateHost_exec_def SetHostCordoned_exec_def MarkDrainingHostsVMsDeleting_def markUnleasedVMsDeleting_def
      ReservePlacement_def ReleasePlacement_def ClearPlacements_def checkRowsAffected_def Let_def split: sum.splits if_splits option.splits)

lemma pools_DrainHost: "DrainHost now now' name reason d = Inr (r, d') \<Longrightarrow> pools d' = pools d"
  by (auto simp: DrainHost_def checkRowsAffected_def markUnleasedVMsDeleting_def Let_def
      split: sum.splits if_splits option.splits prod.splits)

lemmas pools_frames = pools_vms pools_leases pools_LeaseVM pools_hosts pools_DrainHost

lemma names_CreateHost: "CreateHost h d = Inr (u, d') \<Longrightarrow> registered d \<subseteq> registered d'"
  by (auto simp: CreateHost_def split: sum.splits if_splits)

lemma hosts_placements:
  "ReservePlacement now i host name ns d = Inr (u, d') \<Longrightarrow> hosts d' = hosts d" "ReleasePlacement i d = Inr (u, d') \<Longrightarrow> hosts d' = hosts d"
  "ClearPlacements d = Inr (u, d') \<Longrightarrow> hosts d' = hosts d"
  by (auto simp: ReservePlacement_def ReleasePlacement_def ClearPlacements_def split: option.splits if_splits)

text \<open>Everything but the four writes of pools and the removal of a host may run outside the locks.\<close>

lemma store_step_outside:
  assumes "store_step C d d'"
  shows "outside C d d' \<or> (\<exists>p u. CreatePool C p d = Inr (u, d') \<or> UpdatePool C p d = Inr (u, d')) \<or>
    (\<exists>name ns u. DeletePool name ns d = Inr (u, d')) \<or>
    (\<exists>now name ns force m. DeletePoolAndMarkVMs now name ns force d = Inr (m, d')) \<or> (\<exists>name u. DeleteHost name d = Inr (u, d'))"
proof -
  have "pools d' = pools d \<and> registered d \<subseteq> registered d'" if "\<not> ?thesis"
    using assms
  proof cases
    case step_CreateLease
    then show ?thesis by (auto simp: CreateLease_def dest: pools_frames host_frames)
  next
    case (step_CreateHost h u)
    then show ?thesis by (blast dest: pools_hosts(1) names_CreateHost)
  qed (use that in \<open>auto dest: pools_frames host_frames host_names hosts_placements simp flip: set_map\<close>)
  then show ?thesis unfolding outside_def using assms by blast
qed


subsection \<open>Locks\<close>

lemma goto_simps [simp]:
  "c_db (goto t p s) = c_db s" "c_mgr (goto t p s) = c_mgr s" "c_pc (goto t p s) = (c_pc s)(t := p)"
  "c_poolLocks (goto t p s) = c_poolLocks s" "c_readers (goto t p s) = c_readers s" "c_writer (goto t p s) = c_writer s"
  by (simp_all add: goto_def)

lemmas lock_defs = lockPool_def unlockPool_def hostRefs_RLock_def hostRefs_RUnlock_def hostRefs_Lock_def hostRefs_Unlock_def

text \<open>The three shapes of a step of a thread: it moves on with the locks it has, it takes one, it
  gives one back.\<close>

lemma locks_move:
  assumes "locks_ok s" "pc_key p = pc_key (c_pc s t)" "reads_refs p = reads_refs (c_pc s t)" "writes_refs p = writes_refs (c_pc s t)"
    "c_pc s' = (c_pc s)(t := p)" "c_poolLocks s' = c_poolLocks s" "c_readers s' = c_readers s" "c_writer s' = c_writer s"
  shows "locks_ok s'"
  using assms by (auto simp: locks_ok_def)

lemma locks_pool:
  assumes "locks_ok s" "pc_key (c_pc s t) = None" "c_poolLocks s k = None" "pc_key p = Some k" "\<not> reads_refs p" "\<not> writes_refs p"
    "\<not> reads_refs (c_pc s t)" "\<not> writes_refs (c_pc s t)"
  shows "locks_ok (goto t p (s\<lparr>c_poolLocks := (c_poolLocks s)(k \<mapsto> t)\<rparr>))"
  using assms by (auto simp: locks_ok_def) (metis option.distinct(1))+

lemma locks_unpool:
  assumes "locks_ok s" "c_pc s t = Leaving k"
  shows "locks_ok (goto t Idle (unlockPool k s))"
proof -
  have t: "pc_key (c_pc s u) = Some k \<longleftrightarrow> u = t" for u using assms unfolding locks_ok_def
    by (metis option.inject pc_key.simps(11))
  have k: "c_poolLocks s j = Some t \<Longrightarrow> j = k" for j using assms unfolding locks_ok_def
    by (metis option.inject pc_key.simps(11))
  have "\<not> reads_refs (c_pc s t)" "\<not> writes_refs (c_pc s t)" by (simp_all add: assms(2))
  then show ?thesis using assms(1) t k by (auto simp: locks_ok_def lock_defs)
qed

lemma locks_rlock:
  assumes "locks_ok s" "c_writer s = None" "pc_key p = pc_key (c_pc s t)" "reads_refs p" "\<not> writes_refs p"
  shows "locks_ok (goto t p (s\<lparr>c_readers := insert t (c_readers s)\<rparr>))"
  using assms by (auto simp: locks_ok_def)

lemma locks_runlock:
  assumes "locks_ok s" "pc_key p = pc_key (c_pc s t)" "reads_refs (c_pc s t)" "\<not> reads_refs p" "\<not> writes_refs p"
  shows "locks_ok (goto t p (hostRefs_RUnlock t s))"
  using assms by (auto simp: locks_ok_def lock_defs)


lemma locks_hosts:
  assumes "locks_ok s" "c_writer s = None" "c_readers s = {}" "c_pc s t = Idle"
  shows "locks_ok (goto t (H_Locked name) (s\<lparr>c_writer := Some t\<rparr>))"
proof -
  have "c_poolLocks s k \<noteq> Some t" for k using assms(1,4) unfolding locks_ok_def by (metis option.distinct(1) pc_key.simps(12))
  then show ?thesis using assms(1-3) by (auto simp: locks_ok_def)
qed

lemma locks_unhosts:
  assumes "locks_ok s" "c_pc s t = H_Done"
  shows "locks_ok (goto t Idle (hostRefs_Unlock s))"
proof -
  have t: "c_writer s = Some t" using assms unfolding locks_ok_def by (metis writes_refs.simps(2))
  have k: "c_poolLocks s k \<noteq> Some t" for k using assms unfolding locks_ok_def by (metis option.distinct(1) pc_key.simps(14))
  have "\<not> reads_refs (c_pc s t)" by (simp add: assms(2))
  then show ?thesis using assms(1) t k by (auto simp: locks_ok_def lock_defs)
qed

lemma locks_write: "write_step C t s s' \<Longrightarrow> locks_ok s \<Longrightarrow> locks_ok s'"
proof (induction rule: write_step.induct)
  case write_lock
  then show ?case by (auto simp: lockPool_def split: if_splits intro!: locks_pool)
next
  case write_rlock
  then show ?case by (auto simp: hostRefs_RLock_def split: if_splits intro!: locks_rlock)
next
  case (write_give_up s op spec)
  then show ?case by (intro locks_runlock) auto
next
  case (write_runlock s spec)
  then show ?case by (intro locks_runlock) auto
next
  case write_unlock
  then show ?case by (blast intro: locks_unpool)
qed (rule locks_move, assumption, simp_all)+

lemma locks_update: "update_step C t s s' \<Longrightarrow> locks_ok s \<Longrightarrow> locks_ok s'"
  by (induction rule: update_step.induct) (rule locks_move, assumption, simp_all)+

lemma locks_delete: "delete_step C t s s' \<Longrightarrow> locks_ok s \<Longrightarrow> locks_ok s'"
proof (induction rule: delete_step.induct)
  case delete_lock
  then show ?case by (auto simp: lockPool_def split: if_splits intro!: locks_pool)
next
  case (delete_give_up s name ns spec)
  then show ?case by (auto intro: locks_move [of s "Leaving (PoolKey name ns)" t])
qed (rule locks_move, assumption, simp_all)+

lemma locks_remove: "remove_step t s s' \<Longrightarrow> locks_ok s \<Longrightarrow> locks_ok s'"
proof (induction rule: remove_step.induct)
  case remove_lock
  then show ?case by (auto simp: hostRefs_Lock_def split: if_splits intro!: locks_hosts)
next
  case remove_unlock
  then show ?case by (blast intro: locks_unhosts)
qed (rule locks_move, assumption, simp_all)+


subsection \<open>What the calls do at a key\<close>

lemma reads_back:
  assumes "protojson_ok C" "valid_spec spec" "poolToRow C spec = Inr row"
  shows "rowToPool C row = Inr spec"
proof (rule rowToPool_poolToRow [OF assms(3)])
  show "codec_reads_back C spec"
    using assms(1,2) by (auto simp: codec_reads_back_def protojson_ok_def valid_spec_def NewStrategy_def split: option.splits)
qed

lemma validated: "validatePoolSpec req = Inr spec \<Longrightarrow> valid_spec spec"
  using validatePoolSpec_Inr [of req spec]
  by (auto simp: valid_spec_def validatePoolSpec_def split: if_splits sum.splits option.splits)

lemma pool_at_row:
  assumes "protojson_ok C" "rows_ok C d" "pool_at C d k = Some a"
  shows "\<exists>spec. a = Inr spec \<and> valid_spec spec \<and> spec_key spec = k"
proof -
  obtain name ns r where r: "k = PoolKey name ns" "find_key pool_key (name, ns) (pools d) = Some r" "a = rowToPool C r"
    using assms(3) by (auto simp: pool_at_def split: poolKey.splits)
  then have mem: "r \<in> set (pools d)" "pool_key r = (name, ns)" by (auto dest: find_key_SomeD)
  then obtain spec where spec: "poolToRow C spec = Inr r" "valid_spec spec" using assms(2) by (auto simp: rows_ok_def)
  then show ?thesis using reads_back [OF assms(1) spec(2,1)] poolToRow_Inr [OF spec(1)] mem r by (auto simp: spec_key_def)
qed

lemma rowToPool_err: "rowToPool C r \<noteq> Inl ErrNotFound"
  by (auto simp: rowToPool_def split: option.splits)

lemma pool_at_eq: "pools d' = pools d \<Longrightarrow> pool_at C d' = pool_at C d"
  by (auto simp: pool_at_def fun_eq_iff split: poolKey.splits)

lemma pool_at_Create:
  assumes "protojson_ok C" "valid_spec spec" "CreatePool C spec d = Inr (u, d')"
  shows "pool_at C d' j = (if j = spec_key spec then Some (Inr spec) else pool_at C d j)"
proof -
  obtain row where row: "poolToRow C spec = Inr row" "find_key pool_key (pool_key row) (pools d) = None"
      "d' = d\<lparr>pools := pools d @ [row]\<rparr>"
    using assms(3) by (auto simp: CreatePool_def split: sum.splits if_splits)
  obtain name ns where j: "j = PoolKey name ns" by (cases j)
  show ?thesis using row poolToRow_Inr [OF row(1)] reads_back [OF assms(1,2) row(1)]
    by (auto simp: pool_at_def j spec_key_def find_key_append split: option.splits)
qed

lemma pool_at_Update:
  assumes "protojson_ok C" "valid_spec spec" "UpdatePool C spec d = Inr (u, d')"
  shows "pool_at C d' j = (if j = spec_key spec then Some (Inr spec) else pool_at C d j)"
proof -
  obtain row where row: "poolToRow C spec = Inr row" using assms(3) by (auto simp: UpdatePool_def split: sum.splits)
  show ?thesis using reads_back [OF assms(1,2) row]
    by (cases j) (auto simp: pool_at_def spec_key_def UpdatePool_row [OF assms(3) row])
qed

lemma find_pool_delete:
  "find_key pool_key k (sql_delete (\<lambda>r. pr_name r = name \<and> pr_namespace r = ns) rows) = (if k = (name, ns) then None else find_key pool_key k rows)"
  using find_key_sql_delete_key [of pool_key k "(name, ns)" rows] by simp

lemma pool_at_Delete:
  assumes "DeletePoolAndMarkVMs now name ns force d = Inr (marked, d')"
  shows "pool_at C d' j = (if j = PoolKey name ns then None else pool_at C d j)"
proof -
  have "pools d' = sql_delete (\<lambda>r. pr_name r = name \<and> pr_namespace r = ns) (pools d)"
    using assms by (auto simp: DeletePoolAndMarkVMs_def DeletePool_def checkRowsAffected_def Let_def split: sum.splits if_splits)
  then show ?thesis by (cases j) (simp add: pool_at_def find_pool_delete)
qed

lemma Delete_not_found:
  assumes "DeletePoolAndMarkVMs now name ns force d = Inl ErrNotFound"
  shows "pool_at C d (PoolKey name ns) = None"
proof -
  have "sql_count (\<lambda>r. pr_name r = name \<and> pr_namespace r = ns) (pools d) = 0"
    using assms by (auto simp: DeletePoolAndMarkVMs_def DeletePool_def checkRowsAffected_def Let_def split: sum.splits if_splits)
  then show ?thesis using sql_count_key [of pool_key "(name, ns)" "pools d"] by (simp add: pool_at_def)
qed

lemma spec_at_stop: "spec_at (cancelAndForget name ns m) j = (if j = PoolKey name ns then None else spec_at m j)"
  "mg_stopped (cancelAndForget name ns m) = mg_stopped m"
  by (auto simp: spec_at_def cancelAndForget_def split: option.splits)

lemma spec_at_restart:
  "spec_at (restartReconciler spec m) j =
     (if j = spec_key spec \<and> spec_at m j = None \<and> \<not> mg_stopped m \<and> is_ok (NewStrategy (ps_ReplenishmentStrategy spec)) then Some spec else spec_at m j)"
  "mg_stopped (restartReconciler spec m) = mg_stopped m"
  by (auto simp: spec_at_def restartReconciler_def StartReconciler_def Let_def split: sum.splits if_splits)

lemma spec_at_others:
  "spec_at (close_done i m) = spec_at m" "mg_stopped (close_done i m) = mg_stopped m"
  "spec_at (forget_exited key i m) = spec_at m" "mg_stopped (forget_exited key i m) = mg_stopped m"
  "spec_at (shutdown m) j = None" "mg_stopped (shutdown m)"
  by (auto simp: spec_at_def close_done_def forget_exited_def shutdown_def fun_eq_iff)

end
