(* ===== verification/Concurrency_Props.thy ===== *)
theory Concurrency_Props
  imports Concurrency Startup
begin

text \<open>
  The invariant of the interleaved pool requests: each step of a request, of the other goroutines
  and of a restart keeps it. Its two consequences for clients are at the end.
\<close>

section \<open>Store and manager stay in step\<close>

lemma sync_own:
  assumes "all_sync C s" "locks_ok s" "pc_key (c_pc s t) = Some k"
  shows "pool_sync (mg_stopped (c_mgr s)) (pool_at C (c_db s) k) (spec_at (c_mgr s) k) (c_pc s t)"
proof -
  have "c_poolLocks s k = Some t" using assms(2,3) unfolding locks_ok_def by blast
  then have own: "owner s k = c_pc s t" by (simp add: owner_def)
  have "pool_sync (mg_stopped (c_mgr s)) (pool_at C (c_db s) k) (spec_at (c_mgr s) k) (owner s k)"
    using assms(1) unfolding all_sync_def by blast
  then show ?thesis unfolding own .
qed

lemma sync_at:
  assumes "all_sync C s" "locks_ok s" "pc_key (c_pc s t) = Some k" "c_pc s' = (c_pc s)(t := p)" "c_poolLocks s' = c_poolLocks s"
    "\<And>j. j \<noteq> k \<Longrightarrow> pool_at C (c_db s') j = pool_at C (c_db s) j" "\<And>j. j \<noteq> k \<Longrightarrow> spec_at (c_mgr s') j = spec_at (c_mgr s) j"
    "mg_stopped (c_mgr s') = mg_stopped (c_mgr s)"
    "pool_sync (mg_stopped (c_mgr s)) (pool_at C (c_db s) k) (spec_at (c_mgr s) k) (c_pc s t) \<Longrightarrow>
       pool_sync (mg_stopped (c_mgr s)) (pool_at C (c_db s') k) (spec_at (c_mgr s') k) p"
  shows "all_sync C s'"
  unfolding all_sync_def assms(8)
proof
  fix j
  have k: "c_poolLocks s j = Some t \<longleftrightarrow> j = k" for j using assms(2,3) unfolding locks_ok_def by (metis option.inject)
  show "pool_sync (mg_stopped (c_mgr s)) (pool_at C (c_db s') j) (spec_at (c_mgr s') j) (owner s' j)"
  proof (cases "j = k")
    case True
    then have "owner s' j = p" using k [of k] by (simp add: owner_def assms(4,5))
    then show ?thesis using assms(9) [OF sync_own [OF assms(1-3)]] True by simp
  next
    case False
    then have "owner s' j = owner s j" using k [of j] by (auto simp: owner_def assms(4,5) split: option.splits)
    then show ?thesis using assms(1,6,7) False unfolding all_sync_def by simp
  qed
qed

lemma sync_looked: "pool_sync st a r (W_Looked op spec) \<longleftrightarrow> in_step st a r \<and> (op = OpCreate \<longrightarrow> a = None)"
  by (cases op) auto

text \<open>A thread with no pool lock, or one that takes or leaves its lock in step.\<close>

lemma sync_elsewhere:
  assumes "all_sync C s" "locks_ok s" "pc_key (c_pc s t) = None" "c_pc s' = (c_pc s)(t := p)" "c_poolLocks s' = c_poolLocks s"
    "pools (c_db s') = pools (c_db s)" "c_mgr s' = c_mgr s"
  shows "all_sync C s'"
proof -
  have "c_poolLocks s j \<noteq> Some t" for j using assms(2,3) unfolding locks_ok_def by (metis option.distinct(1))
  then have "owner s' j = owner s j" for j by (auto simp: owner_def assms(4,5) split: option.splits)
  then show ?thesis using assms(1) by (simp add: all_sync_def pool_at_eq [OF assms(6)] assms(7))
qed

lemma sync_lock:
  assumes "all_sync C s" "lockPool t k s = Some s'" "locks_ok s" "pc_key (c_pc s t) = None" "\<And>st a r. pool_sync st a r p = in_step st a r"
  shows "all_sync C (goto t p s')"
proof -
  have s': "s' = s\<lparr>c_poolLocks := (c_poolLocks s)(k \<mapsto> t)\<rparr>" "c_poolLocks s k = None" using assms(2) by (auto simp: lockPool_def split: if_splits)
  have "c_poolLocks s j \<noteq> Some t" for j using assms(3,4) unfolding locks_ok_def by (metis option.distinct(1))
  then have own: "owner (goto t p s') j = (if j = k then p else owner s j)" "owner s k = Idle" for j
    by (auto simp: owner_def s' split: option.splits)
  have "pool_sync (mg_stopped (c_mgr s)) (pool_at C (c_db s) k) (spec_at (c_mgr s) k) (owner s k)"
    using assms(1) unfolding all_sync_def by blast
  then show ?thesis using assms(1,5) own unfolding all_sync_def by (simp add: s')
qed

lemma sync_unlock:
  assumes "all_sync C s" "locks_ok s" "c_pc s t = Leaving k"
  shows "all_sync C (goto t Idle (unlockPool k s))"
proof -
  have k: "c_poolLocks s j = Some t \<longleftrightarrow> j = k" for j using assms(2,3) unfolding locks_ok_def by (metis option.inject pc_key.simps(11))
  then have "c_poolLocks s k = Some t" by blast
  then have "owner s k = Leaving k" by (simp add: owner_def assms(3))
  moreover have "owner (goto t Idle (unlockPool k s)) j = (if j = k then Idle else owner s j)" for j
    using k [of j] by (auto simp: owner_def unlockPool_def split: option.splits)
  moreover have "pool_sync (mg_stopped (c_mgr s)) (pool_at C (c_db s) k) (spec_at (c_mgr s) k) (owner s k)"
    using assms(1) unfolding all_sync_def by blast
  ultimately show ?thesis using assms(1) unfolding all_sync_def by (simp add: unlockPool_def)
qed


lemma sync_write:
  assumes "write_step C t s s'" "conc_inv C s" "protojson_ok C"
  shows "all_sync C s'"
proof -
  have s: "all_sync C s" "locks_ok s" and pc: "pc_ok (registered (c_db s)) (c_pc s t)" using assms(2) by (simp_all add: conc_inv_def)
  show ?thesis using assms(1)
  proof cases
    case (write_lock req spec s1 op)
    then show ?thesis using sync_lock [OF s(1) write_lock(4) s(2)] by simp
  next
    case (write_rlock op spec s1)
    then show ?thesis by (intro sync_at [OF s, of t "spec_key spec"]) (auto simp: lock_defs split: if_splits)
  next
    case (write_check op spec)
    then show ?thesis by (intro sync_at [OF s, of t "spec_key spec"]) auto
  next
    case (write_look op spec)
    then show ?thesis by (cases op; intro sync_at [OF s, of t "spec_key spec"])
      (auto simp: pool_at_def spec_key_def GetPool_def rowToPool_err split: option.splits sum.splits)
  next
    case (write_create spec u d')
    then have "valid_spec spec" using pc by simp
    note at = pool_at_Create [OF assms(3) this write_create(3)]
    show ?thesis using write_create(1,2) at by (intro sync_at [OF s, of t "spec_key spec"]) (auto simp: in_step_def split: if_splits)
  next
    case (write_start spec)
    then have "valid_spec spec" using pc by simp
    then show ?thesis using write_start by (intro sync_at [OF s, of t "spec_key spec"])
      (auto simp: spec_at_restart in_step_def valid_spec_def)
  next
    case (write_give_up op spec)
    then show ?thesis by (intro sync_at [OF s, of t "spec_key spec" _ "Leaving (spec_key spec)"]) (auto simp: lock_defs sync_looked)
  next
    case (write_runlock spec)
    then show ?thesis by (intro sync_at [OF s, of t "spec_key spec"]) (auto simp: lock_defs)
  next
    case (write_unlock k)
    then show ?thesis using sync_unlock [OF s] by simp
  qed
qed

lemma sync_update:
  assumes "update_step C t s s'" "conc_inv C s" "protojson_ok C"
  shows "all_sync C s'"
proof -
  have s: "all_sync C s" "locks_ok s" and pc: "pc_ok (registered (c_db s)) (c_pc s t)" using assms(2) by (simp_all add: conc_inv_def)
  show ?thesis using assms(1)
  proof cases
    case (update_store spec u d')
    then have "valid_spec spec" using pc by simp
    note at = pool_at_Update [OF assms(3) this update_store(3)]
    show ?thesis using update_store(1,2) at by (intro sync_at [OF s, of t "spec_key spec"]) (auto simp: in_step_def split: if_splits)
  next
    case (update_stop spec)
    then show ?thesis by (intro sync_at [OF s, of t "spec_key spec"]) (auto simp: StopReconciler_def spec_at_stop spec_key_def)
  qed
qed

lemma sync_delete:
  assumes "delete_step C t s s'" "conc_inv C s" "protojson_ok C"
  shows "all_sync C s'"
proof -
  have s: "all_sync C s" "locks_ok s" and rows: "rows_ok C (c_db s)" using assms(2) by (simp_all add: conc_inv_def)
  show ?thesis using assms(1)
  proof cases
    case (delete_lock name ns s1)
    then show ?thesis using sync_lock [OF s(1) delete_lock(3) s(2)] by simp
  next
    case (delete_look name ns spec d)
    then show ?thesis by (intro sync_at [OF s, of t "PoolKey name ns"])
      (auto simp: pool_at_def GetPool_def split: option.splits sum.splits)
  next
    case (delete_give_up name ns spec)
    then show ?thesis by (intro sync_at [OF s, of t "PoolKey name ns" _ "Leaving (PoolKey name ns)"]) auto
  next
    case (delete_stop name ns spec)
    then show ?thesis by (intro sync_at [OF s, of t "PoolKey name ns"]) (auto simp: spec_at_stop)
  next
    case (delete_commit name ns spec now force marked d')
    then show ?thesis by (intro sync_at [OF s, of t "PoolKey name ns"]) (auto simp: pool_at_Delete [OF delete_commit(3)] in_step_def)
  next
    case (delete_not_found name ns spec now force)
    then show ?thesis using Delete_not_found [OF delete_not_found(3), of C] by (intro sync_at [OF s, of t "PoolKey name ns"]) auto
  next
    case (delete_restart name ns spec)
    then have "pool_at C (c_db s) (PoolKey name ns) = Some (Inr spec)" using sync_own [OF s, of t "PoolKey name ns"] by simp
    then have "valid_spec spec" "spec_key spec = PoolKey name ns" using pool_at_row [OF assms(3) rows] by auto
    then show ?thesis using delete_restart by (intro sync_at [OF s, of t "PoolKey name ns"])
      (auto simp: spec_at_restart in_step_def valid_spec_def)
  qed
qed


lemma sync_remove:
  assumes "remove_step t s s'" "all_sync C s" "locks_ok s"
  shows "all_sync C s'"
  using assms(1)
proof cases
  case (remove_delete name u d')
  then show ?thesis using DeleteHost_Inr [OF remove_delete(3)] by (intro sync_elsewhere [OF assms(2,3), of t _ H_Done]) auto
qed (intro sync_elsewhere [OF assms(2,3)], auto simp: lock_defs split: if_splits)+

section \<open>Rows and checked specs\<close>

lemma rows_frame:
  assumes "rows_ok C d" "set (pools d') \<subseteq> set (pools d)" "registered d \<subseteq> registered d'"
  shows "rows_ok C d'"
  using assms unfolding rows_ok_def by (meson subset_eq)

lemma rows_Create:
  assumes "rows_ok C d" "valid_spec spec" "set (ps_FlintlockHosts spec) \<subseteq> registered d" "CreatePool C spec d = Inr (u, d')"
  shows "rows_ok C d'"
  using assms unfolding rows_ok_def by (auto simp: CreatePool_def split: sum.splits if_splits)

lemma rows_Update:
  assumes "rows_ok C d" "wf_db d" "valid_spec spec" "set (ps_FlintlockHosts spec) \<subseteq> registered d" "UpdatePool C spec d = Inr (u, d')"
  shows "rows_ok C d'"
  unfolding rows_ok_def
proof
  fix r assume r: "r \<in> set (pools d')"
  obtain row where row: "poolToRow C spec = Inr row" using assms(5) by (auto simp: UpdatePool_def split: sum.splits)
  have hs: "hosts d' = hosts d" using frame_pools(2) [OF assms(5)] by simp
  have "distinct (map pool_key (pools d'))" using wf_UpdatePool [OF assms(5,2)] by (simp add: wf_db_def)
  then have "find_key pool_key (pool_key r) (pools d') = Some r" using r by (simp add: find_key_Some)
  then have "r = row \<or> r \<in> set (pools d)" using UpdatePool_row [OF assms(5) row, of "pool_key r"]
    by (auto split: if_splits dest: find_key_SomeD)
  then show "\<exists>spec. poolToRow C spec = Inr r \<and> valid_spec spec \<and> set (ps_FlintlockHosts spec) \<subseteq> registered d'"
    using assms(1,3,4) row hs unfolding rows_ok_def by auto
qed

lemma rows_DeleteHost:
  assumes "rows_ok C d" "DeleteHost name d = Inr (u, d')"
  shows "rows_ok C d'"
  unfolding rows_ok_def
proof
  note del = DeleteHost_Inr [OF assms(2)]
  fix r assume "r \<in> set (pools d')"
  then have r: "r \<in> set (pools d)" using del by simp
  then obtain spec where spec: "poolToRow C spec = Inr r" "valid_spec spec" "set (ps_FlintlockHosts spec) \<subseteq> registered d"
    using assms(1) by (auto simp: rows_ok_def)
  have "set (map (\<lambda>r. (pr_namespace r, pr_name r)) (filter (\<lambda>r. Some name \<in> set (json_each (pr_flintlockHosts r))) (pools d))) =
      set (poolsNamingHost name d)" by (simp add: poolsNamingHost_def)
  then have "Some name \<notin> set (json_each (pr_flintlockHosts r))" using del r by auto
  then have "name \<notin> set (ps_FlintlockHosts spec)" using poolToRow_Inr [OF spec(1)] by simp
  then have "set (ps_FlintlockHosts spec) \<subseteq> registered d'" using spec(3) del by (auto simp: set_sql_delete)
  then show "\<exists>spec. poolToRow C spec = Inr r \<and> valid_spec spec \<and> set (ps_FlintlockHosts spec) \<subseteq> registered d'" using spec by blast
qed

lemma pc_ok_mono: "pc_ok R p \<Longrightarrow> R \<subseteq> R' \<Longrightarrow> pc_ok R' p"
  by (induction R p rule: pc_ok.induct) auto

lemma pc_ok_any: "pc_ok R p \<Longrightarrow> \<not> reads_refs p \<Longrightarrow> pc_ok R' p"
  by (induction R p rule: pc_ok.induct) auto

lemma hosts_known_subset: "hosts_known d spec \<longleftrightarrow> set (ps_FlintlockHosts spec) \<subseteq> registered d"
  by (simp add: hosts_known_def unknown_hosts_none)

text \<open>While a host is being removed no request is between its check and its write.\<close>

lemma no_reader:
  assumes "locks_ok s" "c_pc s t = H_Locked name"
  shows "\<not> reads_refs (c_pc s u)"
proof -
  have "c_writer s = Some t" using assms unfolding locks_ok_def by (metis writes_refs.simps(1))
  then show ?thesis using assms(1) by (simp add: locks_ok_def)
qed


lemma inv_write:
  assumes "write_step C t s s'" "conc_inv C s" "protojson_ok C"
  shows "conc_inv C s'"
proof -
  have inv: "locks_ok s" "wf_db (c_db s)" "rows_ok C (c_db s)" and pc: "\<And>u. pc_ok (registered (c_db s)) (c_pc s u)"
    using assms(2) by (simp_all add: conc_inv_def)
  have "wf_db (c_db s') \<and> rows_ok C (c_db s') \<and> (\<forall>u. pc_ok (registered (c_db s')) (c_pc s' u))"
    using assms(1)
  proof cases
    case (write_lock req spec s1 op)
    then show ?thesis using inv pc validated [OF write_lock(3)] by (auto simp: lock_defs split: if_splits)
  next
    case (write_rlock op spec s1)
    then show ?thesis using inv pc [of t] pc by (auto simp: lock_defs split: if_splits)
  next
    case (write_check op spec)
    then show ?thesis using inv pc [of t] pc by (auto simp: hosts_known_subset)
  next
    case (write_create spec u d')
    then have spec: "valid_spec spec" "set (ps_FlintlockHosts spec) \<subseteq> registered (c_db s)" using pc [of t] by simp_all
    have "hosts d' = hosts (c_db s)" using frame_pools(1) [OF write_create(3)] by simp
    then show ?thesis using write_create(1,2) spec pc rows_Create [OF inv(3) spec write_create(3)] wf_CreatePool [OF write_create(3) inv(2)]
      by simp
  qed (use inv pc [of t] pc in \<open>auto simp: lock_defs\<close>)
  then show ?thesis using locks_write [OF assms(1) inv(1)] sync_write [OF assms] by (simp add: conc_inv_def)
qed

lemma inv_update:
  assumes "update_step C t s s'" "conc_inv C s" "protojson_ok C"
  shows "conc_inv C s'"
proof -
  have inv: "locks_ok s" "wf_db (c_db s)" "rows_ok C (c_db s)" and pc: "\<And>u. pc_ok (registered (c_db s)) (c_pc s u)"
    using assms(2) by (simp_all add: conc_inv_def)
  have "wf_db (c_db s') \<and> rows_ok C (c_db s') \<and> (\<forall>u. pc_ok (registered (c_db s')) (c_pc s' u))"
    using assms(1)
  proof cases
    case (update_store spec u d')
    then have spec: "valid_spec spec" "set (ps_FlintlockHosts spec) \<subseteq> registered (c_db s)" using pc [of t] by simp_all
    have "hosts d' = hosts (c_db s)" using frame_pools(2) [OF update_store(3)] by simp
    then show ?thesis using update_store(1,2) spec pc rows_Update [OF inv(3,2) spec update_store(3)] wf_UpdatePool [OF update_store(3) inv(2)]
      by simp
  next
    case (update_stop spec)
    then show ?thesis using inv pc [of t] pc by auto
  qed
  then show ?thesis using locks_update [OF assms(1) inv(1)] sync_update [OF assms] by (simp add: conc_inv_def)
qed

lemma inv_delete:
  assumes "delete_step C t s s'" "conc_inv C s" "protojson_ok C"
  shows "conc_inv C s'"
proof -
  have inv: "locks_ok s" "wf_db (c_db s)" "rows_ok C (c_db s)" and pc: "\<And>u. pc_ok (registered (c_db s)) (c_pc s u)"
    using assms(2) by (simp_all add: conc_inv_def)
  have "wf_db (c_db s') \<and> rows_ok C (c_db s') \<and> (\<forall>u. pc_ok (registered (c_db s')) (c_pc s' u))"
    using assms(1)
  proof cases
    case (delete_commit name ns spec now force marked d')
    have "hosts d' = hosts (c_db s)" using frame_delete_pool [OF delete_commit(3)] by simp
    moreover have "set (pools d') \<subseteq> set (pools (c_db s))" using delete_commit(3)
      by (auto simp: DeletePoolAndMarkVMs_def DeletePool_def checkRowsAffected_def set_sql_delete Let_def split: sum.splits if_splits)
    ultimately show ?thesis using delete_commit(1) pc rows_frame [OF inv(3)] wf_DeletePoolAndMarkVMs [OF delete_commit(3) inv(2)] by simp
  qed (use inv pc [of t] pc in \<open>auto simp: lock_defs split: if_splits\<close>)
  then show ?thesis using locks_delete [OF assms(1) inv(1)] sync_delete [OF assms] by (simp add: conc_inv_def)
qed

lemma inv_remove:
  assumes "remove_step t s s'" "conc_inv C s"
  shows "conc_inv C s'"
proof -
  have inv: "locks_ok s" "wf_db (c_db s)" "rows_ok C (c_db s)" "all_sync C s" and pc: "\<And>u. pc_ok (registered (c_db s)) (c_pc s u)"
    using assms(2) by (simp_all add: conc_inv_def)
  have "wf_db (c_db s') \<and> rows_ok C (c_db s') \<and> (\<forall>u. pc_ok (registered (c_db s')) (c_pc s' u))"
    using assms(1)
  proof cases
    case (remove_delete name u d')
    then show ?thesis using wf_DeleteHost [OF remove_delete(3) inv(2)] rows_DeleteHost [OF inv(3) remove_delete(3)]
        pc_ok_any [OF pc no_reader [OF inv(1) remove_delete(2)]] by simp
  qed (use inv pc in \<open>auto simp: lock_defs split: if_splits\<close>)
  then show ?thesis using locks_remove [OF assms(1) inv(1)] sync_remove [OF assms(1) inv(4,1)] by (simp add: conc_inv_def)
qed

section \<open>Starting the process\<close>

lemma Seed_specs:
  "Seed specs m = (None, m') \<Longrightarrow>
     (spec_at m' k = Some s \<longleftrightarrow> s \<in> set specs \<and> spec_key s = k \<or> spec_at m k = Some s) \<and> mg_stopped m' = mg_stopped m"
proof (induction specs arbitrary: m)
  case (Cons s0 specs)
  then obtain m1 where m1: "StartReconciler s0 m = Inr m1" "Seed specs m1 = (None, m')"
    by (auto split: sum.splits)
  have "spec_at m1 k = Some s \<longleftrightarrow> k = spec_key s0 \<and> s = s0 \<or> spec_at m k = Some s" "mg_stopped m1 = mg_stopped m"
    using StartReconciler_Inr [OF m1(1)] by (auto simp: spec_at_def split: if_splits)
  then show ?case using Cons.IH [OF m1(2)] by auto
qed simp

lemma rowsToPools_set: "rowsToPools C rows = Inr specs \<Longrightarrow> s \<in> set specs \<longleftrightarrow> (\<exists>r \<in> set rows. rowToPool C r = Inr s)"
proof (induction rows arbitrary: specs)
  case (Cons r rows)
  then obtain p ps where "rowToPool C r = Inr p" "rowsToPools C rows = Inr ps" "specs = p # ps" by (auto split: sum.splits)
  then show ?case using Cons.IH [of ps] by auto
qed simp

lemma rowsToPools_total: "(\<And>r. r \<in> set rows \<Longrightarrow> is_ok (rowToPool C r)) \<Longrightarrow> is_ok (rowsToPools C rows)"
proof (induction rows)
  case (Cons r rows)
  obtain p where "rowToPool C r = Inr p" using Cons.prems [of r] by auto
  moreover obtain ps where "rowsToPools C rows = Inr ps" using Cons by (metis is_okE list.set_intros(2))
  ultimately show ?case by simp
qed simp

lemma ListPools_set:
  assumes "ListPools C d = Inr (specs, d')" "wf_db d"
  shows "pool_at C d k = Some (Inr s) \<longleftrightarrow> s \<in> set specs \<and> spec_key s = k"
proof -
  obtain name ns where k: "k = PoolKey name ns" by (cases k)
  have "s \<in> set specs \<longleftrightarrow> (\<exists>r \<in> set (pools d). rowToPool C r = Inr s)"
    using assms(1) rowsToPools_set [of C _ specs s] by (auto simp: ListPools_def split: sum.splits)
  moreover have "pool_at C d k = Some (Inr s) \<longleftrightarrow> (\<exists>r \<in> set (pools d). pool_key r = (name, ns) \<and> rowToPool C r = Inr s)"
    using assms(2) by (auto simp: pool_at_def k wf_db_def find_key_Some)
  moreover have "pool_key r = (name, ns) \<longleftrightarrow> spec_key s = k" if "rowToPool C r = Inr s" for r
    using rowToPool_Inr [OF that] by (simp add: k spec_key_def)
  ultimately show ?thesis by blast
qed

lemma inv_booted:
  assumes "protojson_ok C" "wf_db d" "rows_ok C d" "ListPools C d = Inr (specs, d')" "Seed specs new_manager = (None, m)"
  shows "conc_inv C (booted d m)"
proof -
  have "spec_at m k = Some s \<longleftrightarrow> pool_at C d k = Some (Inr s)" "\<not> mg_stopped m" for k s
    using Seed_specs [OF assms(5), of k s] ListPools_set [OF assms(4,2), of k s] by (auto simp: new_manager_def spec_at_def)
  moreover have "pool_at C d k = None \<or> (\<exists>s. pool_at C d k = Some (Inr s))" for k
    using pool_at_row [OF assms(1,3), of k] by (cases "pool_at C d k") auto
  ultimately have "in_step (mg_stopped m) (pool_at C d k) (spec_at m k)" for k
    by (cases "spec_at m k") (force simp: in_step_def)+
  then show ?thesis using assms(2,3) by (simp add: conc_inv_def locks_ok_def all_sync_def owner_def booted_def)
qed

lemma boots:
  assumes "protojson_ok C" "wf_db d" "rows_ok C d"
  shows "\<exists>specs m. ListPools C d = Inr (specs, d) \<and> Seed specs new_manager = (None, m)"
proof -
  have ok: "\<exists>spec. rowToPool C r = Inr spec \<and> valid_spec spec" if "r \<in> set (pools d)" for r
    using assms(3) that reads_back [OF assms(1)] unfolding rows_ok_def by blast
  then have "is_ok (rowsToPools C (sort_key (\<lambda>r. (pr_namespace r, pr_name r)) (pools d)))"
    by (intro rowsToPools_total) fastforce
  then obtain specs where rd: "rowsToPools C (sort_key (\<lambda>r. (pr_namespace r, pr_name r)) (pools d)) = Inr specs" by auto
  then have ls: "ListPools C d = Inr (specs, d)" by (simp add: ListPools_def)
  have "valid_spec s" if "s \<in> set specs" for s
    using rowsToPools_set [OF rd, of s] that ok by fastforce
  then have "fst (Seed specs new_manager) = None"
    by (intro Seed_succeeds) (use assms(2) ListPools_keys(2) [OF ls] in \<open>auto simp: wf_db_def new_manager_def list_all_iff valid_spec_def\<close>)
  then show ?thesis using ls by (metis prod.collapse)
qed

section \<open>Reachable states\<close>

lemma inv_mgr:
  assumes "conc_inv C s" "spec_at m = spec_at (c_mgr s)" "mg_stopped m = mg_stopped (c_mgr s)"
  shows "conc_inv C (s\<lparr>c_mgr := m\<rparr>)"
proof -
  have "owner (s\<lparr>c_mgr := m\<rparr>) k = owner s k" for k by (simp add: owner_def cong: option.case_cong)
  then show ?thesis using assms by (simp add: conc_inv_def locks_ok_def all_sync_def)
qed

lemma inv_step:
  assumes "conc_step C s s'" "conc_inv C s" "protojson_ok C"
  shows "conc_inv C s'"
  using assms(1)
proof cases
  case (conc_store d')
  have inv: "locks_ok s" "wf_db (c_db s)" "rows_ok C (c_db s)" "all_sync C s" "\<And>u. pc_ok (registered (c_db s)) (c_pc s u)"
    using assms(2) by (simp_all add: conc_inv_def)
  have out: "store_step C (c_db s) d'" "pools d' = pools (c_db s)" "registered (c_db s) \<subseteq> registered d'"
    using conc_store(2) by (simp_all add: outside_def)
  have "owner s' k = owner s k" for k by (simp add: owner_def conc_store(1) cong: option.case_cong)
  then have "all_sync C s'" using inv(4) pool_at_eq [OF out(2), of C] by (simp add: all_sync_def conc_store(1))
  then show ?thesis using inv out pc_ok_mono [OF inv(5) out(3)] rows_frame [OF inv(3), of d'] store_step_wf [OF out(1) inv(2)]
    by (simp add: conc_inv_def conc_store(1) locks_ok_def)
next
  case (conc_shutdown)
  have "pool_sync True a None p" if "pool_sync st a r p" for st a r p
    using that by (cases "(st, a, r, p)" rule: pool_sync.cases) (auto simp: in_step_def)
  moreover have "owner s' k = owner s k" for k by (simp add: owner_def conc_shutdown(1) cong: option.case_cong)
  ultimately have "all_sync C s'" using assms(2) unfolding all_sync_def conc_inv_def
    by (simp add: conc_shutdown(1) spec_at_others) blast
  then show ?thesis using assms(2) by (simp add: conc_inv_def conc_shutdown(1) locks_ok_def)
next
  case (conc_restart specs d m)
  then show ?thesis using assms(2) inv_booted [OF assms(3) _ _ conc_restart(2,3)] by (simp add: conc_inv_def)
next
  case (conc_done g)
  then show ?thesis using inv_mgr [OF assms(2)] by (simp add: spec_at_others)
next
  case (conc_forget i key)
  then show ?thesis using inv_mgr [OF assms(2)] by (simp add: spec_at_others)
qed (use assms(2,3) in \<open>blast intro: inv_write inv_update inv_delete inv_remove\<close>)+

lemma inv_reachable:
  assumes "protojson_ok C" "conc_steps C (booted empty_db new_manager) s"
  shows "conc_inv C s"
  using assms(2)
proof (induction rule: rtranclp_induct)
  case base
  have "ListPools C empty_db = Inr ([], empty_db)" by (simp add: ListPools_def empty_db_def)
  then show ?case using inv_booted [OF assms(1) wf_empty_db, of "[]" empty_db new_manager] by (simp add: rows_ok_def empty_db_def)
next
  case (step s s')
  then show ?case using inv_step assms(1) by blast
qed

lemma GetPool_at: "GetPool C name ns d = (case pool_at C d (PoolKey name ns) of None \<Rightarrow> Inl ErrNotFound
    | Some (Inl e) \<Rightarrow> Inl e | Some (Inr p) \<Rightarrow> Inr (p, d))"
  by (simp add: GetPool_def pool_at_def split: option.splits sum.splits)


text \<open>A run of thread 0: after a host is registered it creates a pool.\<close>

definition sample_hosts_db :: db where
  "sample_hosts_db = (case CreateHost (rowToHost sample_host) empty_db of Inr (_, d) \<Rightarrow> d | Inl _ \<Rightarrow> empty_db)"

definition sample_created_db :: db where
  "sample_created_db = (case CreatePool sample_codec sample_pool sample_hosts_db of Inr (_, d) \<Rightarrow> d | Inl _ \<Rightarrow> empty_db)"

definition sample_at :: "pc \<Rightarrow> db \<Rightarrow> manager \<Rightarrow> bool \<Rightarrow> bool \<Rightarrow> conc" where
  "sample_at p d m locked reading = \<lparr>c_db = d, c_mgr = m, c_pc = (\<lambda>_. Idle)(0 := p),
     c_poolLocks = (if locked then [PoolKey ''p'' ''ns'' \<mapsto> 0] else Map.empty),
     c_readers = (if reading then {0} else {}), c_writer = None\<rparr>"

lemma sample_writes: "write_step C 0 s s1 \<Longrightarrow> s1 = s2 \<Longrightarrow> conc_step C s s2"
  by (auto intro: conc_write)

lemma sample_key: "spec_key sample_pool = PoolKey ''p'' ''ns''"
  by (simp add: spec_key_def sample_pool_def)

lemmas sample_defs = sample_at_def sample_key goto_def lock_defs

lemma sample_run:
  "conc_steps sample_codec (booted empty_db new_manager)
     (sample_at Idle sample_created_db (restartReconciler sample_pool new_manager) False False)"
proof -
  let ?C = "sample_codec" and ?p = "sample_pool" and ?d = "sample_hosts_db" and ?e = "sample_created_db" and ?m = "new_manager"
  let ?n = "restartReconciler sample_pool new_manager"
  have d: "CreateHost (rowToHost sample_host) empty_db = Inr ((), ?d)" "pools ?d = pools empty_db" "hosts empty_db = []"
    "validatePoolSpec ?p = Inr ?p" "hosts_known ?d ?p" "GetPool ?C (ps_Name ?p) (ps_Namespace ?p) ?d = Inl ErrNotFound"
    "CreatePool ?C ?p ?d = Inr ((), ?e)" by code_simp+
  have 0: "conc_step ?C (booted empty_db ?m) (sample_at Idle ?d ?m False False)"
    using conc_store [of ?C "booted empty_db ?m" ?d] step_CreateHost [OF d(1), of ?C] d(2,3)
    by (simp add: outside_def booted_def sample_at_def fun_upd_idem)
  have 1: "conc_step ?C (sample_at Idle ?d ?m False False) (sample_at (W_Locked OpCreate ?p) ?d ?m True False)"
    by (rule sample_writes, rule write_lock [OF _ d(4)]) (auto simp: sample_defs fun_eq_iff)
  have 2: "conc_step ?C (sample_at (W_Locked OpCreate ?p) ?d ?m True False) (sample_at (W_Refs OpCreate ?p) ?d ?m True True)"
    by (rule sample_writes, rule write_rlock) (auto simp: sample_defs fun_eq_iff)
  have 3: "conc_step ?C (sample_at (W_Refs OpCreate ?p) ?d ?m True True) (sample_at (W_Checked OpCreate ?p) ?d ?m True True)"
    by (rule sample_writes, rule write_check) (auto simp: sample_defs d(5) fun_eq_iff)
  have 4: "conc_step ?C (sample_at (W_Checked OpCreate ?p) ?d ?m True True) (sample_at (W_Looked OpCreate ?p) ?d ?m True True)"
    by (rule sample_writes, rule write_look) (auto simp: sample_defs d(6) fun_eq_iff)
  have 5: "conc_step ?C (sample_at (W_Looked OpCreate ?p) ?d ?m True True) (sample_at (W_Stored ?p) ?e ?m True True)"
    by (rule sample_writes, rule write_create) (auto simp: sample_defs d(7) fun_eq_iff)
  have 6: "conc_step ?C (sample_at (W_Stored ?p) ?e ?m True True) (sample_at (W_Done ?p) ?e ?n True True)"
    by (rule sample_writes, rule write_start) (auto simp: sample_defs fun_eq_iff)
  have 7: "conc_step ?C (sample_at (W_Done ?p) ?e ?n True True) (sample_at (Leaving (PoolKey ''p'' ''ns'')) ?e ?n True False)"
    by (rule sample_writes, rule write_runlock) (auto simp: sample_defs fun_eq_iff)
  have 8: "conc_step ?C (sample_at (Leaving (PoolKey ''p'' ''ns'')) ?e ?n True False) (sample_at Idle ?e ?n False False)"
    by (rule sample_writes, rule write_unlock) (auto simp: sample_defs fun_eq_iff)
  show ?thesis using 0 1 2 3 4 5 6 7 8 by (meson converse_rtranclp_into_rtranclp rtranclp.rtrancl_refl)
qed

lemma sample_codec_ok: "protojson_ok sample_codec"
  by (auto simp: protojson_ok_def sample_codec_def split: if_splits)

section \<open>Properties\<close>

text \<open>C4: pools and reconcilers stay the same, under every interleaving. From an empty database, after
  any number of \<open>CreatePool\<close>, \<open>UpdatePool\<close>, \<open>DeletePool\<close> and \<open>RemoveHost\<close> requests that run
  concurrently, call by call, fail or are abandoned at any point, with the rest of the server, with
  shutdowns, crashes and restarts: when no request holds the lock of a pool and the manager is not
  shut down, the pool is stored exactly when it has a reconciler, and that reconciler runs the spec
  that is stored. And at every moment, also in the middle of requests, a crash leaves a database from
  which the process can start a reconciler for every pool.\<close>

theorem reconcilers_run_stored_specs:
  assumes "protojson_ok C" and "conc_steps C (booted empty_db new_manager) s"
  shows "(c_poolLocks s (PoolKey name ns) = None \<and> \<not> mg_stopped (c_mgr s) \<longrightarrow>
      GetPool C name ns (c_db s) = (case mg_handles (c_mgr s) (PoolKey name ns) of
        None \<Rightarrow> Inl ErrNotFound | Some h \<Rightarrow> Inr (rh_spec h, c_db s))) \<and>
    (\<exists>specs m. ListPools C (c_db s) = Inr (specs, c_db s) \<and> Seed specs new_manager = (None, m))"
proof -
  note inv = inv_reachable [OF assms, unfolded conc_inv_def]
  have "pool_at C (c_db s) k = map_option Inr (spec_at (c_mgr s) k)" if "c_poolLocks s k = None" "\<not> mg_stopped (c_mgr s)" for k
  proof -
    have "owner s k = Idle" using that(1) by (simp add: owner_def)
    then show ?thesis using inv that(2) unfolding all_sync_def by (metis in_step_def pool_sync.simps(6))
  qed
  then show ?thesis using inv boots [OF assms(1)] by (auto simp: GetPool_at spec_at_def split: option.splits)
qed

theorem reconcilers_run_stored_specs_witness:
  "\<exists>s h. conc_steps sample_codec (booted empty_db new_manager) s \<and> mg_handles (c_mgr s) (PoolKey ''p'' ''ns'') = Some h \<and>
     GetPool sample_codec ''p'' ''ns'' (c_db s) = Inr (rh_spec h, c_db s)"
proof -
  let ?s = "sample_at Idle sample_created_db (restartReconciler sample_pool new_manager) False False"
  have m: "\<not> mg_stopped (restartReconciler sample_pool new_manager)"
    "mg_handles (restartReconciler sample_pool new_manager) (PoolKey ''p'' ''ns'') \<noteq> None" by code_simp+
  then obtain h where "mg_handles (c_mgr ?s) (PoolKey ''p'' ''ns'') = Some h" by (auto simp: sample_at_def)
  then show ?thesis using reconcilers_run_stored_specs [OF sample_codec_ok sample_run, of "''p''" "''ns''"] sample_run m(1)
    by (auto simp: sample_at_def)
qed

text \<open>C16: under the same interleavings, a stored pool never names a host that is not registered:
  \<open>hostRefsMu\<close> keeps a removal from slipping between a request's check of \<open>flintlock_hosts\<close> and its
  write, and \<open>DeleteHost\<close> refuses a host that a stored pool names. Two requests never hold the lock
  of one pool, and none that has checked its hosts runs while a host is being removed.\<close>

theorem stored_pools_name_registered_hosts:
  assumes "protojson_ok C" and "conc_steps C (booted empty_db new_manager) s"
  shows "(\<forall>r \<in> set (pools (c_db s)). \<forall>h. Some h \<in> set (json_each (pr_flintlockHosts r)) \<longrightarrow> h \<in> hr_name ` set (hosts (c_db s))) \<and>
    (pc_key (c_pc s t) \<noteq> None \<and> pc_key (c_pc s t) = pc_key (c_pc s u) \<longrightarrow> t = u) \<and>
    (reads_refs (c_pc s t) \<longrightarrow> \<not> writes_refs (c_pc s u))"
proof -
  note inv = inv_reachable [OF assms, unfolded conc_inv_def]
  have rows: "rows_ok C (c_db s)" using inv by blast
  have "h \<in> registered (c_db s)" if rh: "r \<in> set (pools (c_db s))" "Some h \<in> set (json_each (pr_flintlockHosts r))" for r h
  proof -
    obtain spec where spec: "poolToRow C spec = Inr r" "set (ps_FlintlockHosts spec) \<subseteq> registered (c_db s)"
      using rows rh(1) by (auto simp: rows_ok_def)
    then show ?thesis using rh(2) poolToRow_Inr [OF spec(1)] by auto
  qed
  moreover have locks: "locks_ok s" using inv by blast
  have "pc_key (c_pc s t) \<noteq> None \<and> pc_key (c_pc s t) = pc_key (c_pc s u) \<Longrightarrow> t = u"
    using locks unfolding locks_ok_def by (metis not_None_eq option.inject)
  moreover have "reads_refs (c_pc s t) \<Longrightarrow> \<not> writes_refs (c_pc s u)"
    using locks unfolding locks_ok_def by (metis empty_iff not_None_eq)
  ultimately show ?thesis by blast
qed

theorem stored_pools_name_registered_hosts_witness:
  "\<exists>s r. conc_steps sample_codec (booted empty_db new_manager) s \<and> r \<in> set (pools (c_db s)) \<and>
     Some ''h'' \<in> set (json_each (pr_flintlockHosts r)) \<and> ''h'' \<in> hr_name ` set (hosts (c_db s))"
proof -
  let ?s = "sample_at Idle sample_created_db (restartReconciler sample_pool new_manager) False False"
  have "list_ex (\<lambda>r. Some ''h'' \<in> set (json_each (pr_flintlockHosts r))) (pools sample_created_db)" by code_simp
  then obtain r where "r \<in> set (pools (c_db ?s))" "Some ''h'' \<in> set (json_each (pr_flintlockHosts r))"
    by (auto simp: list_ex_iff sample_at_def)
  then show ?thesis using stored_pools_name_registered_hosts [OF sample_codec_ok sample_run, of 0 0] sample_run by blast
qed

end
