(* ===== verification/Daemon.thy ===== *)
theory Daemon
  imports Startup Server Lease_API Events_API
begin

text \<open>
  Model of \<^verbatim>\<open>src/cmd/poolmgrd/main.go\<close> as a whole: the flags, the configuration, the start-up of
  theory \<open>Startup\<close>, the gRPC server, and then the four long-running tasks (metrics listener, pool
  manager, sweeper, gRPC listener), whose ends \<open>main\<close> collects until it exits. \<open>main\<close> starts the first
  three tasks just before it builds the gRPC server; if that or the listening fails the process exits
  with them, so the tasks are followed from the point where all four run. The tasks, the
  signal handler and the requests run interleaved; a task that returns puts its result into
  \<open>errCh\<close>, which has room for all four.
\<close>

section \<open>Definitions\<close>

subsection \<open>Up to the tasks\<close>

record Flags =
  fl_config :: string
  fl_db :: string
  fl_logLevel :: string

definition default_flags :: Flags where
  "default_flags = \<lparr>fl_config = [], fl_db = ''poolmgr.db'', fl_logLevel = ''debug''\<rparr>"

text \<open>Each \<open>fatal\<close> of \<open>main\<close>, after which the process exits with status 1.\<close>

datatype MainErr =
    FatalLogLevel
  | FatalConfigRequired
  | FatalLoad ConfigErr
  | FatalOpen
  | FatalStartup Fatal
  | FatalNoAPIServer
  | FatalServer ServerErr
  | FatalListen

text \<open>What \<open>main\<close> hands to its tasks: the metrics address, the sweeper's timings, the gRPC server.\<close>

datatype Service = PoolAdminService | LeaseService | EventsService | HostAdminService | HealthService | ReflectionService

record Registered =
  rg_Server :: GRPCServer
  rg_Services :: "Service list"
  rg_Hooks :: HookExecConfig
  rg_EventsBatch :: int

record Serving =
  sv_MetricsAddr :: string
  sv_SweepInterval :: Duration
  sv_WarningWindow :: Duration
  sv_Server :: Registered

text \<open>The surroundings of the process: files, the JSON parser, \<open>store.Open\<close> on a path (the schema
  version found there and which migrations apply), and the addresses that can be listened on.\<close>

record host_os =
  os_ReadFile :: "string \<Rightarrow> string option"
  os_ParseJSON :: "string \<Rightarrow> jval option"
  os_Version :: "string \<Rightarrow> nat option"
  os_Migration :: "nat \<Rightarrow> bool"
  os_Listen :: "string \<Rightarrow> bool"

definition Open_store :: "host_os \<Rightarrow> string \<Rightarrow> bool" where
  "Open_store os path = (case os_Version os path of None \<Rightarrow> False | Some v \<Rightarrow> fst (migrate (os_Migration os) v))"

text \<open>\<open>buildGRPCServer\<close>: the server and the services registered on it, in order; the lease service
  and the events service are built with zero settings, which stand for their defaults.\<close>

definition buildGRPCServer :: "dialer \<Rightarrow> APIServerConfig \<Rightarrow> ServerErr + Registered" where
  "buildGRPCServer D cfg =
     (case Server_New D cfg of Inl e \<Rightarrow> Inl e
      | Inr srv \<Rightarrow> Inr \<lparr>rg_Server = srv,
          rg_Services = [PoolAdminService, LeaseService, EventsService, HostAdminService, HealthService, ReflectionService],
          rg_Hooks = NewLeaseServer_cfg \<lparr>he_ExecTimeoutSeconds = 0, he_CleanupTimeout = 0\<rparr>,
          rg_EventsBatch = NewEventsServer_batch 0\<rparr>)"

text \<open>A nil \<open>cfg.APIServer\<close> would be dereferenced here: a panic, written \<open>FatalNoAPIServer\<close>.\<close>

definition listen_api :: "host_os \<Rightarrow> dialer \<Rightarrow> Config \<Rightarrow> MainErr + Registered" where
  "listen_api os D cfg =
     (case cf_APIServer cfg of None \<Rightarrow> Inl FatalNoAPIServer
      | Some api \<Rightarrow>
        (case buildGRPCServer D api of Inl e \<Rightarrow> Inl (FatalServer e)
         | Inr srv \<Rightarrow> if os_Listen os (as_Addr api) then Inr srv else Inl FatalListen))"

definition main_boot :: "host_os \<Rightarrow> Flags \<Rightarrow> env \<Rightarrow> (MainErr + Serving) M" where
  "main_boot os fl E =
     (if parseLogLevel (fl_logLevel fl) = None then ret (Inl FatalLogLevel)
      else if fl_config fl = [] then ret (Inl FatalConfigRequired)
      else
        (case Load (os_ReadFile os) (os_ParseJSON os) (fl_config fl) of Inl e \<Rightarrow> ret (Inl (FatalLoad e))
         | Inr cfg \<Rightarrow>
           if \<not> Open_store os (fl_db fl) then ret (Inl FatalOpen)
           else do {
             r \<leftarrow> startup E;
             ret (case r of Some e \<Rightarrow> Inl (FatalStartup e)
                  | None \<Rightarrow>
                    (case listen_api os (e_dialer E) cfg of Inl e \<Rightarrow> Inl e
                     | Inr srv \<Rightarrow> Inr \<lparr>sv_MetricsAddr = cf_MetricsAddr cfg, sv_SweepInterval = fst (main_timings cfg),
                         sv_WarningWindow = snd (main_timings cfg), sv_Server = srv\<rparr>)) }))"

subsection \<open>The tasks\<close>

definition grpcShutdownTimeout :: Duration where "grpcShutdownTimeout = 5 * second"

datatype ServerStop = StillOpen | Gracefully | Forced

text \<open>\<open>serveGRPC\<close>: it returns what \<open>Serve\<close> returned, or after the context is done stops the server
  and returns the context's error. \<open>graceful\<close> is how long \<open>GracefulStop\<close> takes if nobody forces it
  (\<open>None\<close>: a stream stays open for ever); \<open>Stop\<close> makes it return. Where both channels of a \<open>select\<close>
  are ready either may be taken.\<close>

inductive serveGRPC :: "TaskErr option option \<Rightarrow> bool \<Rightarrow> Duration option \<Rightarrow> TaskErr option \<Rightarrow> ServerStop \<Rightarrow> bool" where
  grpc_served: "serveGRPC (Some r) ctxDone graceful r StillOpen"
| grpc_graceful: "d \<le> grpcShutdownTimeout \<Longrightarrow> serveGRPC served True (Some d) (Some TaskCanceled) Gracefully"
| grpc_forced: "(\<And>d. graceful = Some d \<Longrightarrow> grpcShutdownTimeout \<le> d) \<Longrightarrow> serveGRPC served True graceful (Some TaskCanceled) Forced"

text \<open>\<open>serveMetrics\<close>: \<open>listened\<close> is the end of \<open>ListenAndServe\<close>, \<open>http.ErrServerClosed\<close> already turned
  into nil; \<open>shutdownErr\<close> the error of \<open>Shutdown\<close>.\<close>

inductive serveMetrics :: "TaskErr option option \<Rightarrow> bool \<Rightarrow> TaskErr option \<Rightarrow> TaskErr option \<Rightarrow> bool" where
  metrics_ended: "serveMetrics (Some r) ctxDone shutdownErr r"
| metrics_stopped: "serveMetrics listened True None (Some TaskCanceled)"
| metrics_stop_failed: "serveMetrics listened True (Some e) (Some e)"

datatype TaskName = MetricsTask | ManagerTask | SweeperTask | GRPCTask

record daemon =
  dm_running :: "TaskName set"
  dm_errCh :: "TaskErr option list"
  dm_received :: "TaskErr option list"
  dm_firstErr :: "TaskErr option"
  dm_ctxDone :: bool
  dm_mgr :: manager
  dm_exit :: "nat option"

definition daemon_start :: "manager \<Rightarrow> daemon" where
  "daemon_start m = \<lparr>dm_running = {MetricsTask, ManagerTask, SweeperTask, GRPCTask}, dm_errCh = [], dm_received = [],
     dm_firstErr = None, dm_ctxDone = False, dm_mgr = m, dm_exit = None\<rparr>"

definition returns :: "TaskName \<Rightarrow> TaskErr option \<Rightarrow> daemon \<Rightarrow> daemon" where
  "returns t r s = s\<lparr>dm_running := dm_running s - {t}, dm_errCh := dm_errCh s @ [r]\<rparr>"

definition failed :: "TaskErr option \<Rightarrow> bool" where
  "failed r \<longleftrightarrow> r \<noteq> None \<and> r \<noteq> Some TaskCanceled"

text \<open>Until they are told to stop, \<open>Serve\<close> and \<open>ListenAndServe\<close> only return with an error.\<close>

definition ends_early :: "TaskErr option option \<Rightarrow> bool" where
  "ends_early served \<longleftrightarrow> (case served of None \<Rightarrow> True | Some r \<Rightarrow> failed r)"

text \<open>One step of the process. \<open>Manager.Run\<close> waits for the context, shuts the manager down and waits for every
  reconciler; \<open>Sweeper.Run\<close> returns the context's error. The requests served meanwhile start and stop
  reconcilers.\<close>

inductive daemon_step :: "daemon \<Rightarrow> daemon \<Rightarrow> bool" where
  signal: "dm_exit s = None \<Longrightarrow> daemon_step s (s\<lparr>dm_ctxDone := True\<rparr>)"
| metrics_return: "dm_exit s = None \<Longrightarrow> MetricsTask \<in> dm_running s \<Longrightarrow> ends_early listened \<Longrightarrow>
    serveMetrics listened (dm_ctxDone s) shutdownErr r \<Longrightarrow> daemon_step s (returns MetricsTask r s)"
| grpc_return: "dm_exit s = None \<Longrightarrow> GRPCTask \<in> dm_running s \<Longrightarrow> ends_early served \<Longrightarrow>
    serveGRPC served (dm_ctxDone s) graceful r stop \<Longrightarrow> daemon_step s (returns GRPCTask r s)"
| sweeper_return: "dm_exit s = None \<Longrightarrow> SweeperTask \<in> dm_running s \<Longrightarrow> dm_ctxDone s \<Longrightarrow>
    daemon_step s (returns SweeperTask (Some TaskCanceled) s)"
| manager_shutdown: "dm_exit s = None \<Longrightarrow> ManagerTask \<in> dm_running s \<Longrightarrow> dm_ctxDone s \<Longrightarrow>
    daemon_step s (s\<lparr>dm_mgr := shutdown (dm_mgr s)\<rparr>)"
| manager_return: "dm_exit s = None \<Longrightarrow> ManagerTask \<in> dm_running s \<Longrightarrow> mg_stopped (dm_mgr s) \<Longrightarrow> mg_running (dm_mgr s) = [] \<Longrightarrow>
    daemon_step s (returns ManagerTask (Some TaskCanceled) s)"
| start_reconciler: "dm_exit s = None \<Longrightarrow> StartReconciler spec (dm_mgr s) = Inr m \<Longrightarrow> daemon_step s (s\<lparr>dm_mgr := m\<rparr>)"
| stop_reconciler: "dm_exit s = None \<Longrightarrow> daemon_step s (s\<lparr>dm_mgr := cancelAndForget name ns (dm_mgr s)\<rparr>)"
| reconciler_done: "dm_exit s = None \<Longrightarrow> g \<in> set (mg_running (dm_mgr s)) \<Longrightarrow> daemon_step s (s\<lparr>dm_mgr := close_done (g_id g) (dm_mgr s)\<rparr>)"
| receive: "dm_exit s = None \<Longrightarrow> dm_errCh s = r # rest \<Longrightarrow> length (dm_received s) < 4 \<Longrightarrow>
    await_tasks [r] (dm_firstErr s, dm_ctxDone s) = (first, stopped) \<Longrightarrow>
    daemon_step s (s\<lparr>dm_errCh := rest, dm_received := dm_received s @ [r], dm_firstErr := first, dm_ctxDone := stopped\<rparr>)"
| main_return: "dm_exit s = None \<Longrightarrow> length (dm_received s) = 4 \<Longrightarrow>
    daemon_step s (s\<lparr>dm_exit := Some (if dm_firstErr s = None then 0 else 1)\<rparr>)"

abbreviation daemon_steps :: "daemon \<Rightarrow> daemon \<Rightarrow> bool" where
  "daemon_steps \<equiv> daemon_step\<^sup>*\<^sup>*"

text \<open>The first result that is a failure and not the cancellation.\<close>

definition first_failure :: "TaskErr option list \<Rightarrow> TaskErr option" where
  "first_failure rs = (case find failed rs of None \<Rightarrow> None | Some r \<Rightarrow> r)"


section \<open>Invariant\<close>

text \<open>Every task has its result in exactly one place: it runs, its result waits in \<open>errCh\<close>, or
  \<open>main\<close> has received it. The first failure \<open>main\<close> has received is the one it keeps, and it has
  stopped the others. The manager's task ends with no reconciler running, and none can start then.\<close>

definition daemon_inv :: "daemon \<Rightarrow> bool" where
  "daemon_inv s \<longleftrightarrow>
     card (dm_running s) + length (dm_errCh s) + length (dm_received s) = 4 \<and>
     dm_firstErr s = first_failure (dm_received s) \<and>
     (dm_firstErr s \<noteq> None \<longrightarrow> dm_ctxDone s) \<and>
     (ManagerTask \<notin> dm_running s \<longrightarrow> mg_stopped (dm_mgr s) \<and> mg_running (dm_mgr s) = []) \<and>
     (mg_stopped (dm_mgr s) \<longrightarrow> dm_ctxDone s) \<and>
     (\<forall>r \<in> set (dm_errCh s) \<union> set (dm_received s). r \<noteq> None \<and> (\<not> failed r \<longrightarrow> dm_ctxDone s)) \<and>
     (dm_exit s \<noteq> None \<longrightarrow> length (dm_received s) = 4 \<and> dm_exit s = Some (if dm_firstErr s = None then 0 else 1))"

lemma UNIV_TaskName: "UNIV = {MetricsTask, ManagerTask, SweeperTask, GRPCTask}"
  by (auto intro: TaskName.exhaust)

lemma finite_tasks [simp]: "finite (S :: TaskName set)"
  by (rule finite_subset [OF subset_UNIV]) (simp add: UNIV_TaskName)

lemma first_failure_append:
  "first_failure (rs @ [r]) = (if first_failure rs = None \<and> failed r then r else first_failure rs)"
proof -
  have "failed x \<Longrightarrow> x \<noteq> None" for x by (simp add: failed_def)
  then show ?thesis by (induction rs) (auto simp: first_failure_def split: option.splits)
qed

lemma await_one:
  "await_tasks [r] (first, stopped) = (if failed r \<and> first = None then (r, True) else (first, stopped))"
  by (simp add: failed_def)

lemma task_results:
  "serveMetrics listened ctxDone shutdownErr r \<Longrightarrow> ends_early listened \<Longrightarrow> r \<noteq> None \<and> (\<not> failed r \<longrightarrow> ctxDone)"
  "serveGRPC served ctxDone graceful r stop \<Longrightarrow> ends_early served \<Longrightarrow> r \<noteq> None \<and> (\<not> failed r \<longrightarrow> ctxDone)"
  by (auto simp: ends_early_def failed_def elim: serveMetrics.cases serveGRPC.cases)

lemma inv_returns:
  assumes "daemon_inv s" "dm_exit s = None" "t \<in> dm_running s" "r \<noteq> None" "\<not> failed r \<longrightarrow> dm_ctxDone s"
    "t = ManagerTask \<Longrightarrow> mg_stopped (dm_mgr s) \<and> mg_running (dm_mgr s) = []"
  shows "daemon_inv (returns t r s)"
proof -
  have card: "card (dm_running (returns t r s)) + 1 = card (dm_running s)" using assms(3) card_Suc_Diff1 [of "dm_running s" t] by (simp add: returns_def)
  have sel: "dm_errCh (returns t r s) = dm_errCh s @ [r]" "dm_received (returns t r s) = dm_received s"
    "dm_firstErr (returns t r s) = dm_firstErr s" "dm_ctxDone (returns t r s) = dm_ctxDone s" "dm_mgr (returns t r s) = dm_mgr s"
    "dm_exit (returns t r s) = None" "ManagerTask \<notin> dm_running (returns t r s) \<longleftrightarrow> ManagerTask \<notin> dm_running s \<or> t = ManagerTask"
    by (auto simp: returns_def assms(2))
  show ?thesis using assms(1,4-6) card unfolding daemon_inv_def sel by (intro conjI) auto
qed

lemma mgr_frames:
  "StartReconciler spec m = Inr m' \<Longrightarrow> \<not> mg_stopped m \<and> \<not> mg_stopped m'"
  "mg_stopped (cancelAndForget name ns m) = mg_stopped m" "mg_running (cancelAndForget name ns m) = mg_running m"
  "mg_stopped (close_done i m) = mg_stopped m" "mg_running (shutdown m) = mg_running m" "mg_stopped (shutdown m)"
  by (auto simp: cancelAndForget_def close_done_def shutdown_def dest: StartReconciler_Inr split: option.splits)

lemma inv_mgr_step:
  assumes "daemon_inv s" "ManagerTask \<notin> dm_running s \<Longrightarrow> mg_stopped m \<and> mg_running m = []" "mg_stopped m \<Longrightarrow> dm_ctxDone s"
  shows "daemon_inv (s\<lparr>dm_mgr := m\<rparr>)"
  using assms unfolding daemon_inv_def by auto

lemma daemon_inv_step: "daemon_step s s' \<Longrightarrow> daemon_inv s \<Longrightarrow> daemon_inv s'"
proof (induction rule: daemon_step.induct)
  case (metrics_return s listened shutdownErr r)
  then show ?case by (intro inv_returns) (auto dest: task_results)
next
  case (grpc_return s served graceful r stop)
  then show ?case by (intro inv_returns) (auto dest: task_results)
next
  case (sweeper_return s)
  then show ?case by (intro inv_returns) (auto simp: failed_def)
next
  case (manager_return s)
  then have "dm_ctxDone s" by (simp add: daemon_inv_def)
  then show ?case using manager_return by (intro inv_returns) auto
next
  case (manager_shutdown s)
  then show ?case by (intro inv_mgr_step) (auto simp: mgr_frames)
next
  case (start_reconciler s spec m)
  then show ?case using mgr_frames(1) [OF start_reconciler(2)] by (intro inv_mgr_step) (auto simp: daemon_inv_def)
next
  case (stop_reconciler s name ns)
  then show ?case by (intro inv_mgr_step) (auto simp: mgr_frames daemon_inv_def)
next
  case (reconciler_done s g)
  then show ?case by (intro inv_mgr_step) (auto simp: mgr_frames daemon_inv_def close_done_def)
next
  case (receive s r rest first stopped)
  then show ?case unfolding daemon_inv_def await_one by (auto simp: first_failure_append split: if_splits)
qed (auto simp: daemon_inv_def)

lemma daemon_inv_start: "\<not> mg_stopped m \<Longrightarrow> daemon_inv (daemon_start m)"
  by (simp add: daemon_inv_def daemon_start_def first_failure_def)

lemma daemon_inv_run: "daemon_steps s s' \<Longrightarrow> daemon_inv s \<Longrightarrow> daemon_inv s'"
  by (induction rule: rtranclp_induct) (auto intro: daemon_inv_step)

section \<open>The process stops\<close>

text \<open>What is left to do once the process is stopping.\<close>

definition left :: "daemon \<Rightarrow> nat" where
  "left s = 2 * card (dm_running s) + length (dm_errCh s) + length (mg_running (dm_mgr s)) +
     (if mg_stopped (dm_mgr s) then 0 else 1) + (if dm_exit s = None then 1 else 0)"

definition stopping :: "daemon \<Rightarrow> bool" where
  "stopping s \<longleftrightarrow> dm_ctxDone s \<or> dm_running s \<noteq> UNIV"

lemma left_returns: "t \<in> dm_running s \<Longrightarrow> left (returns t r s) < left s \<and> stopping (returns t r s)"
proof -
  assume "t \<in> dm_running s"
  then have "card (dm_running (returns t r s)) + 1 = card (dm_running s)" "t \<notin> dm_running (returns t r s)"
    using card_Suc_Diff1 [of "dm_running s" t] by (simp_all add: returns_def)
  moreover have "dm_errCh (returns t r s) = dm_errCh s @ [r]" "dm_mgr (returns t r s) = dm_mgr s" "dm_exit (returns t r s) = dm_exit s"
    by (simp_all add: returns_def)
  ultimately show ?thesis by (auto simp: left_def stopping_def)
qed

lemma first_failure_all: "rs \<noteq> [] \<Longrightarrow> (\<forall>r \<in> set rs. failed r) \<Longrightarrow> first_failure rs \<noteq> None"
  by (cases rs) (auto simp: first_failure_def failed_def)

lemma stopping_cancelled:
  assumes "daemon_inv s" "stopping s" "dm_errCh s = []"
  shows "dm_ctxDone s"
proof (rule ccontr)
  assume not: "\<not> dm_ctxDone s"
  then have "dm_running s \<subset> UNIV" using assms(2) by (auto simp: stopping_def)
  then have "card (dm_running s) < card (UNIV :: TaskName set)" by (intro psubset_card_mono) simp_all
  then have "dm_received s \<noteq> []" using assms(1,3) by (auto simp: daemon_inv_def UNIV_TaskName)
  moreover have "\<forall>r \<in> set (dm_received s). failed r" "first_failure (dm_received s) = None" using assms(1) not by (auto simp: daemon_inv_def)
  ultimately show False using first_failure_all by blast
qed

lemma task_progress:
  assumes "dm_exit s = None" "dm_ctxDone s" "t \<in> dm_running s" "daemon_inv s"
  shows "\<exists>s'. daemon_step s s' \<and> left s' < left s \<and> stopping s'"
proof (cases t)
  case MetricsTask
  then show ?thesis using assms left_returns [OF assms(3), of "Some TaskCanceled"] metrics_return [of s None None "Some TaskCanceled"]
    by (auto simp: ends_early_def intro: metrics_stopped)
next
  case GRPCTask
  then show ?thesis using assms left_returns [OF assms(3), of "Some TaskCanceled"] grpc_return [of s None None "Some TaskCanceled" Forced]
    by (auto simp: ends_early_def intro: grpc_forced)
next
  case SweeperTask
  then show ?thesis using assms left_returns [OF assms(3), of "Some TaskCanceled"] sweeper_return [of s] by auto
next
  case ManagerTask
  show ?thesis
  proof (cases "mg_stopped (dm_mgr s)")
    case False
    then show ?thesis using assms ManagerTask manager_shutdown [of s]
      by (intro exI [of _ "s\<lparr>dm_mgr := shutdown (dm_mgr s)\<rparr>"]) (simp add: left_def stopping_def mgr_frames)
  next
    case True
    show ?thesis
    proof (cases "mg_running (dm_mgr s)")
      case Nil
      then show ?thesis using assms ManagerTask True left_returns [OF assms(3), of "Some TaskCanceled"] manager_return [of s] by auto
    next
      case (Cons g gs)
      have "length (filter (\<lambda>x. g_id x \<noteq> g_id g) gs) < length (g # gs)" by (simp add: less_Suc_eq_le)
      then show ?thesis using assms Cons reconciler_done [of s g]
        by (intro exI [of _ "s\<lparr>dm_mgr := close_done (g_id g) (dm_mgr s)\<rparr>"]) (simp add: left_def stopping_def close_done_def)
    qed
  qed
qed

lemma progress:
  assumes "dm_exit s = None" "stopping s" "daemon_inv s"
  shows "\<exists>s'. daemon_step s s' \<and> left s' < left s \<and> stopping s'"
proof (cases "dm_errCh s")
  case (Cons r rest)
  obtain first stopped where w: "await_tasks [r] (dm_firstErr s, dm_ctxDone s) = (first, stopped)" by (metis surj_pair)
  then have "dm_ctxDone s \<longrightarrow> stopped" by (auto simp: await_one split: if_splits)
  moreover have "length (dm_received s) < 4" using assms(3) Cons by (simp add: daemon_inv_def)
  ultimately show ?thesis using receive [OF assms(1) Cons _ w] assms(2)
    by (intro exI [of _ "s\<lparr>dm_errCh := rest, dm_received := dm_received s @ [r], dm_firstErr := first, dm_ctxDone := stopped\<rparr>"])
      (auto simp: left_def stopping_def Cons)
next
  case Nil
  then have ctx: "dm_ctxDone s" using stopping_cancelled assms by blast
  show ?thesis
  proof (cases "dm_running s = {}")
    case True
    then have "length (dm_received s) = 4" using assms(3) Nil by (simp add: daemon_inv_def)
    then show ?thesis using main_return [OF assms(1)] assms(1) ctx by (auto simp: left_def stopping_def)
  next
    case False
    then show ?thesis using task_progress [OF assms(1) ctx _ assms(3)] by blast
  qed
qed

lemma stops:
  "stopping s \<Longrightarrow> daemon_inv s \<Longrightarrow> \<exists>s'. daemon_steps s s' \<and> dm_exit s' \<noteq> None"
proof (induction "left s" arbitrary: s rule: less_induct)
  case less
  show ?case
  proof (cases "dm_exit s")
    case None
    then obtain s' where s': "daemon_step s s'" "left s' < left s" "stopping s'" using progress less.prems by blast
    then show ?thesis using less.hyps [OF s'(2,3)] daemon_inv_step [OF s'(1) less.prems(2)] by (meson converse_rtranclp_into_rtranclp)
  qed auto
qed


section \<open>From boot to exit\<close>

lemma Seed_stopped: "snd (Seed specs m) = m' \<Longrightarrow> mg_stopped m' = mg_stopped m"
proof (induction specs arbitrary: m)
  case (Cons spec specs)
  then show ?case by (cases "StartReconciler spec m") (auto dest: StartReconciler_Inr)
qed simp

lemma wp_always: "(\<And>a u. Q a u) \<Longrightarrow> wp m Q w"
  by (simp add: wp_def split: prod.splits)

lemma startup_mgr:
  assumes "undisturbed E"
  shows "wp (startup E) (\<lambda>r u. r = None \<longrightarrow> \<not> mg_stopped (wmgr u)) w"
proof -
  have "\<not> mg_stopped m" if "Seed specs new_manager = (e, m)" for specs e m
    using Seed_stopped [of specs new_manager m] that by (simp add: new_manager_def)
  then have seed: "wp (Seed_M E) (\<lambda>r u. r = None \<longrightarrow> \<not> mg_stopped (wmgr u)) u" if "wmgr u = new_manager" for u
    using assms that by (auto simp: Seed_M_def wp_bind wp_return wp_getMgr wp_putMgr wp_storeCall_undisturbed Let_def split: sum.split prod.split)
  show ?thesis unfolding startup_def
  proof (rule wp_seq [of _ "\<lambda>_ _. True"], rule wp_always, simp, rule wp_option, goal_cases)
    case (1 r u)
    show ?case
      by (rule wp_seq [of _ "\<lambda>_ _. True"], rule wp_always, simp, rule wp_sum)
        (auto simp: wp_bind wp_return wp_putConns wp_putMgr intro!: seed)
  next
    case (2 r u e)
    then show ?case by (simp add: wp_return)
  qed
qed

lemma main_boot_Inr:
  assumes "run_state (main_boot os fl E) w = (Inr sv, w')"
  shows "run_state (startup E) w = (None, w')"
    and "\<exists>cfg. Load (os_ReadFile os) (os_ParseJSON os) (fl_config fl) = Inr cfg \<and> listen_api os (e_dialer E) cfg = Inr (sv_Server sv)"
  using assms by (auto simp: main_boot_def split: if_splits sum.splits option.splits prod.splits)

lemma list_ex_failed: "list_ex failed rs \<longleftrightarrow> first_failure rs \<noteq> None"
proof -
  have "failed x \<Longrightarrow> x \<noteq> None" for x by (simp add: failed_def)
  then show ?thesis by (induction rs) (auto simp: first_failure_def split: option.splits)
qed


text \<open>C11: the process shuts down as one. Once \<open>main\<close> has booted and started its four tasks, whatever
  the tasks, the requests and the signal handler do: when it exits, every task has returned and every
  result was received, no reconciler runs any more, and the status is 1 exactly when some task failed
  otherwise than by the cancellation; a failure that was received has told the other tasks to stop;
  and as soon as a signal has arrived or any task has ended, the process can always still reach its
  exit: nothing it waits for is lost or blocked.\<close>

theorem poolmgrd_stops:
  assumes "undisturbed E" and "run_state (main_boot os fl E) w = (Inr sv, w')"
    and "daemon_steps (daemon_start (wmgr w')) s"
  shows "(\<forall>c. dm_exit s = Some c \<longrightarrow> dm_running s = {} \<and> dm_errCh s = [] \<and> mg_running (dm_mgr s) = [] \<and>
        c = (if list_ex failed (dm_received s) then 1 else 0)) \<and>
    (list_ex failed (dm_received s) \<longrightarrow> dm_ctxDone s) \<and>
    (dm_ctxDone s \<or> dm_running s \<noteq> {MetricsTask, ManagerTask, SweeperTask, GRPCTask} \<longrightarrow>
      (\<exists>s'. daemon_steps s s' \<and> dm_exit s' \<noteq> None))"
proof -
  have "\<not> mg_stopped (wmgr w')" using startup_mgr [OF assms(1), of w] main_boot_Inr(1) [OF assms(2)] by (simp add: wp_def)
  then have inv: "daemon_inv s" using daemon_inv_run [OF assms(3)] daemon_inv_start by blast
  have "dm_running s = {} \<and> dm_errCh s = [] \<and> mg_running (dm_mgr s) = [] \<and> c = (if list_ex failed (dm_received s) then 1 else 0)"
    if "dm_exit s = Some c" for c
  proof -
    have "card (dm_running s) = 0" "dm_errCh s = []" using inv that by (auto simp: daemon_inv_def)
    then show ?thesis using inv that by (auto simp: daemon_inv_def list_ex_failed)
  qed
  moreover have "list_ex failed (dm_received s) \<longrightarrow> dm_ctxDone s" using inv by (auto simp: daemon_inv_def list_ex_failed)
  ultimately show ?thesis using stops [OF _ inv] by (auto simp: stopping_def UNIV_TaskName)
qed

text \<open>A machine with a settings file, a database at the first schema version and free ports.\<close>

definition sample_os :: host_os where
  "sample_os = \<lparr>os_ReadFile = (\<lambda>_. Some []), os_ParseJSON = (\<lambda>_. Some sample_settings), os_Version = (\<lambda>_. Some 1),
     os_Migration = (\<lambda>_. True), os_Listen = (\<lambda>_. True)\<rparr>"

theorem poolmgrd_stops_witness:
  "\<exists>sv w' s s'. run_state (main_boot sample_os (default_flags\<lparr>fl_config := ''poolmgr.json''\<rparr>) sample_env) (sample_world sample_crashed) = (Inr sv, w') \<and>
     daemon_steps (daemon_start (wmgr w')) s \<and> dm_errCh s = [Some (TaskFailed ''address in use'')] \<and>
     daemon_steps s s' \<and> dm_exit s' \<noteq> None \<and> mg_running (dm_mgr s') = []"
proof -
  let ?b = "main_boot sample_os (default_flags\<lparr>fl_config := ''poolmgr.json''\<rparr>) sample_env" and ?e = "Some (TaskFailed ''address in use'')"
  have "is_ok (fst (run_state ?b (sample_world sample_crashed)))" by code_simp
  then obtain sv w' where boot: "run_state ?b (sample_world sample_crashed) = (Inr sv, w')" by (metis is_okE prod.collapse)
  let ?s = "returns MetricsTask ?e (daemon_start (wmgr w'))"
  have "daemon_step (daemon_start (wmgr w')) ?s"
    by (rule metrics_return [of _ "Some ?e"]) (simp_all add: daemon_start_def ends_early_def failed_def metrics_ended)
  then have run: "daemon_steps (daemon_start (wmgr w')) ?s" by blast
  have s: "dm_errCh ?s = [?e]" "dm_running ?s \<noteq> {MetricsTask, ManagerTask, SweeperTask, GRPCTask}"
    by (auto simp: returns_def daemon_start_def)
  then obtain s' where s': "daemon_steps ?s s'" "dm_exit s' \<noteq> None"
    using poolmgrd_stops [OF undisturbed_sample boot run] by blast
  then have "daemon_steps (daemon_start (wmgr w')) s'" using run by (meson rtranclp_trans)
  then have "mg_running (dm_mgr s') = []" using poolmgrd_stops [OF undisturbed_sample boot, of s'] s'(2) by auto
  then show ?thesis using boot run s(1) s' by blast
qed

end
