(* ===== verification/Push_Metrics.thy ===== *)
theory Push_Metrics
  imports Lease_API
begin

text \<open>
  Model of \<^verbatim>\<open>src/internal/metrics/metrics.go\<close>: the counters and histograms the handlers push into. A
  counter vector maps label values to a count, a histogram vector maps them to the observations made.
  The handlers of this development record what they push in their trace; \<open>metrics_of\<close> is the
  registry that results, where \<open>dur\<close> gives the duration observed at each place of the trace.
\<close>

section \<open>Definitions\<close>

type_synonym counterVec = "string list \<Rightarrow> nat"
type_synonym histogramVec = "string list \<Rightarrow> Duration list"

record metricSet =
  ms_vmClaimsTotal :: counterVec
  ms_vmReleasesTotal :: counterVec
  ms_provisionDuration :: histogramVec
  ms_hookDuration :: histogramVec
  ms_hookFailuresTotal :: counterVec
  ms_leaseDuration :: histogramVec
  ms_reconcilerUnexpectedExitsTotal :: counterVec

definition newMetricSet :: metricSet where
  "newMetricSet = \<lparr>ms_vmClaimsTotal = (\<lambda>_. 0), ms_vmReleasesTotal = (\<lambda>_. 0), ms_provisionDuration = (\<lambda>_. []),
     ms_hookDuration = (\<lambda>_. []), ms_hookFailuresTotal = (\<lambda>_. 0), ms_leaseDuration = (\<lambda>_. []),
     ms_reconcilerUnexpectedExitsTotal = (\<lambda>_. 0)\<rparr>"

definition Inc :: "string list \<Rightarrow> counterVec \<Rightarrow> counterVec" where
  "Inc labels c = c(labels := Suc (c labels))"

definition Observe :: "string list \<Rightarrow> Duration \<Rightarrow> histogramVec \<Rightarrow> histogramVec" where
  "Observe labels d h = h(labels := h labels @ [d])"

definition FormatBool :: "bool \<Rightarrow> string" where
  "FormatBool b = (if b then ''true'' else ''false'')"

definition RecordVMClaim :: "string \<Rightarrow> string \<Rightarrow> bool \<Rightarrow> metricSet \<Rightarrow> metricSet" where
  "RecordVMClaim poolName poolNamespace replayed m =
     m\<lparr>ms_vmClaimsTotal := Inc [poolName, poolNamespace, FormatBool replayed] (ms_vmClaimsTotal m)\<rparr>"

definition RecordVMRelease :: "string \<Rightarrow> string \<Rightarrow> string \<Rightarrow> metricSet \<Rightarrow> metricSet" where
  "RecordVMRelease poolName poolNamespace reason m =
     m\<lparr>ms_vmReleasesTotal := Inc [poolName, poolNamespace, reason] (ms_vmReleasesTotal m)\<rparr>"

definition ObserveProvisionDuration :: "string \<Rightarrow> string \<Rightarrow> Duration \<Rightarrow> metricSet \<Rightarrow> metricSet" where
  "ObserveProvisionDuration poolName poolNamespace d m =
     m\<lparr>ms_provisionDuration := Observe [poolName, poolNamespace] d (ms_provisionDuration m)\<rparr>"

definition ObserveHookDuration :: "string \<Rightarrow> string \<Rightarrow> string \<Rightarrow> Duration \<Rightarrow> metricSet \<Rightarrow> metricSet" where
  "ObserveHookDuration hook poolName poolNamespace d m =
     m\<lparr>ms_hookDuration := Observe [hook, poolName, poolNamespace] d (ms_hookDuration m)\<rparr>"

definition RecordHookFailure :: "string \<Rightarrow> string \<Rightarrow> string \<Rightarrow> metricSet \<Rightarrow> metricSet" where
  "RecordHookFailure hook poolName poolNamespace m =
     m\<lparr>ms_hookFailuresTotal := Inc [hook, poolName, poolNamespace] (ms_hookFailuresTotal m)\<rparr>"

definition ObserveLeaseDuration :: "string \<Rightarrow> string \<Rightarrow> Duration \<Rightarrow> metricSet \<Rightarrow> metricSet" where
  "ObserveLeaseDuration poolName poolNamespace d m =
     m\<lparr>ms_leaseDuration := Observe [poolName, poolNamespace] d (ms_leaseDuration m)\<rparr>"

definition RecordReconcilerUnexpectedExit :: "string \<Rightarrow> string \<Rightarrow> metricSet \<Rightarrow> metricSet" where
  "RecordReconcilerUnexpectedExit poolName poolNamespace m =
     m\<lparr>ms_reconcilerUnexpectedExitsTotal := Inc [poolName, poolNamespace] (ms_reconcilerUnexpectedExitsTotal m)\<rparr>"

text \<open>What the goroutine of a reconciler does when \<open>Run\<close> has returned \<open>err\<close>.\<close>

definition run_returned :: "string \<Rightarrow> string \<Rightarrow> 'e option \<Rightarrow> ('e \<Rightarrow> bool) \<Rightarrow> metricSet \<Rightarrow> metricSet" where
  "run_returned name ns err isCanceled m =
     (case err of None \<Rightarrow> m | Some e \<Rightarrow> if isCanceled e then m else RecordReconcilerUnexpectedExit name ns m)"

fun push :: "Duration \<Rightarrow> Metric \<Rightarrow> metricSet \<Rightarrow> metricSet" where
  "push d (M_ProvisionDuration n ns) m = ObserveProvisionDuration n ns d m"
| "push d (M_HookDuration hook n ns) m = ObserveHookDuration hook n ns d m"
| "push d (M_HookFailure hook n ns) m = RecordHookFailure hook n ns m"
| "push d (M_VMRelease n ns reason) m = RecordVMRelease n ns reason m"
| "push d (M_VMClaim n ns replayed) m = RecordVMClaim n ns replayed m"
| "push d (M_LeaseDuration n ns) m = ObserveLeaseDuration n ns d m"

fun push_all :: "(nat \<Rightarrow> Duration) \<Rightarrow> nat \<Rightarrow> Action list \<Rightarrow> metricSet \<Rightarrow> metricSet" where
  "push_all dur i [] m = m"
| "push_all dur i (A_Metric x # as) m = push_all dur (Suc i) as (push (dur i) x m)"
| "push_all dur i (_ # as) m = push_all dur (Suc i) as m"

definition metrics_of :: "(nat \<Rightarrow> Duration) \<Rightarrow> Action list \<Rightarrow> metricSet" where
  "metrics_of dur as = push_all dur 0 as newMetricSet"

section \<open>What a counter counts\<close>

text \<open>The label values of the claims recorded in a trace, in order.\<close>

fun claim_labels :: "Action list \<Rightarrow> string list list" where
  "claim_labels [] = []"
| "claim_labels (A_Metric (M_VMClaim n ns b) # as) = [n, ns, FormatBool b] # claim_labels as"
| "claim_labels (_ # as) = claim_labels as"

lemma claim_labels_append: "claim_labels (xs @ ys) = claim_labels xs @ claim_labels ys"
  by (induction xs rule: claim_labels.induct) auto

lemmas record_defs = RecordVMClaim_def RecordVMRelease_def ObserveProvisionDuration_def ObserveHookDuration_def
  RecordHookFailure_def ObserveLeaseDuration_def Inc_def

lemma push_claims:
  "ms_vmClaimsTotal (push d x m) l = (case x of M_VMClaim n ns b \<Rightarrow> if l = [n, ns, FormatBool b] then Suc (ms_vmClaimsTotal m l) else ms_vmClaimsTotal m l | _ \<Rightarrow> ms_vmClaimsTotal m l)"
  by (cases x) (simp_all add: record_defs)

lemma push_all_claims: "ms_vmClaimsTotal (push_all dur i as m) l = ms_vmClaimsTotal m l + length (filter (\<lambda>x. x = l) (claim_labels as))"
proof (induction dur i as m rule: push_all.induct)
  case (2 dur i x as m)
  then show ?case by (cases x) (simp_all add: record_defs)
qed auto

lemma claims_total: "ms_vmClaimsTotal (metrics_of dur as) l = length (filter (\<lambda>x. x = l) (claim_labels as))"
  by (simp add: metrics_of_def push_all_claims newMetricSet_def)

section \<open>Parts of the handlers that record no claim\<close>

definition same_claims :: "world \<Rightarrow> world \<Rightarrow> bool" where
  "same_claims w w' \<longleftrightarrow> claim_labels (wtrace w') = claim_labels (wtrace w)"

interpretation cs: preorder_rel same_claims
  by unfold_locales (auto simp: same_claims_def)

named_theorems claims_intros "which steps of a handler record no claim"

lemmas claims_structure [claims_intros] = cs.keeps_return cs.keeps_bind keeps_if keeps_sum keeps_option keeps_prod keeps_let

lemma claims_basic [claims_intros]:
  "keeps same_claims fresh" "keeps same_claims getConns" "keeps same_claims (putConns p)"
  by (simp_all add: keeps_def wp_simps same_claims_def)

lemma claims_act: "claim_labels [a] = [] \<Longrightarrow> keeps same_claims (act a)"
  by (simp add: keeps_def wp_simps same_claims_def claim_labels_append)

lemma claims_acts [claims_intros]:
  "keeps same_claims (act (A_GetMicroVM h uid))" "keeps same_claims (act (A_DeleteMicroVM h uid r))" "keeps same_claims (act (A_Exec h uid cmd))"
  "keeps same_claims (act (A_NotifyVMClaimed n ns))" "keeps same_claims (act (A_NotifyVMDeleted n ns))"
  "keeps same_claims (act (A_Metric (M_HookDuration hk n ns)))" "keeps same_claims (act (A_Metric (M_HookFailure hk n ns)))"
  by (simp_all add: claims_act)

lemma claims_storeCall [claims_intros]: "keeps same_claims (storeCall E c f)"
  by (auto simp: keeps_def wp_def storeCall_def same_claims_def Let_def split: sum.splits prod.splits)

lemma claims_policy [claims_intros]:
  "keeps R a \<Longrightarrow> keeps R b \<Longrightarrow> keeps R (case p of QUARANTINE \<Rightarrow> a | _ \<Rightarrow> b)"
  by (cases p) simp_all

lemma claims_steps [claims_intros]:
  "keeps same_claims (Now E)" "keeps same_claims (NewString E)" "keeps same_claims (UpdateVM E c v)" "keeps same_claims (flint_conn h)"
  unfolding Now_def NewString_def UpdateVM_def flint_conn_def by (intro claims_intros)+

lemma claims_flint [claims_intros]:
  "keeps same_claims (GetMicroVM E c h uid)" "keeps same_claims (DeleteMicroVM E c h uid)" "keeps same_claims (Exec_M E c h uid cmd)"
  unfolding GetMicroVM_def DeleteMicroVM_def Exec_M_def by (intro claims_intros)+

lemma claims_cleanup [claims_intros]:
  "keeps same_claims (EmitEvent E c pool uid t)" "keeps same_claims (EnsureVMDeleted E c vm)"
  unfolding EmitEvent_def EnsureVMDeleted_def EnsureVMDeletedCheckingPool_def markDeleting_def by (intro claims_intros)+


lemma claims_policies [claims_intros]:
  "keeps same_claims (LeaseServer_applyHookFailurePolicy E pool vm)"
  unfolding LeaseServer_applyHookFailurePolicy_def ApplyHookFailurePolicy_def deleteAfterHookFailure_def by (intro claims_intros)

lemma claims_run_pre_lease_commands [claims_intros]: "keeps same_claims (run_pre_lease_commands E pool vm cmds)"
proof (induction cmds)
  case (Cons cmd cmds)
  then show ?case unfolding run_pre_lease_commands.simps by (intro claims_intros; simp)
qed (simp add: claims_intros)

lemma claims_hooks [claims_intros]: "keeps same_claims (runPreLeaseHooks E pool vm)" "keeps same_claims (claimResponse E i vm)"
  unfolding runPreLeaseHooks_def claimResponse_def by (intro claims_intros)+

section \<open>Claims\<close>

text \<open>A handler that records one claim on the pool when it answers without an error, and none
  otherwise.\<close>

definition recorded :: "string \<Rightarrow> string \<Rightarrow> world \<Rightarrow> 'e + 'a \<Rightarrow> world \<Rightarrow> bool" where
  "recorded n ns w r w' \<longleftrightarrow>
     (\<exists>b. claim_labels (wtrace w') = claim_labels (wtrace w) @ (if is_ok r then [[n, ns, FormatBool b]] else []))"

definition records :: "string \<Rightarrow> string \<Rightarrow> ('e + 'a) M \<Rightarrow> bool" where
  "records n ns m \<longleftrightarrow> (\<forall>w. wp m (recorded n ns w) w)"

lemma records_error: "records n ns (ret (Inl e))"
  by (simp add: records_def wp_return recorded_def)

lemma records_seq:
  assumes "keeps same_claims m" "\<And>w. wp m (\<lambda>a _. P a) w" "\<And>a. P a \<Longrightarrow> records n ns (f a)"
  shows "records n ns (State_Monad.bind m f)"
  unfolding records_def
proof
  fix w :: world
  have "wp m (\<lambda>a u. same_claims w u \<and> P a) w" using assms(1,2) unfolding wp_conj keeps_def by blast
  then show "wp (State_Monad.bind m f) (recorded n ns w) w"
  proof (rule wp_seq)
    fix a and u :: world assume u: "same_claims w u \<and> P a"
    have "wp (f a) (recorded n ns u) u" using assms(3) u unfolding records_def by blast
    then show "wp (f a) (recorded n ns w) u" by (rule wp_mono) (use u in \<open>simp add: recorded_def same_claims_def\<close>)
  qed
qed

lemma records_bind: "keeps same_claims m \<Longrightarrow> (\<And>a. records n ns (f a)) \<Longrightarrow> records n ns (State_Monad.bind m f)"
  by (rule records_seq [where P = "\<lambda>_. True"]) (simp_all add: wp_run)

lemma records_storeCall:
  assumes "\<And>k d a d'. f k d = Inr (a, d') \<Longrightarrow> P a" "\<And>r. (\<And>a. r = Inr a \<Longrightarrow> P a) \<Longrightarrow> records n ns (g r)"
  shows "records n ns (State_Monad.bind (storeCall E c f) g)"
proof (rule records_seq [where P = "\<lambda>r. \<forall>a. r = Inr a \<longrightarrow> P a"])
  show "wp (storeCall E c f) (\<lambda>r _. \<forall>a. r = Inr a \<longrightarrow> P a) w" for w
    using assms(1) by (auto simp: wp_def storeCall_def Let_def split: sum.splits prod.splits)
qed (use assms(2) in \<open>auto intro: claims_intros\<close>)

lemma records_cases:
  "(b \<Longrightarrow> records n ns m) \<Longrightarrow> (\<not> b \<Longrightarrow> records n ns m') \<Longrightarrow> records n ns (if b then m else m')"
  "(\<And>e. r = Inl e \<Longrightarrow> records n ns (f e)) \<Longrightarrow> (\<And>a. r = Inr a \<Longrightarrow> records n ns (g a)) \<Longrightarrow> records n ns (case r of Inl e \<Rightarrow> f e | Inr a \<Rightarrow> g a)"
  "(\<And>x. x = t \<Longrightarrow> records n ns (h x)) \<Longrightarrow> records n ns (let x = t in h x)"
  by (auto split: sum.split)

lemma records_claim:
  assumes "keeps same_claims m"
  shows "records n ns (State_Monad.bind (act (A_Metric (M_VMClaim n ns b))) (\<lambda>_. State_Monad.bind m (\<lambda>a. ret (Inr a))))"
  unfolding records_def
proof
  fix w :: world
  let ?u = "w\<lparr>wtrace := wtrace w @ [A_Metric (M_VMClaim n ns b)]\<rparr>"
  have "wp m (\<lambda>_ u. same_claims ?u u) ?u" using assms unfolding keeps_def by blast
  then have "wp m (\<lambda>a u. recorded n ns w (Inr a) u) ?u"
    by (rule wp_mono) (auto simp: recorded_def same_claims_def claim_labels_append)
  then have "wp m (\<lambda>a. wp (ret (Inr a)) (recorded n ns w)) ?u" by (rule wp_mono) (simp add: wp_return)
  then show "wp (State_Monad.bind (act (A_Metric (M_VMClaim n ns b))) (\<lambda>_. State_Monad.bind m (\<lambda>a. ret (Inr a)))) (recorded n ns w) w"
    by (simp add: wp_bind wp_act)
qed

lemma records_notified:
  assumes "keeps same_claims m"
  shows "records n ns (State_Monad.bind (act (A_Metric (M_VMClaim n ns b))) (\<lambda>_. State_Monad.bind (act (A_NotifyVMClaimed p q)) (\<lambda>_.
     State_Monad.bind m (\<lambda>a. ret (Inr a)))))"
proof -
  have assoc: "State_Monad.bind (act (A_NotifyVMClaimed p q)) (\<lambda>_. State_Monad.bind m (\<lambda>a. ret (Inr a))) =
      State_Monad.bind (State_Monad.bind (act (A_NotifyVMClaimed p q)) (\<lambda>_. m)) (\<lambda>a. ret (Inr a))"
    by simp
  show ?thesis unfolding assoc by (intro records_claim claims_intros assms)
qed

lemma records_replayClaim: "records n ns (replayClaim E lease n ns)"
  unfolding replayClaim_def
  by (intro records_cases records_bind records_error records_claim claims_intros)

lemma records_yieldClaim: "ps_Name pool = n \<Longrightarrow> ps_Namespace pool = ns \<Longrightarrow> records n ns (yieldClaim E pool vm i)"
  unfolding yieldClaim_def using records_replayClaim [of n ns E]
  by (intro records_cases records_bind records_error claims_intros) simp

lemma records_commit_claim:
  assumes "ps_Name pool = cr_PoolName req" "ps_Namespace pool = cr_PoolNamespace req"
  shows "records (cr_PoolName req) (cr_PoolNamespace req) (commit_claim E pool vm req)"
  unfolding commit_claim_def
  by (intro records_cases records_notified records_bind records_error records_yieldClaim assms claims_intros)

lemma records_fresh_claim:
  assumes "ps_Name pool = cr_PoolName req" "ps_Namespace pool = cr_PoolNamespace req"
  shows "records (cr_PoolName req) (cr_PoolNamespace req) (fresh_claim E pool req)"
  unfolding fresh_claim_def
  by (intro records_cases records_bind records_error records_commit_claim assms claims_intros)

lemma GetPool_names: "GetPool C n ns d = Inr (p, d') \<Longrightarrow> ps_Name p = n \<and> ps_Namespace p = ns"
  by (auto simp: GetPool_def split: option.splits sum.splits dest!: find_key_SomeD rowToPool_Inr)

lemma records_ClaimVM: "records (cr_PoolName req) (cr_PoolNamespace req) (ClaimVM E req)"
proof -
  let ?r = "records (cr_PoolName req) (cr_PoolNamespace req)"
  have rest: "?r (if cr_RequestId req \<noteq> [] then State_Monad.bind (storeCall E Ctx (\<lambda>_. GetLeaseByRequestID (cr_RequestId req)))
      (\<lambda>l. case l of Inl e \<Rightarrow> if e \<noteq> ErrNotFound then ret (Inl Internal) else fresh_claim E pool req
       | Inr lease \<Rightarrow> replayClaim E lease (cr_PoolName req) (cr_PoolNamespace req)) else fresh_claim E pool req)"
    if "ps_Name pool = cr_PoolName req" "ps_Namespace pool = cr_PoolNamespace req" for pool
    by (intro records_cases records_bind records_error records_replayClaim records_fresh_claim that claims_intros)
  show ?thesis unfolding ClaimVM_def
    by (rule records_cases(1), rule records_error,
        rule records_storeCall [where P = "\<lambda>p. ps_Name p = cr_PoolName req \<and> ps_Namespace p = cr_PoolNamespace req"])
      (auto dest: GetPool_names intro!: records_cases(2) records_error rest)
qed

text \<open>C27: \<open>poolmgr_vm_claims_total\<close> counts the successful claims. Whatever the store, flintlock, the
  caller and the other goroutines do, a \<open>ClaimVM\<close> call that returns a lease increments exactly one
  series of the counter, the one of the pool it asked for, labelled by whether it was replayed, and
  by one; a call that fails increments none.\<close>

theorem vm_claims_total_counts_claims:
  assumes "run_state (ClaimVM E req) w = (res, w')"
  shows "\<exists>replayed. \<forall>labels. ms_vmClaimsTotal (metrics_of dur (wtrace w')) labels = ms_vmClaimsTotal (metrics_of dur (wtrace w)) labels +
    (if is_ok res \<and> labels = [cr_PoolName req, cr_PoolNamespace req, FormatBool replayed] then 1 else 0)"
proof -
  have "recorded (cr_PoolName req) (cr_PoolNamespace req) w res w'"
    using records_ClaimVM [of req E] by (simp add: records_def wp_def) (metis assms case_prod_conv)
  then obtain b where "claim_labels (wtrace w') = claim_labels (wtrace w) @ (if is_ok res then [[cr_PoolName req, cr_PoolNamespace req, FormatBool b]] else [])"
    by (auto simp: recorded_def)
  then have "\<forall>labels. ms_vmClaimsTotal (metrics_of dur (wtrace w')) labels = ms_vmClaimsTotal (metrics_of dur (wtrace w)) labels +
    (if is_ok res \<and> labels = [cr_PoolName req, cr_PoolNamespace req, FormatBool b] then 1 else 0)"
    by (simp add: claims_total)
  then show ?thesis by blast
qed

definition sample_request :: ClaimVMRequest where
  "sample_request = \<lparr>cr_PoolName = ''p'', cr_PoolNamespace = ''ns'', cr_RequestId = []\<rparr>"

theorem vm_claims_total_counts_claims_witness:
  "\<exists>resp w' replayed. run_state (ClaimVM sample_env sample_request) (sample_world sample_pool_db) = (Inr resp, w') \<and>
     ms_vmClaimsTotal (metrics_of (\<lambda>_. 0) (wtrace w')) [''p'', ''ns'', FormatBool replayed] = 1"
proof -
  let ?r = "run_state (ClaimVM sample_env sample_request) (sample_world sample_pool_db)"
  have ok: "is_ok (fst ?r)" "ms_vmClaimsTotal (metrics_of (\<lambda>_. 0) (wtrace (sample_world sample_pool_db))) l = 0" for l
    by code_simp (simp add: claims_total sample_world_def)
  then obtain resp w' where run: "?r = (Inr resp, w')" by (metis is_okE prod.collapse)
  show ?thesis using vm_claims_total_counts_claims [OF run, of "\<lambda>_. 0"] run ok(2) by (auto simp: sample_request_def)
qed

end
