(* ===== verification/Spec2Isabelle.thy ===== *)
theory Spec2Isabelle
  imports Strategy Host_Pick Provision_Props System Server Metrics
    Sweeper_Props Reconcile_Props Pool_Props CLI_Props Concurrency_Props
    Daemon Push_Metrics
begin

text \<open>
  Verification of the microVM warm pool manager (module \<^verbatim>\<open>github.com/liquidmetal-dev/battery\<close>,
  sources under \<^verbatim>\<open>src/\<close>).

  \<^bold>\<open>The program.\<close> \<^verbatim>\<open>poolmgrd\<close> keeps pools of booted microVMs on flintlock hosts so that a client can
  claim a running one. A store (SQLite) holds pools, VMs, leases, hosts, placements and an outbox of
  events. For each pool a reconciler provisions VMs through flintlock until a replenishment strategy
  is satisfied; a sweeper expires leases, finishes pending deletions and empties draining hosts; the
  gRPC services PoolAdmin, Lease, HostAdmin and Events are the interface of the clients; a manager
  starts and stops the reconcilers. The goroutines share nothing but the store, the registry of
  connections and the registry of reconcilers. \<^verbatim>\<open>poolmgrctl\<close> is the command-line client.

  \<^bold>\<open>How it is modelled.\<close> A store method is a function on the tables that either commits
  (\<open>Inr (result, tables)\<close>) or fails (\<open>Inl error\<close>) without effect; a method that runs several
  statements outside a transaction is several such steps. A handler or background task is a program in
  the state monad of theory \<open>World\<close>, whose state is the tables, the connections, the reconcilers, the
  trace of what was sent out and a step counter. At every interaction the environment \<open>env\<close> decides,
  from the step counter, all that the code does not determine: the clock, fresh ids, the order of an
  unordered query, flintlock's answers, which statements fail, when the caller's context is cancelled
  (\<open>Ctx\<close> against the detached contexts, \<open>Detached\<close>) and what the other goroutines did meanwhile
  (\<open>e_others\<close>, \<open>e_othersConns\<close>, \<open>e_othersMgr\<close>). A property quantifies over the environment: \<open>honest\<close>
  others run store transactions only, \<open>stable\<close> others keep a given fact, \<open>undisturbed\<close> means that
  nobody else writes and the store works. The locks of the source only restrict the interference, so the
  handlers do without them; what the locks of the pool requests are for is shown in \<open>Concurrency\<close>, where
  requests are threads interleaved call by call. Instants and durations are nanoseconds; \<open>int32\<close> and \<open>int64\<close> conversions are explicit.

  \<^bold>\<open>Theories\<close> (and the sources they model, below \<^verbatim>\<open>src/\<close>).
  \<^item> \<open>Prelude\<close>: integers, tables with SQL's statements as list functions, shared lemmas.
  \<^item> \<open>Types\<close>: messages and enums, \<^verbatim>\<open>api/proto/poolmgr/v1alpha1/*.pb.go\<close>.
  \<^item> \<open>Convert\<close>, \<open>Store\<close>: \<^verbatim>\<open>internal/store/convert.go\<close>, \<^verbatim>\<open>sqlite.go\<close>, \<^verbatim>\<open>schema.sql\<close>, \<^verbatim>\<open>store.go\<close>. \<open>Store_Inv\<close> has
    the step relation \<open>store_step\<close> of all transactions and the invariant \<open>wf_db\<close>; \<open>Store_Props\<close>,
    \<open>Store_Hosts\<close> and \<open>Store_Roundtrip\<close> show that ids stay unique, DELETING is terminal, claims are
    exclusive, leasing is atomic, expiry and heartbeat exclude each other, host removal and placement
    exclude each other, and records read back as written.
  \<^item> \<open>Strategy\<close>, \<open>Host_Pick\<close>: \<^verbatim>\<open>internal/reconciler/strategy.go\<close>, \<^verbatim>\<open>hostpick.go\<close>; the three strategies as
    interpretations of one locale that gives their common bound.
  \<^item> \<open>Flint\<close>: \<^verbatim>\<open>internal/flintlockclient\<close>; the connection registry as the interpretation of a locale,
    validation, dialling, the version check, \<open>Exec\<close>.
  \<^item> \<open>Manager\<close>: \<^verbatim>\<open>internal/poolmanager/manager.go\<close> as a transition system: one reconciler per pool, and
    waiting for a stop is sound.
  \<^item> \<open>World\<close>: the monad, weakest preconditions \<open>wp\<close> and the relation \<open>keeps\<close>; \<open>Invariants\<close>: a Hoare
    calculus for facts the others keep.
  \<^item> \<open>Provision\<close>, \<open>Provision_Inv\<close>, \<open>Cleanup\<close>, \<open>Provision_Props\<close>: \<^verbatim>\<open>internal/reconciler/provision.go\<close>,
    \<^verbatim>\<open>drain.go\<close>; provisioning and hook failures are all or nothing.
  \<^item> \<open>Reconciler\<close>, \<open>Reconcile_Props\<close>: \<^verbatim>\<open>internal/reconciler/reconciler.go\<close>; any sequence of
    passes stays within the pool's size, and a notification is never lost.
  \<^item> \<open>Sweeper\<close>, \<open>Sweeper_Props\<close>: \<^verbatim>\<open>internal/reconciler/sweeper.go\<close>; live leases are spared.
  \<^item> \<open>Lease_API\<close>, \<open>Lease_Props\<close>, \<open>Release_Props\<close>: \<^verbatim>\<open>internal/api/lease.go\<close>.
  \<^item> \<open>Pool_Admin\<close>, \<open>Pool_Props\<close>: \<^verbatim>\<open>internal/api/pooladmin.go\<close>. \<open>Host_Admin\<close>, \<open>Host_Props\<close>:
    \<^verbatim>\<open>internal/api/hostadmin.go\<close>; connections follow the stored hosts.
  \<^item> \<open>Events_API\<close>: \<^verbatim>\<open>internal/api/events.go\<close>; each event is delivered once and in order.
  \<^item> \<open>Concurrency\<close>, \<open>Concurrency_Props\<close>: \<open>lockPool\<close> and \<open>hostRefsMu\<close> of \<^verbatim>\<open>internal/api\<close>; under every
    interleaving, with crashes and restarts, reconcilers run what is stored and pools name registered hosts.
  \<^item> \<open>Startup\<close>, \<open>Daemon\<close>: \<^verbatim>\<open>cmd/poolmgrd/main.go\<close>; recovery is complete, start-up succeeds, and the four
    tasks of the process shut down together.
  \<^item> \<open>Config\<close>, \<open>Server\<close>: \<^verbatim>\<open>internal/config/config.go\<close>, \<^verbatim>\<open>internal/server/server.go\<close>.
  \<^item> \<open>Metrics\<close>, \<open>Push_Metrics\<close>: \<^verbatim>\<open>internal/metrics/pool_collector.go\<close>, \<^verbatim>\<open>metrics.go\<close>; gauges agree with
    \<open>ListPools\<close>, and the claims counter counts the successful claims.
  \<^item> \<open>System\<close>: every handler and task, and histories of them with restarts, refine the store's
    transition system, so that the invariants of the store hold of the whole program.
  \<^item> \<open>CLI_Output\<close>, \<open>CLI\<close>, \<open>CLI_Props\<close>: \<^verbatim>\<open>internal/poolmgrctl\<close>, \<^verbatim>\<open>cmd/poolmgrctl\<close>; commands run against
    the handlers of this development, tables line up, tailing returns when its stream does.

  \<^bold>\<open>Loops.\<close> Loops over lists are recursive functions. Polling loops (\<open>waitCreated\<close>, \<open>WaitReady\<close>) run for
  the number of polls that fit before their deadline, and \<open>Subscribe\<close> for a number of rounds: what is
  shown of them holds for every number. \<open>tailEvents\<close> may run for ever and is a partial function; that
  and when it returns is a theorem. The parser of durations and the column layout are total with their
  termination proved. The loops of the reconciler and the sweeper run over the list of triggers or times
  they are woken by, and the processes of \<open>Concurrency\<close> and \<open>Daemon\<close> are step relations with runs of any length.

  \<^bold>\<open>Parameters.\<close> What is not in the repository is an argument: the protojson codec, the semantic version
  comparison, flintlock, TLS, the file system and the gRPC transport. Their documented behaviour is a
  named hypothesis where a property needs it (\<open>protojson_ok\<close>, \<open>codec_reads_back\<close>), with a concrete instance in its witness.

  \<^bold>\<open>Not modelled.\<close> Generated protobuf reflection and gRPC stubs (they marshal and dispatch); registration of
  collectors and interceptors with the Prometheus and gRPC libraries (\<^verbatim>\<open>registry.go\<close>, \<^verbatim>\<open>grpc.go\<close>); the helper
  of the end-to-end tests; SQLite itself, beyond that a statement or transaction is atomic
  and a failed one has no effect; log lines, error texts and the values of observed durations; the grammar of
  the command line; the deadlines of single calls, which are error answers of the environment; the memory
  model of Go below the granularity of one interaction.
\<close>

section \<open>Defaults of the two programs\<close>

text \<open>With default settings \<^verbatim>\<open>poolmgrctl\<close> dials the port on which \<^verbatim>\<open>poolmgrd\<close> serves its metrics.\<close>

lemma defaultAddr_is_metrics_port: "defaultAddr = ''127.0.0.1'' @ DefaultMetricsAddr"
  by (simp add: defaultAddr_def DefaultMetricsAddr_def)

text \<open>The code whose name in the status proto is CANCELLED is shown with one L.\<close>

lemma snakeCaseCode_Canceled: "codeString Canceled = ''Canceled'' \<Longrightarrow> snakeCaseCode codeString Canceled = ''canceled''"
  by (simp add: snakeCaseCode_def) code_simp

end
